(* ===== verification/Prelude.thy ===== *)
theory Prelude
  imports Main "HOL-Library.Monad_Syntax"
begin

text \<open>
  What every component of the development shares: the model of C strings and of the functions
  of \<open>string.h\<close>, \<open>ctype.h\<close> and \<open>stdlib.h\<close> that the bot calls, the
  result type of operations that can run into undefined behaviour, and the collections of
  simplification facts the component proofs use.

  A C string is the list of its characters before the terminating null byte.  A pointer to a
  string that the code tests against \<open>NULL\<close> is a \<open>string option\<close>.  A pointer into a string
  (the result of \<open>strchr\<close>, \<open>strstr\<close>, \<open>strrchr\<close>) is the suffix it points to.
  Characters are bytes; \<open>isalpha\<close> and \<open>tolower\<close> are those of the C and UTF-8 locales, in
  which bytes above 127 are not letters.
\<close>

named_theorems cstr \<open>facts about the string functions of the C library\<close>
named_theorems frames \<open>which parts of the state an operation leaves alone\<close>

text \<open>
  An operation that may dereference a null pointer, run off the end of an object, read an
  uninitialised variable or not return has an option type; \<open>None\<close> stands for each of these.
\<close>

type_synonym 'a c_result = "'a option"

abbreviation SP :: char where "SP \<equiv> CHR '' ''"
abbreviation NL :: char where "NL \<equiv> CHR 0x0A"
abbreviation CR :: char where "CR \<equiv> CHR 0x0D"
abbreviation TAB :: char where "TAB \<equiv> CHR 0x09"
abbreviation DQ :: char where "DQ \<equiv> CHR 0x22"
abbreviation SOH :: char where "SOH \<equiv> CHR 0x01"
abbreviation CRLF :: string where "CRLF \<equiv> [CR, NL]"

section \<open>Character classes\<close>

definition isupper_c :: "char \<Rightarrow> bool" where
  "isupper_c c \<longleftrightarrow> 65 \<le> (of_char c :: nat) \<and> (of_char c :: nat) \<le> 90"

definition islower_c :: "char \<Rightarrow> bool" where
  "islower_c c \<longleftrightarrow> 97 \<le> (of_char c :: nat) \<and> (of_char c :: nat) \<le> 122"

definition isdigit_c :: "char \<Rightarrow> bool" where
  "isdigit_c c \<longleftrightarrow> 48 \<le> (of_char c :: nat) \<and> (of_char c :: nat) \<le> 57"

definition isalpha_c :: "char \<Rightarrow> bool" where
  "isalpha_c c \<longleftrightarrow> isupper_c c \<or> islower_c c"

definition isalnum_c :: "char \<Rightarrow> bool" where
  "isalnum_c c \<longleftrightarrow> isalpha_c c \<or> isdigit_c c"

definition tolower_c :: "char \<Rightarrow> char" where
  "tolower_c c = (if isupper_c c then char_of ((of_char c :: nat) + 32) else c)"

lemma isupper_bounds: "isupper_c c \<Longrightarrow> (of_char c :: nat) + 32 < 256"
  by (simp add: isupper_c_def)

lemma not_isupper_tolower [simp]: "\<not> isupper_c (tolower_c c)"
  by (auto simp: tolower_c_def isupper_c_def of_char_of take_bit_eq_mod)

lemma tolower_idem [simp]: "tolower_c (tolower_c c) = tolower_c c"
  using not_isupper_tolower[of c] by (simp add: tolower_c_def)

lemma isalpha_tolower [simp]: "isalpha_c (tolower_c c) = isalpha_c c"
  by (auto simp: tolower_c_def isupper_c_def islower_c_def isalpha_c_def of_char_of take_bit_eq_mod)

lemma tolower_not_upper: "\<not> isupper_c c \<Longrightarrow> tolower_c c = c"
  by (simp add: tolower_c_def)

lemma tolower_eq_nonalpha:
  assumes "\<not> isalpha_c d" shows "tolower_c c = d \<longleftrightarrow> c = d"
proof (cases "isupper_c c")
  case True
  then have "isalpha_c c" by (simp add: isalpha_c_def)
  then have "isalpha_c (tolower_c c)" by simp
  then show ?thesis using assms \<open>isalpha_c c\<close> by metis
next
  case False
  then show ?thesis by (simp add: tolower_c_def)
qed

section \<open>Searching\<close>

definition strchr :: "string \<Rightarrow> char \<Rightarrow> string option" where
  "strchr s c = (case dropWhile (\<lambda>x. x \<noteq> c) s of [] \<Rightarrow> None | y # ys \<Rightarrow> Some (y # ys))"

definition strrchr :: "string \<Rightarrow> char \<Rightarrow> string option" where
  "strrchr s c = (if c \<in> set s then Some (c # rev (takeWhile (\<lambda>x. x \<noteq> c) (rev s))) else None)"

text \<open>\<open>strncmp(s, p, strlen(p)) == 0\<close>: the string starts with \<open>p\<close>.\<close>

definition starts_with :: "string \<Rightarrow> string \<Rightarrow> bool" where
  "starts_with s p \<longleftrightarrow> take (length p) s = p"

fun strstr :: "string \<Rightarrow> string \<Rightarrow> string option" where
  "strstr [] p = (if p = [] then Some [] else None)"
| "strstr (c # cs) p = (if starts_with (c # cs) p then Some (c # cs) else strstr cs p)"

definition strpbrk :: "string \<Rightarrow> string \<Rightarrow> bool" where
  "strpbrk s accept \<longleftrightarrow> list_ex (\<lambda>c. c \<in> set accept) s"

text \<open>
  The first call of \<open>strtok(s, d)\<close> skips leading delimiters, takes the characters up to the
  next delimiter as the token and writes a null byte there.  \<open>strtok_tok\<close> is the token
  (\<open>None\<close>: the null pointer) and \<open>strtok_cut\<close> what the buffer holds afterwards.
\<close>

definition strtok_tok :: "char \<Rightarrow> string \<Rightarrow> string option" where
  "strtok_tok d s = (let r = dropWhile (\<lambda>x. x = d) s in
     if r = [] then None else Some (takeWhile (\<lambda>x. x \<noteq> d) r))"

definition strtok_cut :: "char \<Rightarrow> string \<Rightarrow> string" where
  "strtok_cut d s = takeWhile (\<lambda>x. x = d) s @ takeWhile (\<lambda>x. x \<noteq> d) (dropWhile (\<lambda>x. x = d) s)"

definition strcasecmp_eq :: "string \<Rightarrow> string \<Rightarrow> bool" where
  "strcasecmp_eq a b \<longleftrightarrow> map tolower_c a = map tolower_c b"

lemma strchr_None [cstr]: "strchr s c = None \<longleftrightarrow> c \<notin> set s"
proof (cases "dropWhile (\<lambda>x. x \<noteq> c) s")
  case Nil
  then have "c \<notin> set s" by auto
  moreover have "strchr s c = None" unfolding strchr_def Nil by simp
  ultimately show ?thesis by simp
next
  case (Cons y ys)
  then have "y \<in> set (dropWhile (\<lambda>x. x \<noteq> c) s)" by simp
  then have "y \<in> set s" by (rule set_dropWhileD)
  moreover have "c = y" using hd_dropWhile[of "\<lambda>x. x \<noteq> c" s] Cons by simp
  moreover have "strchr s c \<noteq> None" unfolding strchr_def Cons by simp
  ultimately show ?thesis by simp
qed

lemma strchr_Some: "strchr s c = Some r \<Longrightarrow> \<exists>pre post. s = pre @ c # post \<and> r = c # post \<and> c \<notin> set pre"
proof -
  assume "strchr s c = Some r"
  then have r: "r = dropWhile (\<lambda>x. x \<noteq> c) s" "r \<noteq> []"
    by (auto simp: strchr_def split: list.splits)
  then have "hd r = c" using hd_dropWhile[of "\<lambda>x. x \<noteq> c" s] by auto
  then have "s = takeWhile (\<lambda>x. x \<noteq> c) s @ c # tl r" "r = c # tl r"
    using r by (metis list.collapse takeWhile_dropWhile_id)+
  moreover have "c \<notin> set (takeWhile (\<lambda>x. x \<noteq> c) s)" by (auto dest: set_takeWhileD)
  ultimately show ?thesis by blast
qed

lemma strchr_append [cstr]: "c \<notin> set a \<Longrightarrow> strchr (a @ c # b) c = Some (c # b)"
  by (induction a) (auto simp: strchr_def)

lemma strrchr_append [cstr]: "c \<notin> set b \<Longrightarrow> strrchr (a @ c # b) c = Some (c # b)"
proof -
  assume "c \<notin> set b"
  then have "takeWhile (\<lambda>x. x \<noteq> c) (rev b @ c # rev a) = rev b"
    by (subst takeWhile_append2) auto
  then show ?thesis by (simp add: strrchr_def)
qed

lemma strrchr_None [cstr]: "strrchr s c = None \<longleftrightarrow> c \<notin> set s"
  by (auto simp: strrchr_def)

lemma starts_with_append [cstr]: "starts_with (p @ r) p"
  by (simp add: starts_with_def)

lemma starts_with_iff: "starts_with s p \<longleftrightarrow> (\<exists>r. s = p @ r)"
  by (metis append_take_drop_id starts_with_append starts_with_def)

lemma starts_with_Cons [cstr, simp]:
  "starts_with (c # cs) (p # ps) \<longleftrightarrow> c = p \<and> starts_with cs ps"
  by (auto simp: starts_with_def)

lemma starts_with_Nil [cstr, simp]:
  "starts_with s []" "starts_with [] (p # ps) \<longleftrightarrow> False"
  by (auto simp: starts_with_def)

lemma strstr_Some: "strstr s p = Some r \<Longrightarrow> \<exists>pre. s = pre @ r \<and> starts_with r p"
  by (induction s) (auto split: if_splits intro: exI[of _ "_ # _"])

lemma strstr_Some_prefix: "strstr s p = Some r \<Longrightarrow> starts_with r p"
  using strstr_Some by blast

lemma strstr_self [cstr]: "starts_with s p \<Longrightarrow> strstr s p = Some s"
  by (cases s) (auto simp: starts_with_def)

text \<open>A pattern that starts with a character the text before the match lacks is found there.\<close>

lemma strstr_append [cstr]:
  assumes "p \<noteq> []" "hd p \<notin> set a" "starts_with b p"
  shows "strstr (a @ b) p = Some b"
  using assms by (induction a) (cases p; auto simp: strstr_self)+

lemma strtok_cut_simple [cstr]:
  "s = [] \<or> hd s \<noteq> d \<Longrightarrow> strtok_cut d s = takeWhile (\<lambda>x. x \<noteq> d) s"
  by (cases s) (auto simp: strtok_cut_def)

lemma strtok_cut_no_delim [cstr]: "d \<notin> set s \<Longrightarrow> strtok_cut d s = s"
  by (cases s) (auto simp: strtok_cut_def takeWhile_eq_all_conv)

lemma takeWhile_upto [cstr]: "d \<notin> set a \<Longrightarrow> takeWhile (\<lambda>x. x \<noteq> d) (a @ d # b) = a"
  by (induction a) auto

lemma dropWhile_upto [cstr]: "d \<notin> set a \<Longrightarrow> dropWhile (\<lambda>x. x \<noteq> d) (a @ d # b) = d # b"
  by (induction a) auto

lemma takeWhile_none [cstr]: "d \<notin> set a \<Longrightarrow> takeWhile (\<lambda>x. x \<noteq> d) a = a"
  by (induction a) auto

lemma dropWhile_none [cstr]: "d \<notin> set a \<Longrightarrow> dropWhile (\<lambda>x. x \<noteq> d) a = []"
  by (induction a) auto

lemma notin_takeWhile [cstr, simp]: "d \<notin> set (takeWhile (\<lambda>x. x \<noteq> d) s)"
  by (auto dest: set_takeWhileD)

lemma strtok_cut_length: "length (strtok_cut d s) \<le> length s"
proof -
  have "length (takeWhile (\<lambda>x. x \<noteq> d) (dropWhile (\<lambda>x. x = d) s)) \<le> length (dropWhile (\<lambda>x. x = d) s)"
    by (rule length_takeWhile_le)
  then show ?thesis
    unfolding strtok_cut_def length_append
    by (metis add_le_cancel_left length_append takeWhile_dropWhile_id)
qed

lemma strtok_cut_set: "set (strtok_cut d s) \<subseteq> set s"
  by (auto simp: strtok_cut_def dest!: set_takeWhileD set_dropWhileD)

lemma strcasecmp_refl [cstr, simp]: "strcasecmp_eq a a"
  by (simp add: strcasecmp_eq_def)

section \<open>Numbers as text\<close>

fun dec_digits :: "nat \<Rightarrow> string" where
  "dec_digits n = (if n < 10 then [char_of (48 + n)] else dec_digits (n div 10) @ [char_of (48 + n mod 10)])"

declare dec_digits.simps [simp del]

text \<open>The conversion \<open>%ld\<close> of \<open>sprintf\<close>.\<close>

definition show_long :: "int \<Rightarrow> string" where
  "show_long i = (if i < 0 then CHR ''-'' # dec_digits (nat (- i)) else dec_digits (nat i))"

fun parse_digits :: "nat \<Rightarrow> string \<Rightarrow> nat" where
  "parse_digits acc [] = acc"
| "parse_digits acc (c # cs) =
     (if isdigit_c c then parse_digits (10 * acc + (of_char c - 48)) cs else acc)"

definition isspace_c :: "char \<Rightarrow> bool" where
  "isspace_c c \<longleftrightarrow> c = SP \<or> (9 \<le> (of_char c :: nat) \<and> (of_char c :: nat) \<le> 13)"

text \<open>\<open>atol\<close> and \<open>atoi\<close>, on values that fit the result type.\<close>

definition atol :: "string \<Rightarrow> int" where
  "atol s = (case dropWhile isspace_c s of
       [] \<Rightarrow> 0
     | c # cs \<Rightarrow> (if c = CHR ''-'' then - int (parse_digits 0 cs)
                 else if c = CHR ''+'' then int (parse_digits 0 cs)
                 else int (parse_digits 0 (c # cs))))"

lemma of_char_digit: "(n::nat) < 10 \<Longrightarrow> (of_char (char_of (48 + n) :: char) :: nat) = 48 + n"
  by (simp add: of_char_of take_bit_eq_mod)

lemma isdigit_digit: "(n::nat) < 10 \<Longrightarrow> isdigit_c (char_of (48 + n))"
  by (simp only: isdigit_c_def of_char_digit) simp

lemma dec_digits_isdigit: "c \<in> set (dec_digits n) \<Longrightarrow> isdigit_c c"
proof (induction n rule: dec_digits.induct)
  case (1 n)
  show ?case
  proof (cases "n < 10")
    case True
    with "1.prems" have "c = char_of (48 + n)" by (simp add: dec_digits.simps[of n])
    with isdigit_digit[OF True] show ?thesis by simp
  next
    case False
    with "1.prems" have "c \<in> set (dec_digits (n div 10)) \<or> c = char_of (48 + n mod 10)"
      by (auto simp: dec_digits.simps[of n])
    with "1.IH"[OF False] isdigit_digit[of "n mod 10"] show ?thesis by auto
  qed
qed

lemma dec_digits_nonempty: "dec_digits n \<noteq> []"
  by (subst dec_digits.simps) simp

lemma parse_digits_append:
  "(\<forall>c \<in> set xs. isdigit_c c) \<Longrightarrow> parse_digits acc (xs @ ys) = parse_digits (parse_digits acc xs) ys"
  by (induction xs arbitrary: acc) auto

lemma parse_dec_digits: "parse_digits 0 (dec_digits n) = n"
proof (induction n rule: dec_digits.induct)
  case (1 n)
  show ?case
  proof (cases "n < 10")
    case True
    then show ?thesis
      by (subst dec_digits.simps) (simp add: isdigit_digit of_char_digit)
  next
    case False
    then have "parse_digits 0 (dec_digits n)
        = parse_digits (parse_digits 0 (dec_digits (n div 10))) [char_of (48 + n mod 10)]"
      by (subst dec_digits.simps) (simp add: parse_digits_append dec_digits_isdigit)
    also have "\<dots> = 10 * (n div 10) + n mod 10"
      using "1.IH"[OF False] isdigit_digit[of "n mod 10"] of_char_digit[of "n mod 10"] by simp
    finally show ?thesis by simp
  qed
qed

lemma dropWhile_hd: "xs \<noteq> [] \<Longrightarrow> \<not> P (hd xs) \<Longrightarrow> dropWhile P xs = xs"
  by (cases xs) auto

lemma isdigit_not_special:
  "isdigit_c c \<Longrightarrow> \<not> isspace_c c \<and> c \<noteq> CHR ''-'' \<and> c \<noteq> CHR ''+'' \<and> c \<noteq> SP"
  by (auto simp: isdigit_c_def isspace_c_def)

lemma atol_dec_digits: "atol (dec_digits n) = int n"
proof -
  obtain c cs where ds: "dec_digits n = c # cs" using dec_digits_nonempty[of n] by (cases "dec_digits n") auto
  then have "isdigit_c c" using dec_digits_isdigit[of c n] by simp
  from isdigit_not_special[OF this] have "atol (dec_digits n) = int (parse_digits 0 (dec_digits n))"
    by (simp add: atol_def ds)
  then show ?thesis by (simp add: parse_dec_digits)
qed

lemma atol_show_long [cstr]: "atol (show_long i) = i"
proof (cases "i < 0")
  case True
  have "\<not> isspace_c (CHR ''-'')" by (simp add: isspace_c_def)
  with True show ?thesis by (simp add: show_long_def atol_def parse_dec_digits)
next
  case False
  then show ?thesis by (simp add: show_long_def atol_dec_digits)
qed

section \<open>Loops that compact a buffer in place\<close>

text \<open>
  Several routines read a buffer with an index \<open>i\<close> and write what they keep back to the same
  buffer at an index \<open>j\<close> that never overtakes \<open>i\<close>.  \<open>inplace_step\<close> is one iteration of such a
  loop for a transducer that emits at most one character per character read, and \<open>emitted\<close> is
  the list of characters a separate output buffer would receive.
\<close>

type_synonym 'st transducer = "'st \<Rightarrow> char \<Rightarrow> 'st \<times> char option"

fun emitted :: "'st transducer \<Rightarrow> 'st \<Rightarrow> string \<Rightarrow> string" where
  "emitted d st [] = []"
| "emitted d st (c # cs) =
     (case d st c of (st', None) \<Rightarrow> emitted d st' cs | (st', Some x) \<Rightarrow> x # emitted d st' cs)"

definition inplace_step ::
  "'st transducer \<Rightarrow> nat \<Rightarrow> nat \<times> 'st \<times> string \<Rightarrow> nat \<times> 'st \<times> string" where
  "inplace_step d i = (\<lambda>(j, st, buf).
     (case d st (buf ! i) of
        (st', None) \<Rightarrow> (j, st', buf)
      | (st', Some x) \<Rightarrow> (Suc j, st', buf[j := x])))"

text \<open>The loop over one buffer computes what the loop with a separate output buffer computes.\<close>

lemma inplace_loop:
  assumes "j \<le> i" "i \<le> length buf"
    and "fold (inplace_step d) [i..<length buf] (j, st, buf) = (j', st', buf')"
  shows "j' \<le> length buf \<and> length buf' = length buf \<and>
         take j' buf' = take j buf @ emitted d st (drop i buf)"
  using assms
proof (induction "length buf - i" arbitrary: i j st buf)
  case 0
  then have "i = length buf" by simp
  with 0 show ?case by auto
next
  case (Suc k)
  then have i: "i < length buf" by arith
  then have range: "[i..<length buf] = i # [Suc i..<length buf]" and
    rest: "drop i buf = buf ! i # drop (Suc i) buf"
    by (simp_all add: upt_conv_Cons Cons_nth_drop_Suc)
  obtain st1 e where d: "d st (buf ! i) = (st1, e)" by fastforce
  show ?case
  proof (cases e)
    case None
    with Suc.prems d range have
      "fold (inplace_step d) [Suc i..<length buf] (j, st1, buf) = (j', st', buf')"
      by (simp add: inplace_step_def)
    with Suc.hyps Suc.prems i have "j' \<le> length buf \<and> length buf' = length buf \<and>
        take j' buf' = take j buf @ emitted d st1 (drop (Suc i) buf)"
      by (intro Suc.hyps(1)) auto
    with d None rest show ?thesis by simp
  next
    case (Some x)
    let ?b = "buf[j := x]"
    from Some Suc.prems d range have
      "fold (inplace_step d) [Suc i..<length ?b] (Suc j, st1, ?b) = (j', st', buf')"
      by (simp add: inplace_step_def)
    moreover have "k = length ?b - Suc i" "Suc j \<le> Suc i" "Suc i \<le> length ?b"
      using Suc.hyps(2) Suc.prems i by auto
    ultimately have "j' \<le> length ?b \<and> length buf' = length ?b \<and>
        take j' buf' = take (Suc j) ?b @ emitted d st1 (drop (Suc i) ?b)"
      by (intro Suc.hyps(1))
    moreover have "take (Suc j) ?b = take j buf @ [x]"
      using Suc.prems i by (simp add: take_Suc_conv_app_nth)
    moreover have "drop (Suc i) ?b = drop (Suc i) buf" using Suc.prems by simp
    ultimately show ?thesis using d Some rest by simp
  qed
qed

section \<open>Interfaces\<close>

text \<open>
  A normalisation maps every value to a normal form and leaves normal forms alone.  Lookups by
  normalised keys and repeated trimming of the same buffer rely on no more than that.
\<close>

locale normal_form =
  fixes norm :: "'a \<Rightarrow> 'a" and nf :: "'a \<Rightarrow> bool"
  assumes nf_norm: "nf (norm x)"
    and norm_id: "nf x \<Longrightarrow> norm x = x"
begin

lemma norm_idem: "norm (norm x) = norm x"
  by (simp add: nf_norm norm_id)

lemma nf_iff: "nf x \<longleftrightarrow> norm x = x"
  by (metis nf_norm norm_id)

end

text \<open>
  A text format: what \<open>enc\<close> writes for a well-formed value, \<open>dec\<close> reads back.
\<close>

locale text_format =
  fixes enc :: "'v \<Rightarrow> string" and dec :: "string \<Rightarrow> 'v option" and wf :: "'v \<Rightarrow> bool"
  assumes dec_enc: "wf v \<Longrightarrow> dec (enc v) = Some v"
begin

lemma enc_inj: "wf v \<Longrightarrow> wf w \<Longrightarrow> enc v = enc w \<Longrightarrow> v = w"
  by (metis dec_enc option.inject)

lemma dec_defined: "wf v \<Longrightarrow> \<exists>w. dec (enc v) = Some w \<and> wf w"
  by (auto simp: dec_enc)

end

section \<open>Proofs of several facts\<close>

lemmas all2 = conjI

lemma all3: "A \<Longrightarrow> B \<Longrightarrow> C \<Longrightarrow> A \<and> B \<and> C" by blast

lemma all4: "A \<Longrightarrow> B \<Longrightarrow> C \<Longrightarrow> D \<Longrightarrow> A \<and> B \<and> C \<and> D" by blast

lemma all6: "A \<Longrightarrow> B \<Longrightarrow> C \<Longrightarrow> D \<Longrightarrow> F \<Longrightarrow> G \<Longrightarrow> A \<and> B \<and> C \<and> D \<and> F \<and> G" by blast

end
