(* ===== verification/Utilities.thy ===== *)
theory Utilities
  imports Prelude
begin

text \<open>
  The string helpers of \<open>src/utilities.c\<close>: \<open>trim\<close> and \<open>clearspace\<close>, which compact their
  argument in place, \<open>StrToLower\<close>, which normalises database keys, the checks of channel and
  nick names, and the mapping of verbosity to log levels.  \<open>trim\<close> and \<open>clearspace\<close> are written
  with the indices of the loops; the equations \<open>trim_eq\<close> and \<open>clearspace_eq\<close> relate them to
  recursive functions on the text, from which everything else is derived.
\<close>

section \<open>trim\<close>

text \<open>One iteration of the loop of \<open>trim\<close>: write index, flag \<open>bIsAlpha\<close>, buffer.\<close>

definition trim_step :: "nat \<Rightarrow> nat \<times> bool \<times> string \<Rightarrow> nat \<times> bool \<times> string" where
  "trim_step i = (\<lambda>(j, bIsAlpha, pStr).
     if pStr ! i = SP \<and> bIsAlpha then (j + 1, False, pStr[j := SP])
     else if pStr ! i \<noteq> NL \<and> pStr ! i \<noteq> CR \<and> pStr ! i \<noteq> SP \<and> pStr ! i \<noteq> TAB
       then (j + 1, True, pStr[j := pStr ! i])
     else (j, bIsAlpha, pStr))"

definition trim :: "string \<Rightarrow> string" where
  "trim pStr = (case fold trim_step [0..<length pStr] (0, False, pStr) of
     (j, bIsAlpha, buf) \<Rightarrow>
       (let j' = (if j > 0 \<and> buf ! (j - 1) = SP then j - 1 else j) in take j' buf))"

definition is_ws :: "char \<Rightarrow> bool" where
  "is_ws c \<longleftrightarrow> c = SP \<or> c = NL \<or> c = CR \<or> c = TAB"

text \<open>The same transformation with a separate output.\<close>

fun trim_out :: "bool \<Rightarrow> string \<Rightarrow> string" where
  "trim_out al [] = []"
| "trim_out al (c # cs) =
     (if c = SP \<and> al then SP # trim_out False cs
      else if \<not> is_ws c then c # trim_out True cs
      else trim_out al cs)"

definition drop_last_space :: "string \<Rightarrow> string" where
  "drop_last_space s = (if s \<noteq> [] \<and> last s = SP then butlast s else s)"

definition trim_transducer :: "bool transducer" where
  "trim_transducer al c =
     (if c = SP \<and> al then (False, Some SP)
      else if \<not> is_ws c then (True, Some c) else (al, None))"

lemma trim_step_inplace: "trim_step = inplace_step trim_transducer"
  by (auto simp: fun_eq_iff trim_step_def inplace_step_def trim_transducer_def is_ws_def)

lemma emitted_trim: "emitted trim_transducer al s = trim_out al s"
  by (induction s arbitrary: al) (auto simp: trim_transducer_def)

lemma trim_eq: "trim s = drop_last_space (trim_out False s)"
proof -
  obtain j al buf where r: "fold trim_step [0..<length s] (0, False, s) = (j, al, buf)"
    by (metis prod_cases3)
  from inplace_loop[of 0 0 s trim_transducer False j al buf] r
  have j: "j \<le> length s" "length buf = length s" "take j buf = trim_out False s"
    by (auto simp: trim_step_inplace emitted_trim)
  show ?thesis
  proof (cases "j = 0")
    case True
    with j r show ?thesis by (simp add: trim_def drop_last_space_def)
  next
    case False
    with j have "take j buf = take (j - 1) buf @ [buf ! (j - 1)]"
      by (metis Suc_pred' less_eq_Suc_le neq0_conv take_Suc_conv_app_nth)
    with j have "trim_out False s = take (j - 1) buf @ [buf ! (j - 1)]" by simp
    with False j r show ?thesis
      by (simp add: trim_def drop_last_space_def Let_def)
  qed
qed

text \<open>Trimmed text: single inner spaces only, no space at either end, no other white space.\<close>

fun single_spaced :: "bool \<Rightarrow> string \<Rightarrow> bool" where
  "single_spaced al [] = True"
| "single_spaced al (c # cs) =
     (if c = SP then al \<and> cs \<noteq> [] \<and> single_spaced False cs
      else \<not> is_ws c \<and> single_spaced True cs)"

definition trimmed :: "string \<Rightarrow> bool" where
  "trimmed s \<longleftrightarrow> single_spaced False s"

lemma is_ws_SP [simp]: "is_ws SP"
  by (simp add: is_ws_def)

lemma trim_out_False_hd: "trim_out False cs = [] \<or> \<not> is_ws (hd (trim_out False cs))"
  by (induction cs) (auto simp: is_ws_def)

lemma drop_last_space_Cons:
  "drop_last_space (x # t) = (if t = [] then (if x = SP then [] else [x]) else x # drop_last_space t)"
  by (auto simp: drop_last_space_def)

lemma drop_last_space_nonempty:
  "t \<noteq> [] \<Longrightarrow> \<not> is_ws (hd t) \<Longrightarrow> drop_last_space t \<noteq> []"
  by (cases t) (auto simp: drop_last_space_Cons is_ws_def)

lemma single_spaced_trim_out: "single_spaced al (drop_last_space (trim_out al s))"
proof (induction s arbitrary: al)
  case Nil
  then show ?case by (simp add: drop_last_space_def)
next
  case (Cons c cs)
  consider "c = SP" "al" | "\<not> is_ws c" | "is_ws c" "\<not> (c = SP \<and> al)" by blast
  then show ?case
  proof cases
    case 1
    show ?thesis
    proof (cases "trim_out False cs = []")
      case True
      with 1 show ?thesis by (simp add: drop_last_space_Cons)
    next
      case False
      then have "drop_last_space (trim_out False cs) \<noteq> []"
        using drop_last_space_nonempty trim_out_False_hd by blast
      with False 1 Cons.IH[of False] show ?thesis by (simp add: drop_last_space_Cons)
    qed
  next
    case 2
    then have "c \<noteq> SP" by (auto simp: is_ws_def)
    with 2 Cons.IH[of True] show ?thesis by (simp add: drop_last_space_Cons)
  next
    case 3
    then have "trim_out al (c # cs) = trim_out al cs" by auto
    with Cons.IH[of al] show ?thesis by simp
  qed
qed

lemma trimmed_trim [simp]: "trimmed (trim s)"
  by (simp add: trimmed_def trim_eq single_spaced_trim_out)

lemma trim_out_id: "single_spaced al s \<Longrightarrow> trim_out al s = s"
  by (induction s arbitrary: al) (auto split: if_splits)

lemma single_spaced_last: "single_spaced al s \<Longrightarrow> s \<noteq> [] \<Longrightarrow> last s \<noteq> SP"
  by (induction s arbitrary: al) (auto split: if_splits)

lemma trim_id: "trimmed s \<Longrightarrow> trim s = s"
  using single_spaced_last by (auto simp: trimmed_def trim_eq trim_out_id drop_last_space_def)

lemma trimmed_ws: "trimmed s \<Longrightarrow> c \<in> set s \<Longrightarrow> c = SP \<or> \<not> is_ws c"
proof -
  have "single_spaced al s \<Longrightarrow> c \<in> set s \<Longrightarrow> c = SP \<or> \<not> is_ws c" for al
    by (induction s arbitrary: al) (auto split: if_splits)
  then show "trimmed s \<Longrightarrow> c \<in> set s \<Longrightarrow> ?thesis" by (auto simp: trimmed_def)
qed

lemma trimmed_no_tab: "trimmed s \<Longrightarrow> TAB \<notin> set s"
  using trimmed_ws[of s TAB] by (auto simp: is_ws_def)

lemma trimmed_hd: "trimmed (c # s) \<Longrightarrow> c \<noteq> SP"
  by (auto simp: trimmed_def)

lemma drop_last_space_filter:
  "filter (\<lambda>c. \<not> is_ws c) (drop_last_space s) = filter (\<lambda>c. \<not> is_ws c) s"
  by (induction s) (auto simp: drop_last_space_Cons, simp add: drop_last_space_def)

lemma trim_filter: "filter (\<lambda>c. \<not> is_ws c) (trim s) = filter (\<lambda>c. \<not> is_ws c) s"
proof -
  have "filter (\<lambda>c. \<not> is_ws c) (trim_out al s) = filter (\<lambda>c. \<not> is_ws c) s" for al
    by (induction s arbitrary: al) (auto simp: is_ws_def)
  then show ?thesis by (simp add: trim_eq drop_last_space_filter)
qed

lemma trim_empty_iff: "trim s = [] \<longleftrightarrow> (\<forall>c \<in> set s. is_ws c)"
proof
  assume "trim s = []"
  then have "filter (\<lambda>c. \<not> is_ws c) s = []" using trim_filter[of s] by simp
  then show "\<forall>c \<in> set s. is_ws c" by (simp add: filter_empty_conv)
next
  have "\<forall>c \<in> set s. is_ws c \<Longrightarrow> trim_out False s = []" by (induction s) auto
  then show "\<forall>c \<in> set s. is_ws c \<Longrightarrow> trim s = []" by (simp add: trim_eq drop_last_space_def)
qed

lemma trim_length: "length (trim s) \<le> length s"
proof -
  have "length (trim_out al s) \<le> length s" for al
    by (induction s arbitrary: al) (auto intro: le_SucI)
  from this[of False] show ?thesis by (auto simp: trim_eq drop_last_space_def)
qed

lemma trim_set: "set (trim s) \<subseteq> set s"
proof -
  have "set (trim_out al s) \<subseteq> set s" for al
    by (induction s arbitrary: al) auto
  then show ?thesis by (auto simp: trim_eq drop_last_space_def dest: in_set_butlastD)
qed

interpretation trimming: normal_form trim trimmed
  by unfold_locales (simp_all add: trim_id)

section \<open>clearspace\<close>

text \<open>
  The loop runs up to and including the terminating null byte, which is never a space or a quote
  and so is always copied: the text left in the buffer is what was written before it.
\<close>

definition clearspace_step :: "nat \<Rightarrow> nat \<times> bool \<times> string \<Rightarrow> nat \<times> bool \<times> string" where
  "clearspace_step i = (\<lambda>(j, noclr, pStr).
     if pStr ! i \<noteq> SP \<or> noclr then
       (if pStr ! i = DQ \<and> \<not> noclr then (j, True, pStr)
        else if pStr ! i = DQ \<and> noclr then (j, False, pStr)
        else (j + 1, noclr, pStr[j := pStr ! i]))
     else (j, noclr, pStr))"

definition clearspace :: "string \<Rightarrow> string" where
  "clearspace pStr = (case fold clearspace_step [0..<length pStr] (0, False, pStr) of
     (j, noclr, buf) \<Rightarrow> take j buf)"

fun clearspace_out :: "bool \<Rightarrow> string \<Rightarrow> string" where
  "clearspace_out noclr [] = []"
| "clearspace_out noclr (c # cs) =
     (if c = DQ then clearspace_out (\<not> noclr) cs
      else if c = SP \<and> \<not> noclr then clearspace_out noclr cs
      else c # clearspace_out noclr cs)"

definition clearspace_transducer :: "bool transducer" where
  "clearspace_transducer noclr c =
     (if c = DQ then (\<not> noclr, None)
      else if c = SP \<and> \<not> noclr then (noclr, None) else (noclr, Some c))"

lemma clearspace_step_inplace: "clearspace_step = inplace_step clearspace_transducer"
  by (auto simp: fun_eq_iff clearspace_step_def inplace_step_def clearspace_transducer_def)

lemma emitted_clearspace: "emitted clearspace_transducer b s = clearspace_out b s"
  by (induction s arbitrary: b) (auto simp: clearspace_transducer_def)

lemma clearspace_eq: "clearspace s = clearspace_out False s"
proof -
  obtain j b buf where r: "fold clearspace_step [0..<length s] (0, False, s) = (j, b, buf)"
    by (metis prod_cases3)
  from inplace_loop[of 0 0 s clearspace_transducer False j b buf] r show ?thesis
    by (auto simp: clearspace_def clearspace_step_inplace emitted_clearspace)
qed

lemma clearspace_no_quote: "DQ \<notin> set s \<Longrightarrow> clearspace s = filter (\<lambda>c. c \<noteq> SP) s"
  unfolding clearspace_eq by (induction s) auto

lemma clearspace_length: "length (clearspace s) \<le> length s"
proof -
  have "length (clearspace_out b s) \<le> length s" for b
    by (induction s arbitrary: b) (auto intro: le_SucI)
  then show ?thesis by (simp add: clearspace_eq)
qed

section \<open>StrToLower\<close>

definition StrToLower :: "string \<Rightarrow> string" where
  "StrToLower pStr = map (\<lambda>c. if isalpha_c c then tolower_c c else c) pStr"

definition lowercase :: "string \<Rightarrow> bool" where
  "lowercase s \<longleftrightarrow> (\<forall>c \<in> set s. \<not> isupper_c c)"

lemma StrToLower_eq: "StrToLower s = map tolower_c s"
  by (auto simp: StrToLower_def tolower_c_def isalpha_c_def)

lemma lowercase_StrToLower [simp]: "lowercase (StrToLower s)"
  by (auto simp: lowercase_def StrToLower_eq)

lemma StrToLower_id: "lowercase s \<Longrightarrow> StrToLower s = s"
  by (auto simp: lowercase_def StrToLower_eq tolower_not_upper map_idI)

interpretation lowering: normal_form StrToLower lowercase
  by unfold_locales (simp_all add: StrToLower_id)

lemmas StrToLower_idem [simp] = lowering.norm_idem

lemma StrToLower_append [simp]: "StrToLower (a @ b) = StrToLower a @ StrToLower b"
  by (simp add: StrToLower_eq)

lemma StrToLower_length [simp]: "length (StrToLower s) = length s"
  by (simp add: StrToLower_eq)

lemma StrToLower_empty_iff [simp]: "StrToLower s = [] \<longleftrightarrow> s = []"
  by (simp add: StrToLower_eq)

lemma strcasecmp_StrToLower: "strcasecmp_eq a b \<longleftrightarrow> StrToLower a = StrToLower b"
  by (simp add: strcasecmp_eq_def StrToLower_eq)

lemma StrToLower_in_set:
  "\<not> isalpha_c d \<Longrightarrow> d \<in> set (StrToLower s) \<longleftrightarrow> d \<in> set s"
proof -
  assume d: "\<not> isalpha_c d"
  have "d \<in> set (StrToLower s) \<longleftrightarrow> (\<exists>x \<in> set s. tolower_c x = d)"
    by (auto simp: StrToLower_eq)
  with d show ?thesis by (simp add: tolower_eq_nonalpha)
qed

section \<open>Checks of names\<close>

definition COMMON_NOT_ALLOW_CHAR :: string where
  "COMMON_NOT_ALLOW_CHAR = [TAB, CR, NL, CHR '','', SP, CHR 0x07]"

definition USER_ALLOW_CHAR :: string where
  "USER_ALLOW_CHAR = [CHR ''-'', CHR ''['', CHR '']'', CHR 0x5C, CHR ''^'', CHR ''{'', CHR ''}'',
     CHR ''|'', CHR ''_'', CHR 0x60]"

definition CommonStringCheck :: "string \<Rightarrow> bool" where
  "CommonStringCheck m = (if strpbrk m COMMON_NOT_ALLOW_CHAR then False else True)"

definition ChannelStringCheck :: "string option \<Rightarrow> bool" where
  "ChannelStringCheck pStr = (case pStr of
       Some s \<Rightarrow> CommonStringCheck s \<and>
                 (case s of [] \<Rightarrow> False | c # _ \<Rightarrow> c = CHR ''#'' \<or> c = CHR ''&'')
     | None \<Rightarrow> False)"

definition NickStringCheck :: "string option \<Rightarrow> bool" where
  "NickStringCheck pStr = (case pStr of
       Some s \<Rightarrow> CommonStringCheck s \<and>
                 list_all (\<lambda>c. isalnum_c c \<or> c \<in> set USER_ALLOW_CHAR) s
     | None \<Rightarrow> False)"

lemma NickStringCheck_chars:
  "NickStringCheck (Some s) \<Longrightarrow> c \<in> set s \<Longrightarrow> isalnum_c c \<or> c \<in> set USER_ALLOW_CHAR"
  by (auto simp: NickStringCheck_def list_all_iff)

lemma nick_char_excludes:
  "c \<in> {CHR ''#'', CHR ''&'', CHR ''!'', CHR ''@'', CHR '':'', CHR ''%'', SP, TAB, CR, NL} \<Longrightarrow>
     \<not> (isalnum_c c \<or> c \<in> set USER_ALLOW_CHAR)"
  by (elim insertE emptyE)
     (simp_all add: isalnum_c_def isalpha_c_def isupper_c_def islower_c_def isdigit_c_def
        USER_ALLOW_CHAR_def)

lemma NickStringCheck_excludes:
  assumes "NickStringCheck (Some s)"
  shows "CHR ''#'' \<notin> set s" "CHR ''!'' \<notin> set s" "CHR ''@'' \<notin> set s" "SP \<notin> set s"
    "CHR ''%'' \<notin> set s" "TAB \<notin> set s" "CHR '':'' \<notin> set s"
  using NickStringCheck_chars[OF assms] nick_char_excludes by blast+

lemma NickStringCheck_lower: "NickStringCheck (Some (StrToLower s)) \<longleftrightarrow> NickStringCheck (Some s)"
proof -
  have up: "isalnum_c (tolower_c c) = isalnum_c c" for c
  proof -
    have "isdigit_c (tolower_c c) = isdigit_c c"
      by (auto simp: tolower_c_def isupper_c_def isdigit_c_def of_char_of take_bit_eq_mod)
    then show ?thesis by (simp add: isalnum_c_def)
  qed
  have closed: "list_all (\<lambda>d. \<not> isalpha_c d) L \<Longrightarrow> tolower_c c \<in> set L \<longleftrightarrow> c \<in> set L" for c L
    by (metis list_all_iff tolower_eq_nonalpha)
  have special: "tolower_c c \<in> set USER_ALLOW_CHAR \<longleftrightarrow> c \<in> set USER_ALLOW_CHAR" for c
    by (rule closed) (simp add: USER_ALLOW_CHAR_def isalpha_c_def isupper_c_def islower_c_def)
  have "tolower_c c \<in> set COMMON_NOT_ALLOW_CHAR \<longleftrightarrow> c \<in> set COMMON_NOT_ALLOW_CHAR" for c
    by (rule closed) (simp add: COMMON_NOT_ALLOW_CHAR_def isalpha_c_def isupper_c_def islower_c_def)
  with up special show ?thesis
    by (auto simp: NickStringCheck_def CommonStringCheck_def strpbrk_def list_ex_iff list_all_iff
        StrToLower_eq)
qed

section \<open>Log levels\<close>

definition convertVerboseToLogLevel :: "int \<Rightarrow> int" where
  "convertVerboseToLogLevel nVerbose =
     (if nVerbose = 0 then 3 else if nVerbose = 1 then 5 else if nVerbose = 2 then 6 else 7)"

text \<open>
  Where \<open>logger\<close> writes a message; \<open>debug\<close> and \<open>syslog\<close> are the build without \<open>NDEBUG\<close> and the one with \<open>HAVE_SYSLOG\<close>.  The flag
  \<open>bHideLogOnScreen\<close> is the result of \<open>HideLogLinesOnScreen\<close> once the bot is a daemon.
\<close>

datatype log_target = Dropped | Screen | Syslog

definition HideLogLinesOnScreen :: "bool \<Rightarrow> bool" where
  "HideLogLinesOnScreen bHideLogOnScreen = True"

definition logger :: "bool \<Rightarrow> bool \<Rightarrow> bool \<Rightarrow> int \<Rightarrow> int \<Rightarrow> log_target" where
  "logger debug syslog bHideLogOnScreen nLogLevel priority =
     (if priority > nLogLevel then Dropped
      else if debug then Screen
      else if \<not> bHideLogOnScreen then Screen
      else if syslog then Syslog
      else Dropped)"

text \<open>A message that is written at a verbosity is written to the same place at every higher one, and a daemon writes nothing to its
  screen.\<close>

lemma logger_verbosity:
  "0 \<le> v \<Longrightarrow> v \<le> v' \<Longrightarrow> logger debug syslog h (convertVerboseToLogLevel v) priority \<noteq> Dropped \<Longrightarrow>
    logger debug syslog h (convertVerboseToLogLevel v') priority = logger debug syslog h (convertVerboseToLogLevel v) priority"
  "logger False syslog (HideLogLinesOnScreen h) n priority \<noteq> Screen"
  by (auto simp: logger_def convertVerboseToLogLevel_def HideLogLinesOnScreen_def split: if_splits)

section \<open>Properties\<close>

text \<open>C38: \<open>trim\<close> compacts the text in place and never reads what it has already overwritten: its result is
  the text with each run of spaces reduced to one, every other white space removed and no space
  at either end; it keeps all other characters, is idempotent and never lengthens the text.\<close>

theorem trim_compacts:
  "trim s = drop_last_space (trim_out False s) \<and> trimmed (trim s) \<and> trim (trim s) = trim s
   \<and> filter (\<lambda>c. \<not> is_ws c) (trim s) = filter (\<lambda>c. \<not> is_ws c) s \<and> length (trim s) \<le> length s"
  by (simp add: trim_eq[symmetric] trim_id trim_filter trim_length)

text \<open>A channel and a nick name that the checks accept can never be confused: no accepted nick name contains
  a character that separates the parts of an IRC line or starts a channel name, no accepted
  channel name contains a space or a line end, and the checks ignore case.\<close>

lemma names_separate:
  shows "(NickStringCheck (Some s) \<longrightarrow>
      set s \<inter> {CHR ''#'', CHR ''&'', CHR ''!'', CHR ''@'', CHR '':'', CHR ''%'', SP, TAB, CR, NL} = {})
    \<and> (NickStringCheck (Some s) \<longrightarrow> \<not> ChannelStringCheck (Some s))
    \<and> (ChannelStringCheck (Some s) \<longrightarrow> s \<noteq> [] \<and> set s \<inter> {SP, TAB, CR, NL, CHR '',''} = {})
    \<and> (NickStringCheck (Some (StrToLower s)) = NickStringCheck (Some s))"
proof (rule all4; (intro impI)?)
  show n: "set s \<inter> {CHR ''#'', CHR ''&'', CHR ''!'', CHR ''@'', CHR '':'', CHR ''%'', SP, TAB, CR, NL} = {}"
    if "NickStringCheck (Some s)"
    using NickStringCheck_chars[OF that] nick_char_excludes by blast
  show "\<not> ChannelStringCheck (Some s)" if "NickStringCheck (Some s)"
    using n[OF that] by (cases s) (auto simp: ChannelStringCheck_def)
  show "s \<noteq> [] \<and> set s \<inter> {SP, TAB, CR, NL, CHR '',''} = {}" if a: "ChannelStringCheck (Some s)"
  proof
    show "s \<noteq> []" using a by (auto simp: ChannelStringCheck_def)
    have "set s \<inter> set COMMON_NOT_ALLOW_CHAR = {}"
      using a by (auto simp: ChannelStringCheck_def CommonStringCheck_def strpbrk_def list_ex_iff split: if_splits)
    moreover have "{SP, TAB, CR, NL, CHR '',''} \<subseteq> set COMMON_NOT_ALLOW_CHAR"
      unfolding COMMON_NOT_ALLOW_CHAR_def by simp
    ultimately show "set s \<inter> {SP, TAB, CR, NL, CHR '',''} = {}" by fast
  qed
  show "NickStringCheck (Some (StrToLower s)) = NickStringCheck (Some s)" by (rule NickStringCheck_lower)
qed

end
