(* ===== verification/Extract.thy ===== *)
theory Extract
  imports Utilities
begin

text \<open>
  The extraction functions of \<open>src/extract.c\<close>: the parts of a line received from the IRC server
  (netmask, nick name, preamble, argument, channel, parameters) and the fields of a channel
  record of the database.  Each definition follows the C function; a null pointer is \<open>None\<close>.
  \<open>getArgument\<close> and \<open>getAccessChannel\<close> also write to the buffer they read; what they leave there
  is \<open>getArgument_buf\<close> and \<open>getAccessChannel_buf\<close>.
\<close>

section \<open>Parts of a server line\<close>

text \<open>
  On the empty string \<open>getNetmask\<close> passes \<open>&pStr[1]\<close>, one past the terminator, to \<open>strtok\<close>; its
  callers only pass lines that start with a nick name or a colon.
\<close>

definition getNetmask :: "string option \<Rightarrow> string option" where
  "getNetmask pLine = (case pLine of
       None \<Rightarrow> None
     | Some [] \<Rightarrow> None
     | Some (c # cs) \<Rightarrow>
         (let pStr = c # strtok_cut SP cs in
          if strchr pStr (CHR ''!'') \<noteq> None \<or> strchr pStr (CHR ''@'') \<noteq> None then
            (if c = CHR '':'' then Some (tl pStr) else Some pStr)
          else None))"

definition getNickname :: "string option \<Rightarrow> string option" where
  "getNickname pLine = (case getNetmask pLine of
       None \<Rightarrow> None
     | Some pStr \<Rightarrow>
         (case strtok_tok (CHR ''!'') pStr of
            None \<Rightarrow> None
          | Some _ \<Rightarrow>
              (let buf = strtok_cut (CHR ''!'') pStr in
               if NickStringCheck (Some buf) then Some buf else None)))"

definition getCommand :: "string option \<Rightarrow> string option" where
  "getCommand pLine = (case pLine of
       None \<Rightarrow> Some []
     | Some [] \<Rightarrow> None
     | Some (c # cs) \<Rightarrow>
         (if c = CHR '':'' then Some (c # strtok_cut (CHR '':'') cs) else None))"

text \<open>
  The loop of \<open>getArgument\<close> over the text after \<open>" :!"\<close>: at every space it trims the rest in
  place and stops when something is left.  The second component is what the buffer then holds.
\<close>

fun arg_scan :: "string \<Rightarrow> string option \<times> string" where
  "arg_scan [] = (None, [])"
| "arg_scan (c # cs) =
     (if c = SP then
        (let pPos = trim cs in
         if pPos \<noteq> [] then (Some pPos, SP # pPos) else (fst (arg_scan cs), [SP]))
      else (let r = arg_scan cs in (fst r, c # snd r)))"

definition getArgument :: "string option \<Rightarrow> string option" where
  "getArgument pLine = (case pLine of
       None \<Rightarrow> None
     | Some line \<Rightarrow>
         (case strstr line '' :!'' of
            None \<Rightarrow> None
          | Some pStr \<Rightarrow> fst (arg_scan (drop 3 pStr))))"

definition getArgument_buf :: "string \<Rightarrow> string" where
  "getArgument_buf line = (case strstr line '' :!'' of
       None \<Rightarrow> line
     | Some pStr \<Rightarrow>
         take (length line - length pStr) line @ '' :!'' @ snd (arg_scan (drop 3 pStr)))"

definition getChannel :: "string option \<Rightarrow> string option" where
  "getChannel pLine = (if pLine = None then None else
     (case getCommand pLine of
        None \<Rightarrow> None
      | Some pPreamble \<Rightarrow>
          (case strchr pPreamble (CHR ''#'') of
             None \<Rightarrow> None
           | Some pPos \<Rightarrow> Some (strtok_cut SP pPos))))"

definition getAccessChannel :: "string option \<Rightarrow> string option" where
  "getAccessChannel pLine = (case pLine of
       None \<Rightarrow> None
     | Some line \<Rightarrow>
         (let pParameter = getArgument pLine; line' = getArgument_buf line;
              bFoundInPreamble = (case pParameter of None \<Rightarrow> True | Some p \<Rightarrow> \<not> starts_with p ''#'')
          in if bFoundInPreamble then
               (case getChannel (Some line') of
                  Some c \<Rightarrow> Some c
                | None \<Rightarrow>
                    (case strstr line' '' :#'' of
                       Some pPos \<Rightarrow> Some (strtok_cut SP (drop 2 pPos))
                     | None \<Rightarrow> None))
             else
               (let p = strtok_cut SP (the pParameter) in
                if ChannelStringCheck (Some p) then Some p else None)))"

definition getAccessChannel_buf :: "string \<Rightarrow> string" where
  "getAccessChannel_buf line =
     (let pParameter = getArgument (Some line); line' = getArgument_buf line;
          bFoundInPreamble = (case pParameter of None \<Rightarrow> True | Some p \<Rightarrow> \<not> starts_with p ''#'')
      in if bFoundInPreamble \<and> getChannel (Some line') = None then
           (case strstr line' '' :#'' of
              Some pPos \<Rightarrow>
                take (length line' - length pPos) line' @ '' :'' @ strtok_cut SP (drop 2 pPos)
            | None \<Rightarrow> line')
         else line')"

definition getParameters :: "string option \<Rightarrow> string option" where
  "getParameters pLine = (case getArgument pLine of
       None \<Rightarrow> None
     | Some pArg \<Rightarrow>
         (if \<not> starts_with pArg ''#'' then Some pArg
          else (case strchr pArg SP of
                  Some pPos \<Rightarrow> Some (drop 1 pPos)
                | None \<Rightarrow> None)))"

text \<open>
  \<open>getFirstPart(pLine, pRest)\<close>: the result, and the new value of \<open>*pRest\<close> as a function of the
  old one.  Without a space in the line \<open>*pRest\<close> keeps its old value.
\<close>

definition getFirstPart :: "string option \<Rightarrow> string option" where
  "getFirstPart pLine = (case pLine of
       None \<Rightarrow> None
     | Some s \<Rightarrow> Some (takeWhile (\<lambda>c. c \<noteq> SP) s))"

definition getRest :: "string option \<Rightarrow> string option \<Rightarrow> string option" where
  "getRest pLine pRest = (case pLine of
       None \<Rightarrow> None
     | Some s \<Rightarrow>
         (case strchr s SP of
            None \<Rightarrow> pRest
          | Some pPos \<Rightarrow> (if drop 1 pPos \<noteq> [] then Some (drop 1 pPos) else None)))"

text \<open>
  \<open>getBanmask\<close> works in a buffer of \<open>strlen(pChar) + 3\<close> bytes, where \<open>pChar\<close> is the netmask from
  its first \<open>!\<close> on, and copies the intermediate text back over the netmask, whose buffer
  \<open>getNetmask\<close> allocated with one spare byte when it dropped a leading colon.  The outer \<open>None\<close> is
  a null pointer passed to \<open>strlen\<close> or indexed, or a write past the end of one of the two buffers.
\<close>

definition getBanmask :: "string option \<Rightarrow> string option c_result" where
  "getBanmask pLine = (case getNetmask pLine of
       None \<Rightarrow> Some None
     | Some pStr \<Rightarrow> do {
         pChar \<leftarrow> strchr pStr (CHR ''!'');
         let size = length pChar + 3;
         let pBanmask = ''*'' @ pChar;
         let room = length pStr + (if starts_with (the pLine) '':'' then 2 else 1);
         _ \<leftarrow> (if length pBanmask + 1 \<le> room then Some () else None);
         pAt \<leftarrow> strchr pBanmask (CHR ''@'');
         let pCut = take (length pBanmask - length pAt) pBanmask @ ''@*'';
         (case strchr pBanmask (CHR ''.'') of
            None \<Rightarrow> Some (Some pCut)
          | Some pDot \<Rightarrow>
              (if length pCut + length pDot + 1 \<le> size then Some (Some (pCut @ pDot)) else None))
       })"

datatype AnswerMode_t = NoticeMode | PrvMsgMode

definition getAnswerMode :: "string \<Rightarrow> AnswerMode_t" where
  "getAnswerMode pLine = (case getChannel (Some pLine) of None \<Rightarrow> PrvMsgMode | Some _ \<Rightarrow> NoticeMode)"

section \<open>Fields of a channel record\<close>

definition getTopic :: "string option \<Rightarrow> string option" where
  "getTopic pChannelSet = (case pChannelSet of
       None \<Rightarrow> None
     | Some pStr \<Rightarrow>
         (case strchr pStr TAB of
            None \<Rightarrow> None
          | Some p \<Rightarrow>
              (let pPos = drop 1 p in
               case strchr pPos TAB of
                 None \<Rightarrow> None
               | Some _ \<Rightarrow>
                   (let t = takeWhile (\<lambda>c. c \<noteq> TAB) pPos in if t \<noteq> [] then Some t else None))))"

definition getGreeting :: "string option \<Rightarrow> string option" where
  "getGreeting pChannelSet = (case pChannelSet of
       None \<Rightarrow> Some []
     | Some pStr \<Rightarrow>
         (case strrchr pStr TAB of
            None \<Rightarrow> None
          | Some p \<Rightarrow> (if drop 1 p \<noteq> [] then Some (drop 1 p) else None)))"

definition getChannelMode :: "string option \<Rightarrow> string" where
  "getChannelMode pChannelSet = (case pChannelSet of
       None \<Rightarrow> []
     | Some pStr \<Rightarrow>
         (case strchr pStr TAB of None \<Rightarrow> [] | Some _ \<Rightarrow> takeWhile (\<lambda>c. c \<noteq> TAB) pStr))"

section \<open>The argument of a bot command\<close>

lemma trim_suffix_empty: "trim (a @ b) = [] \<Longrightarrow> trim b = []"
  by (simp add: trim_empty_iff)

lemma arg_scan_blank: "trim s = [] \<Longrightarrow> fst (arg_scan s) = None"
proof (induction s)
  case (Cons c cs)
  then have "trim cs = []" using trim_suffix_empty[of "[c]" cs] by simp
  with Cons.IH show ?case by simp
qed simp

lemma arg_scan_trimmed: "fst (arg_scan s) = Some a \<Longrightarrow> trimmed a \<and> a \<noteq> []"
  by (induction s) (auto simp: Let_def arg_scan_blank split: if_splits)

lemma arg_scan_first:
  assumes "SP \<notin> set w"
  shows "fst (arg_scan (w @ SP # r)) = (if trim r = [] then None else Some (trim r))"
  using assms by (induction w) (auto simp: Let_def arg_scan_blank)

lemma arg_scan_none: "SP \<notin> set w \<Longrightarrow> arg_scan w = (None, w)"
  by (induction w) (auto simp: Let_def)

lemma arg_scan_idem: "arg_scan (snd (arg_scan s)) = (fst (arg_scan s), snd (arg_scan s))"
proof (induction s)
  case (Cons c cs)
  have "trim (trim cs) = trim cs" by (simp add: trim_id)
  moreover have "trim [] = []" by (simp add: trim_empty_iff)
  ultimately show ?case using Cons.IH
    by (auto simp: Let_def arg_scan_blank split: if_splits)
qed simp

lemma getArgument_trimmed: "getArgument pLine = Some a \<Longrightarrow> trimmed a \<and> a \<noteq> []"
  by (auto simp: getArgument_def arg_scan_trimmed split: option.splits)

lemma trimmed_after_space:
  assumes "trimmed s" "strchr s SP = Some p"
  shows "trimmed (drop 1 p) \<and> drop 1 p \<noteq> []"
proof -
  obtain pre post where s: "s = pre @ SP # post" "p = SP # post" "SP \<notin> set pre"
    using strchr_Some[OF assms(2)] by blast
  have "single_spaced al (pre @ SP # post) \<Longrightarrow> post \<noteq> [] \<and> single_spaced False post" for al
    using s(3) by (induction pre arbitrary: al) (auto split: if_splits)
  with assms(1) s show ?thesis by (auto simp: trimmed_def)
qed

lemma getParameters_trimmed: "getParameters pLine = Some a \<Longrightarrow> trimmed a \<and> a \<noteq> []"
  by (auto simp: getParameters_def getArgument_trimmed dest: trimmed_after_space
      split: option.splits if_splits dest!: getArgument_trimmed)

lemma getParameters_no_tab: "getParameters pLine = Some a \<Longrightarrow> TAB \<notin> set a"
  using getParameters_trimmed trimmed_no_tab by blast

section \<open>Channels\<close>

lemma getChannel_shape: "getChannel pLine = Some c \<Longrightarrow> starts_with c ''#'' \<and> SP \<notin> set c"
  by (auto simp: getChannel_def strtok_cut_simple split: option.splits if_splits dest!: strchr_Some)

text \<open>
  Whatever line the server sends, an access channel starts with \<open>#\<close> and contains no space.
\<close>

lemma getAccessChannel_shape:
  assumes "getAccessChannel pLine = Some c"
  shows "starts_with c ''#'' \<and> SP \<notin> set c"
proof -
  obtain line where l: "pLine = Some line" using assms by (auto simp: getAccessChannel_def split: option.splits)
  let ?line' = "getArgument_buf line"
  have hash: "strtok_cut SP (CHR ''#'' # r) = CHR ''#'' # takeWhile (\<lambda>x. x \<noteq> SP) r" for r
    by (simp add: strtok_cut_simple)
  show ?thesis
  proof (cases "case getArgument (Some line) of None \<Rightarrow> True | Some p \<Rightarrow> \<not> starts_with p ''#''")
    case True
    show ?thesis
    proof (cases "getChannel (Some ?line')")
      case None
      with assms True l obtain p where p: "strstr ?line' '' :#'' = Some p" "c = strtok_cut SP (drop 2 p)"
        by (auto simp: getAccessChannel_def Let_def split: option.splits)
      from strstr_Some_prefix[OF p(1)] obtain r where "p = '' :#'' @ r" by (auto simp: starts_with_iff)
      with p(2) show ?thesis by (simp add: hash)
    next
      case (Some d)
      with assms True l have "c = d" by (simp add: getAccessChannel_def Let_def)
      with Some show ?thesis using getChannel_shape by blast
    qed
  next
    case False
    then obtain p where p: "getArgument (Some line) = Some p" "starts_with p ''#''"
      by (auto split: option.splits)
    then obtain r where "p = CHR ''#'' # r" by (auto simp: starts_with_iff)
    moreover from assms p l have "c = strtok_cut SP p"
      by (auto simp: getAccessChannel_def Let_def split: if_splits)
    ultimately show ?thesis by (simp add: hash)
  qed
qed

section \<open>Lines sent by a user\<close>

text \<open>
  The lines the bot serves have the form \<open>":nick!user@host VERB target :text"\<close>.  For a nick and a
  host without space, colon or exclamation mark the extractors find the parts.
\<close>

definition user_line :: "string \<Rightarrow> string \<Rightarrow> string \<Rightarrow> string \<Rightarrow> string" where
  "user_line nick userhost middle text =
     '':'' @ nick @ ''!'' @ userhost @ '' '' @ middle @ '' :'' @ text"

lemma getNetmask_user_line:
  assumes "SP \<notin> set nick" "SP \<notin> set uh"
  shows "getNetmask (Some ('':'' @ nick @ ''!'' @ uh @ '' '' @ rest)) = Some (nick @ ''!'' @ uh)"
proof -
  have "SP \<notin> set (nick @ ''!'' @ uh)" using assms by simp
  moreover have "nick @ ''!'' @ uh = [] \<or> hd (nick @ ''!'' @ uh) \<noteq> SP"
    using assms by (cases nick) auto
  ultimately have "strtok_cut SP ((nick @ ''!'' @ uh) @ SP # rest) = nick @ ''!'' @ uh"
    by (subst strtok_cut_simple) (auto simp: takeWhile_upto hd_append simp del: append_assoc)
  then show ?thesis by (auto simp: getNetmask_def strchr_None)
qed

lemma getNickname_netmask:
  assumes "NickStringCheck (Some nick)" "nick \<noteq> []" "getNetmask l = Some (nick @ ''!'' @ uh)"
  shows "getNickname l = Some nick"
proof -
  have ex: "CHR ''!'' \<notin> set nick" using NickStringCheck_excludes[OF assms(1)] by blast
  then have hd: "hd (nick @ CHR ''!'' # uh) \<noteq> CHR ''!''" using assms(2) by (cases nick) auto
  then have tok: "strtok_tok (CHR ''!'') (nick @ ''!'' @ uh) = Some nick"
    using assms(2) ex
    by (simp add: strtok_tok_def takeWhile_upto dropWhile_hd[of "nick @ CHR ''!'' # uh"] Let_def)
  have cut: "strtok_cut (CHR ''!'') (nick @ ''!'' @ uh) = nick"
    using hd ex by (simp add: strtok_cut_simple takeWhile_upto)
  show ?thesis using assms tok cut by (simp add: getNickname_def Let_def)
qed

lemma getNickname_check: "getNickname pLine = Some n \<Longrightarrow> NickStringCheck (Some n) \<and> n \<noteq> []"
proof -
  assume a: "getNickname pLine = Some n"
  then obtain m t where m: "getNetmask pLine = Some m" "strtok_tok (CHR ''!'') m = Some t"
      "n = strtok_cut (CHR ''!'') m" "NickStringCheck (Some n)"
    by (auto simp: getNickname_def Let_def split: option.splits if_splits)
  have "n \<noteq> []"
  proof
    assume "n = []"
    with m(3) have "takeWhile (\<lambda>x. x = CHR ''!'') m = []"
      "takeWhile (\<lambda>x. x \<noteq> CHR ''!'') (dropWhile (\<lambda>x. x = CHR ''!'') m) = []"
      by (auto simp: strtok_cut_def)
    then have "m = []" by (cases m) (auto split: if_splits)
    with m(2) show False by (simp add: strtok_tok_def)
  qed
  with m(4) show ?thesis by simp
qed

lemma getCommand_user_line:
  assumes "CHR '':'' \<notin> set pre" "pre \<noteq> []"
  shows "getCommand (Some ('':'' @ pre @ '':'' @ text)) = Some ('':'' @ pre)"
proof -
  have "hd (pre @ CHR '':'' # text) \<noteq> CHR '':''" using assms by (cases pre) auto
  then have "strtok_cut (CHR '':'') (pre @ CHR '':'' # text) = pre"
    using assms(1) by (simp add: strtok_cut_simple takeWhile_upto)
  then show ?thesis by (simp add: getCommand_def)
qed

lemma getFirstPart_Some [simp]: "getFirstPart (Some s) = Some (takeWhile (\<lambda>c. c \<noteq> SP) s)"
  by (simp add: getFirstPart_def)

lemma getFirstPart_None_iff [simp]: "getFirstPart l = None \<longleftrightarrow> l = None"
  by (auto simp: getFirstPart_def split: option.splits)

text \<open>Splitting a line of two or more words and joining the parts again is the identity.\<close>

lemma getFirstPart_join:
  assumes "SP \<notin> set w"
  shows "getFirstPart (Some (w @ SP # r)) = Some w"
    and "getRest (Some (w @ SP # r)) old = (if r = [] then None else Some r)"
  using assms by (auto simp: getFirstPart_def getRest_def takeWhile_upto strchr_append)

section \<open>Requests of users\<close>


text \<open>A request: a bot command that a user sends to a channel, with whatever stands behind the command; and one
  with arguments.\<close>

definition asked :: "string \<Rightarrow> string \<Rightarrow> string \<Rightarrow> string \<Rightarrow> string \<Rightarrow> string" where
  "asked nick uh chan cmd tail = user_line nick uh (''PRIVMSG '' @ chan) (''!'' @ cmd @ tail)"

definition request :: "string \<Rightarrow> string \<Rightarrow> string \<Rightarrow> string \<Rightarrow> string \<Rightarrow> string" where
  "request nick uh chan cmd args = asked nick uh chan cmd (SP # args)"

lemma strstr_separator:
  assumes "CHR '':'' \<notin> set pre" "starts_with b '' :!''"
  shows "strstr (pre @ b) '' :!'' = Some b"
  using assms(1)
proof (induction pre)
  case Nil
  then show ?case using assms(2) by (simp add: strstr_self)
next
  case (Cons c cs)
  have "\<not> starts_with ((c # cs) @ b) '' :!''"
  proof (cases cs)
    case Nil
    with assms(2) show ?thesis by (cases b) auto
  next
    case (Cons d ds)
    with Cons.prems show ?thesis by auto
  qed
  with Cons show ?case by simp
qed

text \<open>The nick name, the user and host, and the channel of a request.\<close>

definition request_ok :: "string \<Rightarrow> string \<Rightarrow> string \<Rightarrow> string \<Rightarrow> bool" where
  "request_ok nick uh chan cmd \<longleftrightarrow> NickStringCheck (Some nick) \<and> nick \<noteq> []
     \<and> SP \<notin> set uh \<and> CHR '':'' \<notin> set uh \<and> CHR ''#'' \<notin> set uh
     \<and> starts_with chan ''#'' \<and> SP \<notin> set chan \<and> CHR '':'' \<notin> set chan \<and> SP \<notin> set cmd"

lemma asked_text:
  assumes "request_ok nick uh chan cmd"
  shows "strstr (asked nick uh chan cmd tail) '' :!'' = Some ('' :!'' @ cmd @ tail)"
    and "\<exists>pre. \<forall>a. asked nick uh chan cmd a = pre @ '' :!'' @ cmd @ a"
proof -
  define pre where "pre = nick @ ''!'' @ uh @ '' PRIVMSG '' @ chan"
  have l: "asked nick uh chan cmd a = (CHR '':'' # pre) @ '' :!'' @ cmd @ a" for a
    by (simp add: asked_def user_line_def pre_def)
  then show "\<exists>pre. \<forall>a. asked nick uh chan cmd a = pre @ '' :!'' @ cmd @ a" by blast
  have "CHR '':'' \<notin> set pre"
    using assms NickStringCheck_excludes(7)[of nick] by (auto simp: request_ok_def pre_def)
  from strstr_separator[OF this, of "'' :!'' @ cmd @ tail"]
  show "strstr (asked nick uh chan cmd tail) '' :!'' = Some ('' :!'' @ cmd @ tail)"
    by (simp add: l)
qed

lemma trim_blank: "trim (SP # s) = trim s"
  by (simp add: trim_eq)

text \<open>What \<open>getArgument\<close> leaves in the buffer behind the command, which is blank, or ends there.\<close>

definition left_behind :: "string \<Rightarrow> string" where
  "left_behind tail = (if trim tail = [] then take 1 tail else SP # trim tail)"

lemma asked_argument:
  assumes "request_ok nick uh chan cmd" "take 1 tail \<in> {[], '' ''}"
  shows "getArgument (Some (asked nick uh chan cmd tail)) = (if trim tail = [] then None else Some (trim tail))"
    and "getArgument_buf (asked nick uh chan cmd tail) = asked nick uh chan cmd (left_behind tail)"
proof -
  note s = asked_text(1)[OF assms(1), of tail]
  obtain pre where l: "asked nick uh chan cmd a = pre @ '' :!'' @ cmd @ a" for a
    using asked_text(2)[OF assms(1)] by blast
  have cmd: "SP \<notin> set cmd" using assms by (simp add: request_ok_def)
  have scan: "arg_scan (cmd @ tail) = (if trim tail = [] then None else Some (trim tail), cmd @ left_behind tail)"
  proof (cases tail)
    case Nil
    then show ?thesis using arg_scan_none[OF cmd] by (simp add: left_behind_def trim_empty_iff)
  next
    case (Cons t r)
    then have t: "t = SP" "trim tail = trim r" using assms(2) by (simp_all add: trim_blank)
    have "arg_scan (SP # r) = (if trim r = [] then None else Some (trim r), if trim r = [] then [SP] else SP # trim r)"
      by (simp add: Let_def arg_scan_blank)
    then have "arg_scan (cmd @ SP # r) = (if trim r = [] then None else Some (trim r),
        cmd @ (if trim r = [] then [SP] else SP # trim r))"
      using cmd by (induction cmd) auto
    then show ?thesis unfolding t(2) left_behind_def by (simp add: Cons t(1))
  qed
  then show "getArgument (Some (asked nick uh chan cmd tail)) = (if trim tail = [] then None else Some (trim tail))"
    using s by (simp add: getArgument_def)
  have "take (length (asked nick uh chan cmd tail) - length ('' :!'' @ cmd @ tail)) (asked nick uh chan cmd tail) = pre"
    unfolding l length_append by simp
  then show "getArgument_buf (asked nick uh chan cmd tail) = asked nick uh chan cmd (left_behind tail)"
    using s scan l[of "left_behind tail"] by (simp add: getArgument_buf_def)
qed

lemma request_argument:
  assumes "request_ok nick uh chan cmd" "trim args \<noteq> []"
  shows "getArgument (Some (request nick uh chan cmd args)) = Some (trim args)"
    and "getArgument_buf (request nick uh chan cmd args) = request nick uh chan cmd (trim args)"
  using asked_argument[OF assms(1), of "SP # args"] assms(2) by (simp_all add: request_def left_behind_def trim_blank)

lemma asked_command:
  assumes "request_ok nick uh chan cmd"
  shows "getCommand (Some (asked nick uh chan cmd tail))
    = Some ((CHR '':'' # nick @ ''!'' @ uh) @ SP # ''PRIVMSG '' @ chan @ '' '')"
proof -
  let ?pre = "nick @ ''!'' @ uh @ '' PRIVMSG ''"
  have "getCommand (Some ('':'' @ (?pre @ chan @ '' '') @ '':'' @ ''!'' @ cmd @ tail)) = Some ('':'' @ ?pre @ chan @ '' '')"
    using assms NickStringCheck_excludes(7)[of nick]
    by (subst getCommand_user_line) (auto simp: request_ok_def)
  then show ?thesis by (simp add: asked_def user_line_def)
qed

lemma asked_channel:
  assumes "request_ok nick uh chan cmd"
  shows "getChannel (Some (asked nick uh chan cmd tail)) = Some chan"
proof -
  let ?pre = "nick @ ''!'' @ uh @ '' PRIVMSG ''"
  obtain c where c: "chan = CHR ''#'' # c" using assms by (auto simp: request_ok_def starts_with_iff)
  have "getCommand (Some (asked nick uh chan cmd tail)) = Some ((CHR '':'' # ?pre) @ CHR ''#'' # c @ '' '')"
    using asked_command[OF assms] by (simp add: c)
  moreover have "CHR ''#'' \<notin> set (CHR '':'' # ?pre)"
    using assms NickStringCheck_excludes(1)[of nick] by (auto simp: request_ok_def)
  from strchr_append[OF this] have "strchr ((CHR '':'' # ?pre) @ CHR ''#'' # c @ '' '') (CHR ''#'') = Some (CHR ''#'' # c @ '' '')" .
  moreover have "strtok_cut SP (CHR ''#'' # c @ '' '') = chan"
    using assms c by (simp add: strtok_cut_simple request_ok_def takeWhile_upto[of SP c "[]", simplified])
  ultimately show ?thesis by (simp add: getChannel_def del: append_Cons)
qed

text \<open>The channel whose rights count for a request and its parameters, as functions of what stands behind the command.\<close>

definition channel_of :: "string \<Rightarrow> string \<Rightarrow> string option" where
  "channel_of chan tail = (let w = takeWhile (\<lambda>c. c \<noteq> SP) (trim tail) in
     if \<not> starts_with w ''#'' then Some chan else if ChannelStringCheck (Some w) then Some w else None)"

definition parameters_of :: "string \<Rightarrow> string option" where
  "parameters_of tail = (let t = trim tail in
     if t = [] then None
     else if \<not> starts_with t ''#'' then Some t
     else (case dropWhile (\<lambda>c. c \<noteq> SP) t of [] \<Rightarrow> None | _ # more \<Rightarrow> Some more))"

lemma hash_word: "starts_with (takeWhile (\<lambda>c. c \<noteq> SP) t) ''#'' \<longleftrightarrow> starts_with t ''#''"
  by (cases t) auto

lemma rest_parts:
  "(case (case s of [] \<Rightarrow> None | y # ys \<Rightarrow> Some (y # ys)) of None \<Rightarrow> None | Some p \<Rightarrow> Some (drop 1 p))
    = (case s of [] \<Rightarrow> None | _ # more \<Rightarrow> Some more)"
  by (cases s) simp_all

lemma asked_fields:
  assumes "request_ok nick uh chan cmd" "take 1 tail \<in> {[], '' ''}"
  shows "getNetmask (Some (asked nick uh chan cmd tail)) = Some (nick @ ''!'' @ uh)"
    and "getNickname (Some (asked nick uh chan cmd tail)) = Some nick"
    and "getAnswerMode (asked nick uh chan cmd tail) = NoticeMode"
    and "getAccessChannel (Some (asked nick uh chan cmd tail)) = channel_of chan tail"
    and "getAccessChannel_buf (asked nick uh chan cmd tail) = asked nick uh chan cmd (left_behind tail)"
    and "getParameters (Some (asked nick uh chan cmd tail)) = parameters_of tail"
proof -
  have nk: "SP \<notin> set nick" "NickStringCheck (Some nick)" "nick \<noteq> []" "SP \<notin> set uh"
    using assms NickStringCheck_excludes(4)[of nick] by (auto simp: request_ok_def)
  show nm: "getNetmask (Some (asked nick uh chan cmd tail)) = Some (nick @ ''!'' @ uh)"
    using getNetmask_user_line[OF nk(1,4)] by (simp add: asked_def user_line_def)
  show "getNickname (Some (asked nick uh chan cmd tail)) = Some nick"
    by (rule getNickname_netmask[OF nk(2,3) nm])
  show "getAnswerMode (asked nick uh chan cmd tail) = NoticeMode"
    by (simp add: getAnswerMode_def asked_channel[OF assms(1)])
  note a = asked_argument[OF assms] asked_channel[OF assms(1)]
  have w: "strtok_cut SP t = takeWhile (\<lambda>c. c \<noteq> SP) t" if "starts_with t ''#''" for t
    using that by (cases t) (auto simp: strtok_cut_simple)
  show "getAccessChannel (Some (asked nick uh chan cmd tail)) = channel_of chan tail"
    by (simp add: getAccessChannel_def a channel_of_def hash_word Let_def w)
  show "getAccessChannel_buf (asked nick uh chan cmd tail) = asked nick uh chan cmd (left_behind tail)"
    by (simp add: getAccessChannel_buf_def a Let_def)
  show "getParameters (Some (asked nick uh chan cmd tail)) = parameters_of tail"
    unfolding getParameters_def a parameters_of_def Let_def strchr_def unfolding rest_parts by simp
qed

lemma left_behind_fields:
  assumes "take 1 tail \<in> {[], '' ''}"
  shows "take 1 (left_behind tail) \<in> {[], '' ''}" "trim (left_behind tail) = trim tail"
proof -
  show "take 1 (left_behind tail) \<in> {[], '' ''}" using assms by (auto simp: left_behind_def)
  have "trim (take 1 tail) = []" using assms by (auto simp: trim_empty_iff)
  then show "trim (left_behind tail) = trim tail"
    using trim_id[of "trim tail"] trim_blank[of "trim tail"] by (auto simp: left_behind_def)
qed

lemma request_channel:
  "request_ok nick uh chan cmd \<Longrightarrow> getChannel (Some (request nick uh chan cmd args)) = Some chan"
  unfolding request_def by (rule asked_channel)



text \<open>C39: Whatever line the server sends, an access channel starts with \<open>#\<close> and has no space, a nick name has passed the
  check, and an argument or parameter is trimmed, not empty, and so without the tabulator that separates the
  fields of a channel record.\<close>

theorem extracted_safe:
  shows "(getAccessChannel l = Some c \<longrightarrow> starts_with c ''#'' \<and> SP \<notin> set c)
    \<and> (getNickname l = Some n \<longrightarrow> NickStringCheck (Some n) \<and> n \<noteq> [])
    \<and> (getParameters l = Some p \<longrightarrow> trimmed p \<and> p \<noteq> [] \<and> TAB \<notin> set p)"
  using getAccessChannel_shape getNickname_check getParameters_trimmed getParameters_no_tab by blast+

lemma extracted_safe_witness:
  "getParameters (Some '':a!b@c PRIVMSG #d :!topic x  y'') = Some ''x y'' \<and> TAB \<notin> set ''x y''"
proof -
  have "getParameters (Some '':a!b@c PRIVMSG #d :!topic x  y'') = Some ''x y''" by code_simp
  with extracted_safe[THEN conjunct2, THEN conjunct2, rule_format, OF this] show ?thesis by blast
qed

end
