(* ===== verification/ChannelMode.thy ===== *)
theory ChannelMode
  imports Extract
begin

text \<open>
  Channel modes and channel records: \<open>ChannelMode_t\<close> and \<open>ChannelData_t\<close> of
  \<open>src/include/type.h\<close> with their conversions from and to text in \<open>src/utilities.c\<close>, and the
  merge of a mode change into a stored record that \<open>chanmode\<close> (\<open>src/command.c\<close>) performs.
  The main results are the round trips of both text formats on well-formed values, the size of
  the buffer \<open>ChannelModeToStr\<close> allocates, and that the merge keeps records well-formed.
\<close>

section \<open>Data\<close>

record ChannelMode_t =
  pModeStr :: string
  pKeyword :: "string option"
  pLimit :: "string option"

record ChannelData_t =
  sModes :: ChannelMode_t
  pTopic :: "string option"
  pGreeting :: "string option"

definition MAX_MODES :: nat where "MAX_MODES = 11"

text \<open>The indices of \<open>ChanModeEnum\<close> and, in the same order, the letters stored at them.\<close>

definition MOD_TYPE :: nat where "MOD_TYPE = 0"
definition MOD_KEYWORD :: nat where "MOD_KEYWORD = 1"
definition MOD_LIMIT :: nat where "MOD_LIMIT = 2"
definition MOD_TOPIC :: nat where "MOD_TOPIC = 3"
definition MOD_MESSAGE :: nat where "MOD_MESSAGE = 4"
definition MOD_MODERAT :: nat where "MOD_MODERAT = 5"
definition MOD_PRIVAT :: nat where "MOD_PRIVAT = 6"
definition MOD_SECRET :: nat where "MOD_SECRET = 7"
definition MOD_ANONYM :: nat where "MOD_ANONYM = 8"
definition MOD_QUIET :: nat where "MOD_QUIET = 9"
definition MOD_REOP :: nat where "MOD_REOP = 10"
definition MOD_INVITE :: nat where "MOD_INVITE = 11"

lemmas mode_index = MOD_TYPE_def MOD_KEYWORD_def MOD_LIMIT_def MOD_TOPIC_def MOD_MESSAGE_def
  MOD_MODERAT_def MOD_PRIVAT_def MOD_SECRET_def MOD_ANONYM_def MOD_QUIET_def MOD_REOP_def
  MOD_INVITE_def

definition CHANNEL_MODES :: string where "CHANNEL_MODES = ''kltnmsprqi''"

definition blank_modes :: string where "blank_modes = replicate 12 SP"

section \<open>Modes to text\<close>

definition ChannelModeToStr :: "ChannelMode_t \<Rightarrow> string" where
  "ChannelModeToStr pMode =
     (let s = clearspace (pModeStr pMode);
          s = (case pKeyword pMode of
                 Some k \<Rightarrow> if strchr s (CHR ''k'') \<noteq> None then s @ '' '' @ k else s
               | None \<Rightarrow> s);
          s = (case pLimit pMode of
                 Some l \<Rightarrow> if strchr s (CHR ''l'') \<noteq> None then s @ '' '' @ l else s
               | None \<Rightarrow> s)
      in trim s)"

text \<open>The size of the buffer, and the longest text written to it before it is trimmed.\<close>

definition mode_buffer_size :: "ChannelMode_t \<Rightarrow> nat" where
  "mode_buffer_size pMode = MAX_MODES + 4
     + (case pKeyword pMode of Some k \<Rightarrow> length k | None \<Rightarrow> 0)
     + (case pLimit pMode of Some l \<Rightarrow> length l | None \<Rightarrow> 0)"

section \<open>Text to modes\<close>

text \<open>The three parts of the mode line (\<open>ppArgv\<close>).\<close>

fun split_args :: "nat \<Rightarrow> string option \<Rightarrow> string option list" where
  "split_args 0 pPos = []"
| "split_args (Suc n) None = None # split_args n None"
| "split_args (Suc n) (Some s) =
     Some (takeWhile (\<lambda>c. c \<noteq> SP) s) # split_args n (map_option (drop 1) (strchr s SP))"

text \<open>
  The copy of \<open>ppArgv[j]\<close> for \<open>k\<close> and \<open>l\<close>: undefined when that argument is missing
  (\<open>strlen(NULL)\<close>) or when \<open>j\<close> has run past the array.
\<close>

definition mode_arg :: "string option list \<Rightarrow> nat \<Rightarrow> string c_result" where
  "mode_arg ppArgv j = (if j < length ppArgv then ppArgv ! j else None)"

definition set_mode :: "nat \<Rightarrow> char \<Rightarrow> ChannelMode_t \<Rightarrow> ChannelMode_t" where
  "set_mode i c m = m\<lparr>pModeStr := (pModeStr m)[i := c]\<rparr>"

text \<open>The cases of the \<open>switch\<close> over one letter that only set a flag; other letters are ignored.\<close>

definition set_flag :: "char \<Rightarrow> ChannelMode_t \<Rightarrow> ChannelMode_t" where
  "set_flag c m =
     (if c = CHR ''+'' then set_mode MOD_TYPE (CHR ''+'') m
      else if c = CHR ''-'' then set_mode MOD_TYPE (CHR ''-'') m
      else if c = CHR ''t'' then set_mode MOD_TOPIC (CHR ''t'') m
      else if c = CHR ''n'' then set_mode MOD_MESSAGE (CHR ''n'') m
      else if c = CHR ''m'' then set_mode MOD_MODERAT (CHR ''m'') m
      else if c = CHR ''p'' then set_mode MOD_PRIVAT (CHR ''p'') m
      else if c = CHR ''s'' then set_mode MOD_SECRET (CHR ''s'') m
      else if c = CHR ''a'' then set_mode MOD_ANONYM (CHR ''a'') m
      else if c = CHR ''r'' then set_mode MOD_REOP (CHR ''r'') m
      else if c = CHR ''q'' then set_mode MOD_QUIET (CHR ''q'') m
      else if c = CHR ''i'' then set_mode MOD_INVITE (CHR ''i'') m
      else m)"

text \<open>The loop over the letters; \<open>k\<close> and \<open>l\<close> take the next argument.\<close>

fun parse_modes :: "string option list \<Rightarrow> string \<Rightarrow> nat \<Rightarrow> ChannelMode_t \<Rightarrow> ChannelMode_t c_result" where
  "parse_modes ppArgv [] j m = Some m"
| "parse_modes ppArgv (c # cs) j m =
     (if c = CHR ''k'' then
        (case mode_arg ppArgv j of
           None \<Rightarrow> None
         | Some a \<Rightarrow> parse_modes ppArgv cs (j + 1) ((set_mode MOD_KEYWORD (CHR ''k'') m)\<lparr>pKeyword := Some a\<rparr>))
      else if c = CHR ''l'' then
        (case mode_arg ppArgv j of
           None \<Rightarrow> None
         | Some a \<Rightarrow> parse_modes ppArgv cs (j + 1) ((set_mode MOD_LIMIT (CHR ''l'') m)\<lparr>pLimit := Some a\<rparr>))
      else parse_modes ppArgv cs j (set_flag c m))"

definition StrToChannelMode :: "string option \<Rightarrow> ChannelMode_t c_result" where
  "StrToChannelMode s =
     (let m = \<lparr>pModeStr = blank_modes, pKeyword = None, pLimit = None\<rparr>; ppArgv = split_args 3 s
      in case ppArgv ! 0 of
           None \<Rightarrow> Some m
         | Some modes \<Rightarrow> parse_modes ppArgv modes 1 m)"

section \<open>Channel records\<close>

definition StrToChannelData :: "string \<Rightarrow> ChannelData_t c_result" where
  "StrToChannelData pChannelSet =
     (case StrToChannelMode (Some (getChannelMode (Some pChannelSet))) of
        None \<Rightarrow> None
      | Some m \<Rightarrow> Some \<lparr>sModes = m, pTopic = getTopic (Some pChannelSet),
                         pGreeting = getGreeting (Some pChannelSet)\<rparr>)"

definition ChannelDataToStr :: "ChannelData_t \<Rightarrow> string" where
  "ChannelDataToStr d =
     ChannelModeToStr (sModes d) @ [TAB]
     @ (case pTopic d of Some t \<Rightarrow> t | None \<Rightarrow> []) @ [TAB]
     @ (case pGreeting d of Some g \<Rightarrow> g | None \<Rightarrow> [])"

section \<open>Merging a mode change (command !chanmode)\<close>

text \<open>The body of the loop of \<open>chanmode\<close> for one index.\<close>

definition merge_mode :: "ChannelMode_t \<Rightarrow> nat \<Rightarrow> ChannelMode_t \<Rightarrow> ChannelMode_t" where
  "merge_mode sNewMode i old =
     (let c = pModeStr sNewMode ! i in
      if pModeStr sNewMode ! MOD_TYPE = CHR ''+'' then
        (if c \<noteq> SP then
           (let m = set_mode i c old in
            if c = CHR ''k'' \<and> pKeyword sNewMode \<noteq> None then m\<lparr>pKeyword := pKeyword sNewMode\<rparr>
            else if c = CHR ''l'' \<and> pLimit sNewMode \<noteq> None then m\<lparr>pLimit := pLimit sNewMode\<rparr>
            else m)
         else old)
      else if pModeStr sNewMode ! MOD_TYPE = CHR ''-'' then
        (if c \<noteq> SP then
           (let m = (if c = CHR ''k'' then old\<lparr>pKeyword := None\<rparr>
                     else if c = CHR ''l'' then old\<lparr>pLimit := None\<rparr>
                     else old)
            in set_mode i SP m)
         else old)
      else old)"

definition merge_modes :: "ChannelMode_t \<Rightarrow> ChannelMode_t \<Rightarrow> ChannelMode_t" where
  "merge_modes sNewMode old =
     (let m = fold (merge_mode sNewMode) [1..<MAX_MODES] old in
      if strpbrk (pModeStr m) CHANNEL_MODES then set_mode 0 (CHR ''+'') m else set_mode 0 SP m)"

section \<open>Well-formed modes and records\<close>

definition mode_letters :: string where "mode_letters = ''+kltnmpsaqri''"

definition word :: "string \<Rightarrow> bool" where
  "word s \<longleftrightarrow> s \<noteq> [] \<and> (\<forall>c \<in> set s. \<not> is_ws c)"

definition wf_mode :: "ChannelMode_t \<Rightarrow> bool" where
  "wf_mode m \<longleftrightarrow> length (pModeStr m) = 12
     \<and> (\<forall>i < 12. pModeStr m ! i = SP \<or> pModeStr m ! i = mode_letters ! i
                 \<or> i = 0 \<and> pModeStr m ! i = CHR ''-'')
     \<and> (case pKeyword m of None \<Rightarrow> pModeStr m ! 1 = SP | Some k \<Rightarrow> pModeStr m ! 1 = CHR ''k'' \<and> word k)
     \<and> (case pLimit m of None \<Rightarrow> pModeStr m ! 2 = SP | Some l \<Rightarrow> pModeStr m ! 2 = CHR ''l'' \<and> word l)"

definition field_ok :: "string option \<Rightarrow> bool" where
  "field_ok f \<longleftrightarrow> (case f of None \<Rightarrow> True | Some t \<Rightarrow> t \<noteq> [] \<and> TAB \<notin> set t)"

definition wf_data :: "ChannelData_t \<Rightarrow> bool" where
  "wf_data d \<longleftrightarrow> wf_mode (sModes d) \<and> field_ok (pTopic d) \<and> field_ok (pGreeting d)"

lemma all_less_12: "(\<forall>i < (12::nat). P i) \<longleftrightarrow>
  P 0 \<and> P 1 \<and> P 2 \<and> P 3 \<and> P 4 \<and> P 5 \<and> P 6 \<and> P 7 \<and> P 8 \<and> P 9 \<and> P 10 \<and> P 11"
proof -
  have "(\<forall>i < (12::nat). P i) \<longleftrightarrow> (\<forall>i \<in> set [0..<12]. P i)" by auto
  also have "[0..<12] = [0, 1, 2, 3, 4, 5, 6, 7, 8, 9, 10, 11 :: nat]" by (simp add: upt_rec)
  finally show ?thesis by simp
qed

lemma length_12:
  assumes "length xs = 12"
  obtains a0 a1 a2 a3 a4 a5 a6 a7 a8 a9 a10 a11
  where "xs = [a0, a1, a2, a3, a4, a5, a6, a7, a8, a9, a10, a11]"
  using assms by (auto simp: numeral_eq_Suc length_Suc_conv)

subsection \<open>Mode text\<close>

lemma wf_mode_no_special:
  assumes "wf_mode m" "c \<in> set (pModeStr m)"
  shows "c = SP \<or> \<not> is_ws c \<and> c \<noteq> DQ"
proof -
  obtain i where i: "i < 12" "c = pModeStr m ! i"
    using assms by (auto simp: wf_mode_def in_set_conv_nth)
  have letters: "\<forall>i < 12. \<not> is_ws (mode_letters ! i) \<and> mode_letters ! i \<noteq> DQ"
    unfolding all_less_12 by (simp add: mode_letters_def is_ws_def)
  have "c = SP \<or> c = mode_letters ! i \<or> c = CHR ''-''" using assms(1) i by (auto simp: wf_mode_def)
  then show ?thesis using letters i(1) by (auto simp: is_ws_def)
qed

lemma clearspace_mode: "wf_mode m \<Longrightarrow> clearspace (pModeStr m) = filter (\<lambda>c. c \<noteq> SP) (pModeStr m)"
  using wf_mode_no_special by (intro clearspace_no_quote) (auto simp: is_ws_def)

lemma single_spaced_words:
  "(\<forall>c \<in> set w. \<not> is_ws c) \<Longrightarrow> w \<noteq> [] \<Longrightarrow> single_spaced True r \<Longrightarrow> single_spaced al (w @ r)"
proof (induction w arbitrary: al)
  case (Cons c cs)
  have "c \<noteq> SP" using Cons.prems by (auto simp: is_ws_def)
  then show ?case using Cons by (cases "cs = []") auto
qed simp

lemmas single_spaced_word = single_spaced_words[of _ "[]", simplified]

lemma single_spaced_opt:
  "(case v of None \<Rightarrow> True | Some k \<Rightarrow> word k) \<Longrightarrow> single_spaced True r \<Longrightarrow>
   single_spaced True ((case v of None \<Rightarrow> [] | Some k \<Rightarrow> SP # k) @ r)"
  by (auto split: option.splits simp: word_def intro: single_spaced_words)

text \<open>What \<open>ChannelModeToStr\<close> writes for a well-formed value: the letters, then the arguments.\<close>

definition mode_letters_of :: "ChannelMode_t \<Rightarrow> string" where
  "mode_letters_of m = filter (\<lambda>c. c \<noteq> SP) (pModeStr m)"

lemma mode_letters_of_k: "wf_mode m \<Longrightarrow> pKeyword m = Some k \<Longrightarrow> CHR ''k'' \<in> set (mode_letters_of m)"
  by (auto simp: wf_mode_def mode_letters_of_def in_set_conv_nth intro!: exI[of _ 1])

lemma mode_letters_of_l: "wf_mode m \<Longrightarrow> pLimit m = Some l \<Longrightarrow> CHR ''l'' \<in> set (mode_letters_of m)"
  by (auto simp: wf_mode_def mode_letters_of_def in_set_conv_nth intro!: exI[of _ 2])

lemma mode_letters_of_ws: "wf_mode m \<Longrightarrow> c \<in> set (mode_letters_of m) \<Longrightarrow> \<not> is_ws c"
  using wf_mode_no_special by (auto simp: mode_letters_of_def)

lemma ChannelModeToStr_wf:
  assumes "wf_mode m"
  shows "ChannelModeToStr m = mode_letters_of m
    @ (case pKeyword m of None \<Rightarrow> [] | Some k \<Rightarrow> SP # k)
    @ (case pLimit m of None \<Rightarrow> [] | Some l \<Rightarrow> SP # l)" (is "_ = ?text")
proof -
  have kw: "case pKeyword m of None \<Rightarrow> True | Some k \<Rightarrow> word k"
    "case pLimit m of None \<Rightarrow> True | Some l \<Rightarrow> word l"
    using assms by (auto simp: wf_mode_def split: option.splits)
  have args: "single_spaced True ((case pKeyword m of None \<Rightarrow> [] | Some k \<Rightarrow> SP # k)
      @ (case pLimit m of None \<Rightarrow> [] | Some l \<Rightarrow> SP # l))"
    using single_spaced_opt[OF kw(1), of "case pLimit m of None \<Rightarrow> [] | Some l \<Rightarrow> SP # l"]
      single_spaced_opt[OF kw(2), of "[]"] by simp
  have "trimmed ?text"
  proof (cases "mode_letters_of m = []")
    case True
    then have "pKeyword m = None" "pLimit m = None"
      using mode_letters_of_k[OF assms] mode_letters_of_l[OF assms] by (cases "pKeyword m"; cases "pLimit m"; simp)+
    with True show ?thesis by (simp add: trimmed_def)
  next
    case False
    have "\<forall>c \<in> set (mode_letters_of m). \<not> is_ws c" using mode_letters_of_ws[OF assms] by blast
    from single_spaced_words[OF this False args] show ?thesis by (simp add: trimmed_def)
  qed
  moreover have "ChannelModeToStr m = trim ?text"
    using mode_letters_of_k[OF assms] mode_letters_of_l[OF assms]
    by (auto simp: ChannelModeToStr_def clearspace_mode[OF assms] mode_letters_of_def[symmetric]
        strchr_None Let_def split: option.splits)
  ultimately show ?thesis by (simp add: trim_id)
qed

subsection \<open>Reading the text back\<close>

lemma word_no_SP: "word w \<Longrightarrow> SP \<notin> set w"
  by (auto simp: word_def)

lemma split_args_None: "split_args n None = replicate n None"
  by (induction n) auto

lemma length_split_args: "length (split_args n p) = n"
  by (induction n p rule: split_args.induct) auto

lemma split_args_word:
  "SP \<notin> set w \<Longrightarrow> split_args (Suc n) (Some w) = Some w # replicate n None"
  by (simp add: takeWhile_none strchr_None[THEN iffD2] split_args_None)

lemma split_args_more:
  "SP \<notin> set w \<Longrightarrow> split_args (Suc n) (Some (w @ SP # r)) = Some w # split_args n (Some r)"
  by (simp add: takeWhile_upto strchr_append)

text \<open>The letters of a mode line that take an argument, and the arguments that it has.\<close>

definition letters_with_argument :: "string \<Rightarrow> nat" where
  "letters_with_argument p = length (filter (\<lambda>c. c = CHR ''k'' \<or> c = CHR ''l'') (takeWhile (\<lambda>c. c \<noteq> SP) p))"

definition arguments_given :: "string \<Rightarrow> nat" where
  "arguments_given p = min 2 (length (filter (\<lambda>c. c = SP) p))"

lemma split_args_nth:
  "i < n \<Longrightarrow> split_args n (Some s) ! i = None \<longleftrightarrow> length (filter (\<lambda>c. c = SP) s) < i"
proof (induction n arbitrary: s i)
  case (Suc n)
  show ?case
  proof (cases i)
    case 0
    then show ?thesis by simp
  next
    case (Suc j)
    show ?thesis
    proof (cases "SP \<in> set s")
      case True
      then obtain r where r: "strchr s SP = Some r" using strchr_None[of s SP] by (cases "strchr s SP") auto
      then obtain pre post where "s = pre @ SP # post" "r = SP # post" "SP \<notin> set pre" using strchr_Some by blast
      moreover from this(3) have "filter (\<lambda>c. c = SP) pre = []" by (auto simp: filter_empty_conv)
      ultimately show ?thesis using Suc.IH[of j post] Suc.prems Suc r by simp
    next
      case False
      then have "strchr s SP = None" "filter (\<lambda>c. c = SP) s = []" by (auto simp: strchr_None filter_empty_conv)
      then show ?thesis using Suc.prems Suc by (simp add: split_args_None)
    qed
  qed
qed simp

lemma parse_modes_None:
  "parse_modes av cs j m = None \<longleftrightarrow>
     (\<exists>i. j \<le> i \<and> i < j + length (filter (\<lambda>c. c = CHR ''k'' \<or> c = CHR ''l'') cs) \<and> mode_arg av i = None)"
proof (induction cs arbitrary: j m)
  case (Cons c cs)
  have split: "(\<exists>i. j \<le> i \<and> i < Suc (j + n) \<and> Q i) \<longleftrightarrow> Q j \<or> (\<exists>i. Suc j \<le> i \<and> i < Suc (j + n) \<and> Q i)" for n Q
    by (metis Suc_leD Suc_leI le_add1 le_eq_less_or_eq less_Suc_eq_le order_refl)
  show ?case using Cons.IH
    by (auto simp: split[of _ "\<lambda>i. mode_arg av i = None", simplified] split: option.splits)
qed auto

lemma StrToChannelMode_undefined:
  "StrToChannelMode (Some p) = None \<longleftrightarrow> arguments_given p < letters_with_argument p"
proof -
  let ?n = "letters_with_argument p"
  have arg: "mode_arg (split_args 3 (Some p)) i = None \<longleftrightarrow> \<not> i < 3 \<or> length (filter (\<lambda>c. c = SP) p) < i" for i
    by (auto simp: mode_arg_def split_args_nth length_split_args)
  have "StrToChannelMode (Some p) = None \<longleftrightarrow> (\<exists>i. 1 \<le> i \<and> i < 1 + ?n \<and> (\<not> i < 3 \<or> length (filter (\<lambda>c. c = SP) p) < i))"
  proof -
    have "split_args 3 (Some p) ! 0 = Some (takeWhile (\<lambda>c. c \<noteq> SP) p)" by (simp add: numeral_3_eq_3)
    then show ?thesis unfolding StrToChannelMode_def Let_def letters_with_argument_def by (simp only: option.case parse_modes_None arg)
  qed
  also have "\<dots> \<longleftrightarrow> arguments_given p < ?n" unfolding arguments_given_def by (auto intro: exI[of _ ?n])
  finally show ?thesis .
qed

lemma set_mode_SP: "pModeStr m ! i = SP \<Longrightarrow> set_mode i SP m = m"
  by (metis (no_types, lifting) ChannelMode_t.surjective ChannelMode_t.update_convs(1) list_update_id set_mode_def)

text \<open>
  One flag of the mode text: whether the letter is present or not, parsing continues with the
  flag at its index, because an absent letter leaves the blank that is there.
\<close>

lemma parse_absent:
  "x = SP \<Longrightarrow> pModeStr m ! i = SP \<Longrightarrow>
   parse_modes av (if x \<noteq> SP then x # ys else ys) j m = parse_modes av ys j (set_mode i x m)"
  by (simp add: set_mode_SP)

lemma parse_flag:
  assumes "x = SP \<or> x = c" "pModeStr m ! i = SP"
    and "(c, i) \<in> {(CHR ''t'', 3), (CHR ''n'', 4), (CHR ''m'', 5), (CHR ''p'', 6),
      (CHR ''s'', 7), (CHR ''a'', 8), (CHR ''q'', 9), (CHR ''r'', 10), (CHR ''i'', 11)}"
  shows "parse_modes av (if x \<noteq> SP then x # ys else ys) j m = parse_modes av ys j (set_mode i x m)"
proof (cases "x = SP")
  case True
  then show ?thesis using assms(2) by (rule parse_absent)
next
  case False
  with assms(1) have "x = c" by simp
  with assms(3) show ?thesis by (elim insertE emptyE) (simp_all add: mode_index set_flag_def)
qed

lemma parse_type:
  assumes "x = SP \<or> x = CHR ''+'' \<or> x = CHR ''-''" "pModeStr m ! 0 = SP"
  shows "parse_modes av (if x \<noteq> SP then x # ys else ys) j m = parse_modes av ys j (set_mode 0 x m)"
proof (cases "x = SP")
  case True
  then show ?thesis using assms(2) by (rule parse_absent)
next
  case False
  with assms(1) have "x = CHR ''+'' \<or> x = CHR ''-''" by simp
  then show ?thesis by (elim disjE) (simp_all add: mode_index set_flag_def)
qed

lemma keyword_None: "pKeyword m = None \<Longrightarrow> m\<lparr>pKeyword := None\<rparr> = m"
  and limit_None: "pLimit m = None \<Longrightarrow> m\<lparr>pLimit := None\<rparr> = m"
  by (cases m; simp)+

lemma parse_k:
  assumes "case kw of None \<Rightarrow> x = SP | Some k \<Rightarrow> x = CHR ''k'' \<and> mode_arg av j = Some k"
    "pModeStr m ! 1 = SP" "pKeyword m = None"
  shows "parse_modes av (if x \<noteq> SP then x # ys else ys) j m
    = parse_modes av ys (if kw = None then j else j + 1) ((set_mode 1 x m)\<lparr>pKeyword := kw\<rparr>)"
proof (cases kw)
  case None
  with assms show ?thesis
    using parse_absent[of x m 1 av ys j] by (simp add: set_mode_SP keyword_None)
next
  case (Some k)
  with assms(1) show ?thesis by (simp add: mode_index)
qed

lemma parse_l:
  assumes "case kw of None \<Rightarrow> x = SP | Some k \<Rightarrow> x = CHR ''l'' \<and> mode_arg av j = Some k"
    "pModeStr m ! 2 = SP" "pLimit m = None"
  shows "parse_modes av (if x \<noteq> SP then x # ys else ys) j m
    = parse_modes av ys (if kw = None then j else j + 1) ((set_mode 2 x m)\<lparr>pLimit := kw\<rparr>)"
proof (cases kw)
  case None
  with assms show ?thesis
    using parse_absent[of x m 2 av ys j] by (simp add: set_mode_SP limit_None)
next
  case (Some k)
  with assms(1) show ?thesis by (simp add: mode_index)
qed

lemma blank_modes_list: "blank_modes = [SP, SP, SP, SP, SP, SP, SP, SP, SP, SP, SP, SP]"
  by (simp add: blank_modes_def numeral_eq_Suc)

lemma parse_modes_wf:
  assumes wf: "wf_mode m"
    and k: "case pKeyword m of None \<Rightarrow> True | Some k \<Rightarrow> mode_arg av 1 = Some k"
    and l: "case pLimit m of None \<Rightarrow> True
      | Some l \<Rightarrow> mode_arg av (if pKeyword m = None then 1 else 2) = Some l"
  shows "parse_modes av (mode_letters_of m) 1 \<lparr>pModeStr = blank_modes, pKeyword = None, pLimit = None\<rparr>
    = Some m"
proof -
  obtain kw lim ms where m: "m = \<lparr>pModeStr = ms, pKeyword = kw, pLimit = lim\<rparr>" by (cases m)
  from wf m have "length ms = 12" by (simp add: wf_mode_def)
  then obtain a0 a1 a2 a3 a4 a5 a6 a7 a8 a9 a10 a11
    where ms: "ms = [a0, a1, a2, a3, a4, a5, a6, a7, a8, a9, a10, a11]" by (rule length_12)
  have letters: "a0 = SP \<or> a0 = CHR ''+'' \<or> a0 = CHR ''-''" "a3 = SP \<or> a3 = CHR ''t''"
    "a4 = SP \<or> a4 = CHR ''n''" "a5 = SP \<or> a5 = CHR ''m''" "a6 = SP \<or> a6 = CHR ''p''"
    "a7 = SP \<or> a7 = CHR ''s''" "a8 = SP \<or> a8 = CHR ''a''" "a9 = SP \<or> a9 = CHR ''q''"
    "a10 = SP \<or> a10 = CHR ''r''" "a11 = SP \<or> a11 = CHR ''i''"
    using wf unfolding m ms wf_mode_def all_less_12 by (simp_all add: mode_letters_def)
  have k': "case kw of None \<Rightarrow> a1 = SP | Some k \<Rightarrow> a1 = CHR ''k'' \<and> mode_arg av 1 = Some k"
    using wf k unfolding m ms wf_mode_def by (simp split: option.splits)
  have l': "case lim of None \<Rightarrow> a2 = SP | Some l \<Rightarrow> a2 = CHR ''l''
      \<and> mode_arg av (if kw = None then 1 else 1 + 1) = Some l"
    using wf l unfolding m ms wf_mode_def by (simp add: numeral_2_eq_2 split: option.splits)
  note flags = parse_flag[OF letters(2), of _ 3] parse_flag[OF letters(3), of _ 4]
    parse_flag[OF letters(4), of _ 5] parse_flag[OF letters(5), of _ 6]
    parse_flag[OF letters(6), of _ 7] parse_flag[OF letters(7), of _ 8]
    parse_flag[OF letters(8), of _ 9] parse_flag[OF letters(9), of _ 10]
    parse_flag[OF letters(10), of _ 11]
  show ?thesis
    unfolding m ms mode_letters_of_def blank_modes_list
    by (simp add: parse_type[OF letters(1), simplified] parse_k[OF k', simplified]
        parse_l[OF l', simplified] flags[simplified] set_mode_def del: parse_modes.simps(2))
qed

lemma StrToChannelMode_ChannelModeToStr:
  assumes "wf_mode m"
  shows "StrToChannelMode (Some (ChannelModeToStr m)) = Some m"
proof -
  let ?w = "mode_letters_of m"
  let ?av = "split_args 3 (Some (ChannelModeToStr m))"
  have w: "SP \<notin> set ?w" using mode_letters_of_ws[OF assms, of SP] by auto
  have kl: "SP \<notin> set k" if "pKeyword m = Some k \<or> pLimit m = Some k" for k
    using that assms word_no_SP[of k] by (auto simp: wf_mode_def)
  have av: "?av ! 0 = Some ?w \<and>
      (case pKeyword m of None \<Rightarrow> True | Some k \<Rightarrow> mode_arg ?av 1 = Some k) \<and>
      (case pLimit m of None \<Rightarrow> True | Some l \<Rightarrow> mode_arg ?av (if pKeyword m = None then 1 else 2) = Some l)"
    using w kl
    by (cases "pKeyword m"; cases "pLimit m")
       (auto simp: ChannelModeToStr_wf[OF assms] numeral_3_eq_3 mode_arg_def
         split_args_word split_args_more simp del: split_args.simps(3))
  with parse_modes_wf[OF assms, of ?av] show ?thesis
    by (simp add: StrToChannelMode_def Let_def)
qed

interpretation modes: text_format ChannelModeToStr "\<lambda>s. StrToChannelMode (Some s)" wf_mode
  by unfold_locales (rule StrToChannelMode_ChannelModeToStr)

subsection \<open>Channel records\<close>

lemma ChannelModeToStr_no_tab: "TAB \<notin> set (ChannelModeToStr m)"
  unfolding ChannelModeToStr_def Let_def by (rule trimmed_no_tab) simp

lemma getChannelMode_record:
  "TAB \<notin> set a \<Longrightarrow> getChannelMode (Some (a @ TAB # r)) = a"
  by (simp add: getChannelMode_def strchr_append takeWhile_upto)

lemma getTopic_record:
  "TAB \<notin> set a \<Longrightarrow> TAB \<notin> set t \<Longrightarrow>
   getTopic (Some (a @ TAB # t @ TAB # g)) = (if t = [] then None else Some t)"
  by (simp add: getTopic_def strchr_append takeWhile_upto Let_def)

lemma getGreeting_record:
  "TAB \<notin> set g \<Longrightarrow> getGreeting (Some (a @ TAB # g)) = (if g = [] then None else Some g)"
  by (simp add: getGreeting_def strrchr_append)

lemma StrToChannelData_ChannelDataToStr:
  assumes "wf_data d"
  shows "StrToChannelData (ChannelDataToStr d) = Some d"
proof -
  let ?t = "case pTopic d of Some t \<Rightarrow> t | None \<Rightarrow> []"
  let ?g = "case pGreeting d of Some g \<Rightarrow> g | None \<Rightarrow> []"
  let ?m = "ChannelModeToStr (sModes d)"
  have tg: "TAB \<notin> set ?t" "TAB \<notin> set ?g"
    using assms by (auto simp: wf_data_def field_ok_def split: option.splits)
  have layout: "ChannelDataToStr d = ?m @ TAB # ?t @ TAB # ?g" by (simp add: ChannelDataToStr_def)
  have "getChannelMode (Some (ChannelDataToStr d)) = ?m"
    unfolding layout by (rule getChannelMode_record) (rule ChannelModeToStr_no_tab)
  moreover have "getTopic (Some (ChannelDataToStr d)) = pTopic d"
    unfolding layout using getTopic_record[OF ChannelModeToStr_no_tab tg(1)] assms
    by (auto simp: wf_data_def field_ok_def split: option.splits)
  moreover have "getGreeting (Some (ChannelDataToStr d)) = pGreeting d"
    unfolding layout using getGreeting_record[OF tg(2), of "?m @ TAB # ?t"] assms
    by (auto simp: wf_data_def field_ok_def split: option.splits)
  moreover have "StrToChannelMode (Some ?m) = Some (sModes d)"
    using assms by (intro modes.dec_enc) (simp add: wf_data_def)
  ultimately show ?thesis by (simp add: StrToChannelData_def)
qed

interpretation channel_records: text_format ChannelDataToStr StrToChannelData wf_data
  by unfold_locales (rule StrToChannelData_ChannelDataToStr)

section \<open>The values the bot produces are well-formed\<close>

lemma wf_blank: "wf_mode \<lparr>pModeStr = blank_modes, pKeyword = None, pLimit = None\<rparr>"
  by (simp add: wf_mode_def blank_modes_def)

text \<open>The letters of a well-formed value, without the arguments.\<close>

definition letter_ok :: "nat \<Rightarrow> char \<Rightarrow> bool" where
  "letter_ok i c \<longleftrightarrow> c = SP \<or> c = mode_letters ! i \<or> i = 0 \<and> c = CHR ''-''"

definition wf_letters :: "string \<Rightarrow> bool" where
  "wf_letters ms \<longleftrightarrow> length ms = 12 \<and> (\<forall>i < 12. letter_ok i (ms ! i))"

lemma wf_mode_letters: "wf_mode m \<Longrightarrow> wf_letters (pModeStr m)"
  by (simp add: wf_mode_def wf_letters_def letter_ok_def)

lemma wf_letters_update: "wf_letters ms \<Longrightarrow> letter_ok i c \<Longrightarrow> wf_letters (ms[i := c])"
  by (cases "i < 12") (auto simp: wf_letters_def nth_list_update list_update_beyond)

lemma wf_mode_alt: "wf_mode m \<longleftrightarrow> wf_letters (pModeStr m)
     \<and> (case pKeyword m of None \<Rightarrow> pModeStr m ! 1 = SP | Some k \<Rightarrow> pModeStr m ! 1 = CHR ''k'' \<and> word k)
     \<and> (case pLimit m of None \<Rightarrow> pModeStr m ! 2 = SP | Some l \<Rightarrow> pModeStr m ! 2 = CHR ''l'' \<and> word l)"
  by (auto simp: wf_mode_def wf_letters_def letter_ok_def)

lemma wf_set_flag:
  assumes "wf_mode m" "i \<noteq> 1" "i \<noteq> 2" "letter_ok i c"
  shows "wf_mode (set_mode i c m)"
  using assms wf_letters_update[of "pModeStr m" i c]
  by (simp add: wf_mode_alt set_mode_def letter_ok_def split: option.splits)

lemma wf_letters_length: "wf_letters ms \<Longrightarrow> length ms = 12"
  by (simp add: wf_letters_def)

lemma wf_set_keyword:
  assumes "wf_mode m" "word k"
  shows "wf_mode ((set_mode 1 (CHR ''k'') m)\<lparr>pKeyword := Some k\<rparr>)"
  using assms wf_letters_update[of "pModeStr m" 1 "CHR ''k''"] wf_letters_length[of "pModeStr m"]
  by (simp add: wf_mode_alt set_mode_def letter_ok_def mode_letters_def split: option.splits)

lemma wf_set_limit:
  assumes "wf_mode m" "word l"
  shows "wf_mode ((set_mode 2 (CHR ''l'') m)\<lparr>pLimit := Some l\<rparr>)"
  using assms wf_letters_update[of "pModeStr m" 2 "CHR ''l''"] wf_letters_length[of "pModeStr m"]
  by (simp add: wf_mode_alt set_mode_def letter_ok_def mode_letters_def split: option.splits)

lemma wf_drop_keyword: "wf_mode m \<Longrightarrow> wf_mode (set_mode 1 SP (m\<lparr>pKeyword := None\<rparr>))"
  using wf_letters_update[of "pModeStr m" 1 SP] wf_letters_length[of "pModeStr m"]
  by (simp add: wf_mode_alt set_mode_def letter_ok_def split: option.splits)

lemma wf_drop_limit: "wf_mode m \<Longrightarrow> wf_mode (set_mode 2 SP (m\<lparr>pLimit := None\<rparr>))"
  using wf_letters_update[of "pModeStr m" 2 SP] wf_letters_length[of "pModeStr m"]
  by (simp add: wf_mode_alt set_mode_def letter_ok_def split: option.splits)

lemma mode_letters_nth:
  "mode_letters ! 0 = CHR ''+''" "mode_letters ! 1 = CHR ''k''" "mode_letters ! 2 = CHR ''l''"
  "mode_letters ! 3 = CHR ''t''" "mode_letters ! 4 = CHR ''n''" "mode_letters ! 5 = CHR ''m''"
  "mode_letters ! 6 = CHR ''p''" "mode_letters ! 7 = CHR ''s''" "mode_letters ! 8 = CHR ''a''"
  "mode_letters ! 9 = CHR ''q''" "mode_letters ! 10 = CHR ''r''" "mode_letters ! 11 = CHR ''i''"
  by (simp_all add: mode_letters_def)

lemma wf_set_flags: "wf_mode m \<Longrightarrow> wf_mode (set_flag c m)"
  unfolding set_flag_def mode_index by (simp add: wf_set_flag letter_ok_def mode_letters_nth)

text \<open>
  A mode line whose arguments are words yields a well-formed value, or is undefined because an
  argument of \<open>k\<close> or \<open>l\<close> is missing.
\<close>

lemma parse_modes_wf_result:
  assumes "parse_modes av cs j m = Some m'" "wf_mode m" "0 < j"
    and args: "\<And>i a. 0 < i \<Longrightarrow> mode_arg av i = Some a \<Longrightarrow> word a"
  shows "wf_mode m'"
  using assms(1-3)
proof (induction cs arbitrary: j m)
  case (Cons c cs)
  then show ?case
    using args[of j] wf_set_keyword[of m] wf_set_limit[of m] wf_set_flags[of m c]
    by (auto simp: mode_index split: if_splits option.splits)
qed simp

lemma trimmed_parts:
  "trimmed s \<Longrightarrow> a \<in> set (split_args n (Some s)) \<Longrightarrow> s = [] \<or> (case a of None \<Rightarrow> True | Some w \<Rightarrow> word w)"
proof (induction n arbitrary: s)
  case (Suc n)
  let ?w = "takeWhile (\<lambda>c. c \<noteq> SP) s"
  have first: "s = [] \<or> word ?w"
  proof (cases s)
    case (Cons c cs)
    then have "c \<noteq> SP" using Suc.prems(1) trimmed_hd by blast
    moreover have "\<not> is_ws x" if "x \<in> set ?w" for x
      using trimmed_ws[OF Suc.prems(1), of x] that by (auto dest: set_takeWhileD)
    ultimately show ?thesis using Cons by (simp add: word_def)
  qed simp
  show ?case
  proof (cases "strchr s SP")
    case None
    with first Suc.prems(2) show ?thesis by (auto simp: split_args_None)
  next
    case (Some p)
    from trimmed_after_space[OF Suc.prems(1) Some]
    have "trimmed (drop 1 p)" "drop 1 p \<noteq> []" by auto
    with Suc.IH[of "drop 1 p"] first Suc.prems(2) Some show ?thesis by auto
  qed
qed simp

lemma split_args_blank: "split_args 3 (Some []) = [Some [], None, None]"
  by (simp add: numeral_3_eq_3 strchr_def)

lemma StrToChannelMode_wf:
  assumes "trimmed s" "StrToChannelMode (Some s) = Some m"
  shows "wf_mode m"
proof -
  let ?av = "split_args 3 (Some s)"
  have args: "word a" if "0 < i" "mode_arg ?av i = Some a" for i a
  proof (cases "s = []")
    case True
    with that show ?thesis
      by (cases i) (auto simp: split_args_blank mode_arg_def nth_Cons' split: if_splits)
  next
    case False
    from that have "?av ! i = Some a" "i < length ?av" by (auto simp: mode_arg_def split: if_splits)
    then have "Some a \<in> set ?av" by (metis nth_mem)
    with trimmed_parts[OF assms(1) this] False show ?thesis by simp
  qed
  from assms(2) show ?thesis
    by (auto simp: StrToChannelMode_def Let_def wf_blank split: option.splits
        intro: parse_modes_wf_result[OF _ wf_blank _ args, rotated])
qed

section \<open>The merge keeps records well-formed\<close>

lemma wf_new_letter:
  assumes "wf_mode new" "i < 12" "i \<noteq> 0" "pModeStr new ! i \<noteq> SP"
  shows "pModeStr new ! i = mode_letters ! i"
  using assms by (auto simp: wf_mode_def)

lemma mode_letters_k: "i < 12 \<Longrightarrow> mode_letters ! i = CHR ''k'' \<longleftrightarrow> i = 1"
  and mode_letters_l: "i < 12 \<Longrightarrow> mode_letters ! i = CHR ''l'' \<longleftrightarrow> i = 2"
proof -
  have "\<forall>i < 12. mode_letters ! i = CHR ''k'' \<longleftrightarrow> i = 1" "\<forall>i < 12. mode_letters ! i = CHR ''l'' \<longleftrightarrow> i = 2"
    unfolding all_less_12 by (simp_all add: mode_letters_def)
  then show "i < 12 \<Longrightarrow> mode_letters ! i = CHR ''k'' \<longleftrightarrow> i = 1"
    "i < 12 \<Longrightarrow> mode_letters ! i = CHR ''l'' \<longleftrightarrow> i = 2" by blast+
qed

lemma wf_mode_keyword:
  "wf_mode m \<Longrightarrow> pModeStr m ! 1 = CHR ''k'' \<Longrightarrow> \<exists>k. pKeyword m = Some k \<and> word k"
  "wf_mode m \<Longrightarrow> pModeStr m ! 2 = CHR ''l'' \<Longrightarrow> \<exists>l. pLimit m = Some l \<and> word l"
  by (auto simp: wf_mode_def split: option.splits)

lemma wf_merge_mode:
  assumes "wf_mode new" "wf_mode old" "0 < i" "i < 12"
  shows "wf_mode (merge_mode new i old)"
proof (cases "pModeStr new ! i = SP")
  case True
  with assms(2) show ?thesis by (simp add: merge_mode_def Let_def)
next
  case False
  have c: "pModeStr new ! i = mode_letters ! i" using wf_new_letter[OF assms(1,4)] assms(3) False by simp
  consider "i = 1" | "i = 2" | "i \<noteq> 1" "i \<noteq> 2" by blast
  then show ?thesis
  proof cases
    case 1
    with c have m: "pModeStr new ! 1 = CHR ''k''" by (simp add: mode_letters_def)
    then obtain k where k: "pKeyword new = Some k" "word k" using wf_mode_keyword(1)[OF assms(1)] by blast
    with m 1 assms(2) wf_set_keyword[OF assms(2)] wf_drop_keyword[OF assms(2)] show ?thesis
      by (simp add: merge_mode_def Let_def)
  next
    case 2
    with c have m: "pModeStr new ! 2 = CHR ''l''" by (simp add: mode_letters_def)
    then obtain l where l: "pLimit new = Some l" "word l" using wf_mode_keyword(2)[OF assms(1)] by blast
    with m 2 assms(2) wf_set_limit[OF assms(2)] wf_drop_limit[OF assms(2)] show ?thesis
      by (simp add: merge_mode_def Let_def)
  next
    case 3
    then have nkl: "pModeStr new ! i \<noteq> CHR ''k''" "pModeStr new ! i \<noteq> CHR ''l''"
      using c mode_letters_k[OF assms(4)] mode_letters_l[OF assms(4)] by auto
    have "wf_mode (set_mode i (pModeStr new ! i) old)" "wf_mode (set_mode i SP old)"
      using wf_set_flag[OF assms(2)] 3 c by (auto simp: letter_ok_def)
    with nkl assms(2) show ?thesis by (simp add: merge_mode_def Let_def)
  qed
qed

lemma wf_merge_modes:
  assumes "wf_mode new" "wf_mode old"
  shows "wf_mode (merge_modes new old)"
proof -
  have "wf_mode (fold (merge_mode new) is old)" if "\<forall>i \<in> set is. 0 < i \<and> i < 12" "wf_mode old" for "is" old
    using that by (induction "is" arbitrary: old) (auto intro: wf_merge_mode[OF assms(1)])
  from this[of "[1..<MAX_MODES]", OF _ assms(2)]
  have "wf_mode (fold (merge_mode new) [1..<MAX_MODES] old)" by (auto simp: MAX_MODES_def)
  then show ?thesis
    by (simp add: merge_modes_def Let_def wf_set_flag letter_ok_def mode_letters_nth)
qed

section \<open>The buffer of ChannelModeToStr\<close>

text \<open>The text before trimming, with its terminator, fits into the allocated buffer.\<close>

lemma mode_text_fits:
  assumes "length (pModeStr m) = 12"
  shows "length (clearspace (pModeStr m)) + 1
    + (case pKeyword m of Some k \<Rightarrow> 1 + length k | None \<Rightarrow> 0)
    + (case pLimit m of Some l \<Rightarrow> 1 + length l | None \<Rightarrow> 0) \<le> mode_buffer_size m"
  using clearspace_length[of "pModeStr m"] assms
  by (auto simp: mode_buffer_size_def MAX_MODES_def split: option.splits)

lemma wf_parameters: "getParameters l = r \<Longrightarrow> field_ok r"
  using getParameters_trimmed[of l] getParameters_no_tab[of l]
  by (auto simp: field_ok_def split: option.splits)

section \<open>Properties\<close>

text \<open>C5: A channel record is read back exactly as it was written, for every well-formed record: its mode
  line with keyword and limit, its topic and its greeting.  The same holds for the mode line alone.\<close>

theorem record_round_trip:
  assumes "wf_data d"
  shows "(StrToChannelData (ChannelDataToStr d) = Some d)
    \<and> (StrToChannelMode (Some (ChannelModeToStr (sModes d))) = Some (sModes d))
    \<and> (getTopic (Some (ChannelDataToStr d)) = pTopic d)"
proof (rule all3; (intro impI)?)
  show d: "StrToChannelData (ChannelDataToStr d) = Some d" by (rule channel_records.dec_enc[OF assms])
  show "StrToChannelMode (Some (ChannelModeToStr (sModes d))) = Some (sModes d)"
    using assms by (intro modes.dec_enc) (simp add: wf_data_def)
  from d show "getTopic (Some (ChannelDataToStr d)) = pTopic d"
    by (cases d) (auto simp: StrToChannelData_def split: option.splits)
qed

lemma record_round_trip_witness:
  "getTopic (Some (ChannelDataToStr \<lparr>sModes = \<lparr>pModeStr = ''+k t        '', pKeyword = Some ''key'', pLimit = None\<rparr>,
     pTopic = Some ''hi all'', pGreeting = None\<rparr>)) = Some ''hi all''"
proof -
  have "wf_data \<lparr>sModes = \<lparr>pModeStr = ''+k t        '', pKeyword = Some ''key'', pLimit = None\<rparr>,
     pTopic = Some ''hi all'', pGreeting = None\<rparr>"
    unfolding wf_data_def wf_mode_def all_less_12 by (simp add: mode_letters_def word_def is_ws_def field_ok_def)
  from record_round_trip[OF this, THEN conjunct2, THEN conjunct2] show ?thesis by simp
qed

text \<open>\<open>ChannelModeToStr\<close> stays within the buffer it allocates, terminator included, for every mode
  string of the size the program uses, whatever the keyword and the limit.\<close>

lemma mode_buffer_bound:
  assumes "length (pModeStr m) = 12"
  shows "length (clearspace (pModeStr m)) + 1
    + (case pKeyword m of Some k \<Rightarrow> 1 + length k | None \<Rightarrow> 0)
    + (case pLimit m of Some l \<Rightarrow> 1 + length l | None \<Rightarrow> 0) \<le> mode_buffer_size m
    \<and> length (ChannelModeToStr m) < mode_buffer_size m"
proof (rule all2; (intro impI)?)
  note fits = mode_text_fits[OF assms]
  then show "length (clearspace (pModeStr m)) + 1
    + (case pKeyword m of Some k \<Rightarrow> 1 + length k | None \<Rightarrow> 0)
    + (case pLimit m of Some l \<Rightarrow> 1 + length l | None \<Rightarrow> 0) \<le> mode_buffer_size m" .
  show "length (ChannelModeToStr m) < mode_buffer_size m"
    unfolding ChannelModeToStr_def Let_def
    by (rule le_less_trans[OF trim_length]) (use fits in \<open>auto split: option.splits\<close>)
qed

lemma merge_mode_nth:
  assumes "length (pModeStr old) = 12" "i < 12"
  shows "length (pModeStr (merge_mode new i old)) = 12"
    and "pModeStr (merge_mode new i old) ! j = (if j = i \<and> pModeStr new ! i \<noteq> SP then
       (if pModeStr new ! MOD_TYPE = CHR ''+'' then pModeStr new ! i
        else if pModeStr new ! MOD_TYPE = CHR ''-'' then SP else pModeStr old ! j)
      else pModeStr old ! j)"
  using assms by (auto simp: merge_mode_def Let_def set_mode_def)

lemma fold_merge_nth:
  assumes "length (pModeStr old) = 12" "\<forall>i \<in> set js. i < 12"
  shows "length (pModeStr (fold (merge_mode new) js old)) = 12 \<and>
    pModeStr (fold (merge_mode new) js old) ! j = (if j \<in> set js \<and> pModeStr new ! j \<noteq> SP then
       (if pModeStr new ! MOD_TYPE = CHR ''+'' then pModeStr new ! j
        else if pModeStr new ! MOD_TYPE = CHR ''-'' then SP else pModeStr old ! j)
      else pModeStr old ! j)"
  using assms
proof (induction js arbitrary: old)
  case (Cons i js)
  have len: "length (pModeStr (merge_mode new i old)) = 12" using Cons.prems merge_mode_nth(1) by simp
  have i: "i < 12" "\<forall>i \<in> set js. i < 12" using Cons.prems(2) by simp_all
  show ?case
    using Cons.IH[OF len i(2)] merge_mode_nth(2)[OF Cons.prems(1) i(1), of new j] by auto
qed simp

text \<open>C37: The merge of a mode change for \<open>!chanmode\<close> sets or clears exactly the named modes with index 1 to 10
  and leaves every other mode as it was; the invite mode, which has index 11, is never changed.  Keyword and
  limit stay consistent with their letters: merging well-formed values gives a well-formed value.\<close>

theorem merge_effect:
  assumes "wf_mode new" "wf_mode old"
  shows "wf_mode (merge_modes new old)
    \<and> (0 < i \<longrightarrow> i < 12 \<longrightarrow> pModeStr (merge_modes new old) ! i =
      (if i < MOD_INVITE \<and> pModeStr new ! i \<noteq> SP then
         (if pModeStr new ! MOD_TYPE = CHR ''+'' then mode_letters ! i
          else if pModeStr new ! MOD_TYPE = CHR ''-'' then SP else pModeStr old ! i)
       else pModeStr old ! i))"
proof (rule all2; (intro impI)?)
  show "wf_mode (merge_modes new old)" by (rule wf_merge_modes[OF assms])
  have len: "length (pModeStr old) = 12" using assms(2) by (simp add: wf_mode_def)
  assume i: "0 < i" "i < 12"
  have l: "pModeStr new ! i = mode_letters ! i" if "pModeStr new ! i \<noteq> SP"
    using wf_new_letter[OF assms(1) i(2)] i(1) that by simp
  have "pModeStr (merge_modes new old) ! i = pModeStr (fold (merge_mode new) [1..<MAX_MODES] old) ! i"
    using i(1) by (simp add: merge_modes_def Let_def set_mode_def)
  also have "\<dots> = (if i < MOD_INVITE \<and> pModeStr new ! i \<noteq> SP then
         (if pModeStr new ! MOD_TYPE = CHR ''+'' then mode_letters ! i
          else if pModeStr new ! MOD_TYPE = CHR ''-'' then SP else pModeStr old ! i)
       else pModeStr old ! i)"
    using fold_merge_nth[OF len, of "[1..<MAX_MODES]" new i] l i
    by (auto simp: MAX_MODES_def MOD_INVITE_def)
  finally show "pModeStr (merge_modes new old) ! i = \<dots>" .
qed

lemma merge_effect_witness:
  "pModeStr (merge_modes \<lparr>pModeStr = ''+  t       i'', pKeyword = None, pLimit = None\<rparr>
     \<lparr>pModeStr = blank_modes, pKeyword = None, pLimit = None\<rparr>) ! 11 = SP"
proof -
  have w: "wf_mode \<lparr>pModeStr = ''+  t       i'', pKeyword = None, pLimit = None\<rparr>"
    unfolding wf_mode_def all_less_12 by (simp add: mode_letters_def)
  from merge_effect[OF w wf_blank, of 11, THEN conjunct2] show ?thesis by (simp add: MOD_INVITE_def blank_modes_def)
qed

end
