(* ===== verification/Chains.thy ===== *)
theory Chains
  imports Prelude
begin

text \<open>
  Doubly linked chains in a heap, shared by the message queue and the callback list.  A heap maps
  addresses to nodes, a pointer is an address or the null pointer (\<open>None\<close>), and reading or
  writing through a pointer that is null or not allocated is undefined (\<open>None\<close>).  Both
  structures are rings: the queue closes through its sentinel node, the callback list through
  the list head, which takes the place of the null pointer at both ends.
\<close>

type_synonym ptr = "nat option"
type_synonym 'n heap = "nat \<Rightarrow> 'n option"

definition deref :: "'n heap \<Rightarrow> ptr \<Rightarrow> 'n c_result" where
  "deref h p = (case p of None \<Rightarrow> None | Some a \<Rightarrow> h a)"

definition assign :: "'n heap \<Rightarrow> ptr \<Rightarrow> ('n \<Rightarrow> 'n) \<Rightarrow> 'n heap c_result" where
  "assign h p f = (case p of None \<Rightarrow> None
     | Some a \<Rightarrow> (case h a of None \<Rightarrow> None | Some n \<Rightarrow> Some (h(a \<mapsto> f n))))"

definition release :: "'n heap \<Rightarrow> ptr \<Rightarrow> 'n heap" where
  "release h p = (case p of None \<Rightarrow> h | Some a \<Rightarrow> h(a := None))"

lemma deref_simps [simp]: "deref h None = None" "deref h (Some a) = h a"
  by (simp_all add: deref_def)

lemma assign_simps [simp]:
  "assign h None f = None" "h a = Some n \<Longrightarrow> assign h (Some a) f = Some (h(a \<mapsto> f n))"
  by (simp_all add: assign_def)

lemma release_simps [simp]: "release h None = h" "release h (Some a) = h(a := None)"
  by (simp_all add: release_def)

section \<open>Segments\<close>

text \<open>
  \<open>dseg nx pv p xs q\<close>: following \<open>nx\<close> from \<open>p\<close> visits \<open>xs\<close> and arrives at \<open>q\<close>, and \<open>pv\<close>
  leads back along the same way.
\<close>

fun dseg :: "('p \<Rightarrow> 'p) \<Rightarrow> ('p \<Rightarrow> 'p) \<Rightarrow> 'p \<Rightarrow> 'p list \<Rightarrow> 'p \<Rightarrow> bool" where
  "dseg nx pv p [] q \<longleftrightarrow> nx p = q \<and> pv q = p"
| "dseg nx pv p (x # xs) q \<longleftrightarrow> nx p = x \<and> pv x = p \<and> dseg nx pv x xs q"

lemma dseg_append: "dseg nx pv p (xs @ x # ys) q \<longleftrightarrow> dseg nx pv p xs x \<and> dseg nx pv x ys q"
  by (induction xs arbitrary: p) auto

lemma dseg_frame:
  "\<forall>x \<in> set (p # xs). nx' x = nx x \<Longrightarrow> \<forall>x \<in> set (xs @ [q]). pv' x = pv x
   \<Longrightarrow> dseg nx' pv' p xs q = dseg nx pv p xs q"
  by (induction xs arbitrary: p) auto

lemma dseg_first: "dseg nx pv p xs q \<Longrightarrow> nx p = hd (xs @ [q])"
  by (cases xs) auto

lemma dseg_last: "dseg nx pv p xs q \<Longrightarrow> pv q = last (p # xs)"
  by (induction xs arbitrary: p) auto

lemma dseg_nth:
  "dseg nx pv p xs q \<Longrightarrow> i < length xs \<Longrightarrow> nx (xs ! i) = (xs @ [q]) ! Suc i \<and> pv (xs ! i) = (p # xs) ! i"
proof (induction xs arbitrary: p i)
  case (Cons x xs)
  show ?case
  proof (cases i)
    case 0
    with Cons.prems show ?thesis using dseg_first[of nx pv x xs q] by (cases xs) auto
  next
    case (Suc j)
    with Cons show ?thesis by auto
  qed
qed simp

text \<open>A ring through the anchor \<open>s\<close>: from \<open>s\<close> over \<open>xs\<close> back to \<open>s\<close>.\<close>

definition ring :: "('p \<Rightarrow> 'p) \<Rightarrow> ('p \<Rightarrow> 'p) \<Rightarrow> 'p \<Rightarrow> 'p list \<Rightarrow> bool" where
  "ring nx pv s xs \<longleftrightarrow> distinct (s # xs) \<and> dseg nx pv s xs s"

lemma ring_Nil: "ring nx pv s [] \<longleftrightarrow> nx s = s \<and> pv s = s"
  by (simp add: ring_def)

lemma ring_first: "ring nx pv s xs \<Longrightarrow> nx s = hd (xs @ [s])"
  using dseg_first by (auto simp: ring_def)

lemma ring_last: "ring nx pv s xs \<Longrightarrow> pv s = last (s # xs)"
  using dseg_last by (fastforce simp: ring_def)

lemma ring_split:
  "ring nx pv s (xs @ a # ys) \<Longrightarrow> nx a = hd (ys @ [s]) \<and> pv a = last (s # xs)"
  using dseg_first[of nx pv a ys s] dseg_last[of nx pv s xs a]
  by (auto simp: ring_def dseg_append)

lemma dseg_insert:
  assumes "dseg nx pv p xs q" "distinct (p # xs)" "q \<notin> set xs" "a \<notin> set (p # xs)" "a \<noteq> q"
  shows "dseg (nx(p := a, a := hd (xs @ [q]))) (pv(a := p, hd (xs @ [q]) := a)) p (a # xs) q"
proof (cases xs)
  case Nil
  with assms show ?thesis by auto
next
  case (Cons y ys)
  have "dseg nx pv y ys q" using assms(1) Cons by simp
  moreover have "dseg (nx(p := a, a := y)) (pv(a := p, y := a)) y ys q = dseg nx pv y ys q"
    using assms Cons by (intro dseg_frame) auto
  ultimately show ?thesis using Cons assms by auto
qed

text \<open>Linking a new node \<open>a\<close> in between \<open>xs\<close> and \<open>ys\<close>.\<close>

lemma ring_insert:
  assumes "ring nx pv s (xs @ ys)" "a \<notin> set (s # xs @ ys)"
    and l: "l = last (s # xs)" and r: "r = hd (ys @ [s])"
  shows "ring (nx(l := a, a := r)) (pv(a := l, r := a)) s (xs @ a # ys)"
proof (cases xs rule: rev_cases)
  case Nil
  with assms dseg_insert[of nx pv s ys s a] show ?thesis by (auto simp: ring_def)
next
  case (snoc ws w)
  have d: "dseg nx pv s ws w" "dseg nx pv w ys s"
    using assms(1) snoc by (auto simp: ring_def dseg_append)
  have lw: "l = w" using l snoc by simp
  have rys: "r \<in> set ys \<or> r = s" using r by (cases ys) auto
  have dist: "distinct (s # ws @ w # ys)" using assms(1) snoc by (simp add: ring_def)
  have "dseg (nx(l := a, a := r)) (pv(a := l, r := a)) s ws w = dseg nx pv s ws w"
    using dist assms(2) snoc lw rys by (intro dseg_frame) auto
  moreover have "dseg (nx(w := a, a := r)) (pv(a := w, r := a)) w (a # ys) s"
    unfolding r using d(2) dist assms(2) snoc by (intro dseg_insert) auto
  ultimately show ?thesis using d(1) dist assms(2) snoc lw
    by (auto simp: ring_def dseg_append)
qed

lemma dseg_remove:
  assumes "dseg nx pv p (a # xs) q" "distinct (p # a # xs)" "q \<notin> set (a # xs)"
  shows "dseg (nx(p := hd (xs @ [q]))) (pv(hd (xs @ [q]) := p)) p xs q"
proof (cases xs)
  case (Cons y ys)
  have "dseg (nx(p := y)) (pv(y := p)) y ys q = dseg nx pv y ys q"
    using assms Cons by (intro dseg_frame) auto
  then show ?thesis using Cons assms by auto
qed simp

text \<open>Unlinking the node \<open>a\<close>.\<close>

lemma ring_remove:
  assumes "ring nx pv s (xs @ a # ys)" and l: "l = last (s # xs)" and r: "r = hd (ys @ [s])"
  shows "ring (nx(l := r)) (pv(r := l)) s (xs @ ys)"
proof (cases xs rule: rev_cases)
  case Nil
  with assms dseg_remove[of nx pv s a ys s] show ?thesis by (auto simp: ring_def)
next
  case (snoc ws w)
  have d: "dseg nx pv s ws w" "dseg nx pv w (a # ys) s"
    using assms(1) snoc by (auto simp: ring_def dseg_append)
  have dist: "distinct (s # ws @ w # a # ys)" using assms(1) snoc by (simp add: ring_def)
  have rys: "r \<in> set ys \<or> r = s" using r by (cases ys) auto
  have lw: "l = w" using l snoc by simp
  have "dseg (nx(l := r)) (pv(r := l)) s ws w = dseg nx pv s ws w"
    using dist lw rys by (intro dseg_frame) auto
  moreover have "dseg (nx(w := r)) (pv(r := w)) w ys s"
    unfolding r using d(2) dist by (intro dseg_remove) auto
  ultimately show ?thesis using d(1) dist snoc lw by (auto simp: ring_def dseg_append)
qed

lemma ring_cong:
  "\<forall>x \<in> set (s # xs). nx' x = nx x \<and> pv' x = pv x \<Longrightarrow> ring nx' pv' s xs = ring nx pv s xs"
  unfolding ring_def by (subst dseg_frame[of s xs nx' nx s pv' pv]) auto

end
