(* ===== verification/CallbackList.thy ===== *)
theory CallbackList
  imports Chains
begin

text \<open>
  The callback list of \<open>callbacklist.c\<close>: a doubly linked list with a head, a tail and a size.
  The list head takes the place of the null pointer at both ends, so that the links form a ring
  and the operations refine those of a list of items.  Each operation holds the list's mutex, so
  it is one step.
\<close>

section \<open>Data\<close>

datatype CallbackFkt_t = ModeResetCb_F | SetBanCb_F | KickCb_F

record CallbackItem_t =
  nickname :: string
  CallbackFkt :: CallbackFkt_t
  cb_data :: string

record CallbackDListItem =
  i_data :: CallbackItem_t
  i_prev :: ptr
  i_next :: ptr

record CallbackDList =
  cb_size :: int
  cb_head :: ptr
  cb_tail :: ptr

abbreviation INT_MAX :: int where "INT_MAX \<equiv> 2147483647"

type_synonym item_heap = "CallbackDListItem heap"
type_synonym cb_state = "CallbackDList \<times> item_heap"

section \<open>Operations\<close>

definition init_extended_CallbackDList :: "CallbackDList \<Rightarrow> CallbackDList" where
  "init_extended_CallbackDList L = L\<lparr>cb_size := 0, cb_head := None, cb_tail := None\<rparr>"

text \<open>Incrementing a size of \<open>INT_MAX\<close> overflows.\<close>

definition size_inc :: "CallbackDList \<Rightarrow> CallbackDList c_result" where
  "size_inc L = (if cb_size L < INT_MAX then Some (L\<lparr>cb_size := cb_size L + 1\<rparr>) else None)"

definition insert_next_CallbackDList ::
  "nat option \<Rightarrow> cb_state \<Rightarrow> ptr \<Rightarrow> CallbackItem_t \<Rightarrow> (int \<times> cb_state) c_result" where
  "insert_next_CallbackDList m = (\<lambda>(L, h) element d.
     if element = None \<and> cb_size L \<noteq> 0 then Some (-1, L, h)
     else (case m of None \<Rightarrow> Some (-1, L, h)
       | Some a \<Rightarrow>
         if cb_size L = 0 then do {
           L \<leftarrow> size_inc (L\<lparr>cb_head := Some a, cb_tail := Some a\<rparr>);
           Some (0, L, h(a \<mapsto> \<lparr>i_data = d, i_prev = None, i_next = None\<rparr>)) }
         else do {
           e \<leftarrow> deref h element;
           let h = h(a \<mapsto> \<lparr>i_data = d, i_prev = element, i_next = i_next e\<rparr>);
           (L, h) \<leftarrow> (if i_next e = None then Some (L\<lparr>cb_tail := Some a\<rparr>, h)
             else do { h \<leftarrow> assign h (i_next e) (\<lambda>n. n\<lparr>i_prev := Some a\<rparr>); Some (L, h) });
           h \<leftarrow> assign h element (\<lambda>n. n\<lparr>i_next := Some a\<rparr>);
           L \<leftarrow> size_inc L;
           Some (0, L, h) }))"

definition insert_prev_CallbackDList ::
  "nat option \<Rightarrow> cb_state \<Rightarrow> ptr \<Rightarrow> CallbackItem_t \<Rightarrow> (int \<times> cb_state) c_result" where
  "insert_prev_CallbackDList m = (\<lambda>(L, h) element d.
     if element = None \<and> cb_size L \<noteq> 0 then Some (-1, L, h)
     else (case m of None \<Rightarrow> Some (-1, L, h)
       | Some a \<Rightarrow>
         if cb_size L = 0 then do {
           L \<leftarrow> size_inc (L\<lparr>cb_head := Some a, cb_tail := Some a\<rparr>);
           Some (0, L, h(a \<mapsto> \<lparr>i_data = d, i_prev = None, i_next = None\<rparr>)) }
         else do {
           e \<leftarrow> deref h element;
           let h = h(a \<mapsto> \<lparr>i_data = d, i_prev = i_prev e, i_next = element\<rparr>);
           (L, h) \<leftarrow> (if i_prev e = None then Some (L\<lparr>cb_head := Some a\<rparr>, h)
             else do { h \<leftarrow> assign h (i_prev e) (\<lambda>n. n\<lparr>i_next := Some a\<rparr>); Some (L, h) });
           h \<leftarrow> assign h element (\<lambda>n. n\<lparr>i_prev := Some a\<rparr>);
           L \<leftarrow> size_inc L;
           Some (0, L, h) }))"

text \<open>The data goes to the caller through a pointer; it is not set on failure.\<close>

definition removeCallbackDList ::
  "cb_state \<Rightarrow> ptr \<Rightarrow> (int \<times> CallbackItem_t option \<times> cb_state) c_result" where
  "removeCallbackDList = (\<lambda>(L, h) element.
     if element = None \<or> cb_size L = 0 then Some (-1, None, L, h)
     else do {
       e \<leftarrow> deref h element;
       (L, h) \<leftarrow> (if element = cb_head L then
           (let L = L\<lparr>cb_head := i_next e\<rparr> in
            if cb_head L = None then Some (L\<lparr>cb_tail := None\<rparr>, h)
            else do { h \<leftarrow> assign h (i_next e) (\<lambda>n. n\<lparr>i_prev := None\<rparr>); Some (L, h) })
         else do {
           h \<leftarrow> assign h (i_prev e) (\<lambda>n. n\<lparr>i_next := i_next e\<rparr>);
           (if i_next e = None then Some (L\<lparr>cb_tail := i_prev e\<rparr>, h)
            else do { h \<leftarrow> assign h (i_next e) (\<lambda>n. n\<lparr>i_prev := i_prev e\<rparr>); Some (L, h) }) });
       Some (0, Some (i_data e), L\<lparr>cb_size := cb_size L - 1\<rparr>, release h element) })"

text \<open>The search loops: towards the tail, or from the tail towards the head.\<close>

partial_function (option) search_next :: "item_heap \<Rightarrow> ptr \<Rightarrow> string \<Rightarrow> ptr c_result" where
  "search_next h temp nick = do {
     e \<leftarrow> deref h temp;
     if \<not> strcasecmp_eq (nickname (i_data e)) nick \<and> i_next e \<noteq> None
     then search_next h (i_next e) nick else Some temp }"

partial_function (option) search_prev :: "item_heap \<Rightarrow> ptr \<Rightarrow> string \<Rightarrow> ptr c_result" where
  "search_prev h temp nick = do {
     e \<leftarrow> deref h temp;
     if \<not> strcasecmp_eq (nickname (i_data e)) nick \<and> i_prev e \<noteq> None
     then search_prev h (i_prev e) nick else Some temp }"

definition searchNicknameFromCallbackDList :: "cb_state \<Rightarrow> ptr \<Rightarrow> string \<Rightarrow> ptr c_result" where
  "searchNicknameFromCallbackDList = (\<lambda>(L, h) element nick.
     if cb_head L = None \<or> cb_tail L = None \<or> cb_size L = 0 then Some None
     else if element = None then Some None
     else do {
       e \<leftarrow> deref h element;
       temp \<leftarrow> (if i_prev e = None then search_next h element nick
         else if i_next e = None then search_prev h element nick
         else search_next h element nick);
       t \<leftarrow> deref h temp;
       Some (if strcasecmp_eq (nickname (i_data t)) nick then temp else None) })"

text \<open>The loop of \<open>destroyCallbackDList\<close>; the removed items are freed.\<close>

partial_function (option) destroy_loop :: "cb_state \<Rightarrow> cb_state c_result" where
  "destroy_loop st = (if cb_size (fst st) > 0 then do {
     (r, d, st) \<leftarrow> removeCallbackDList st (cb_tail (fst st));
     destroy_loop st } else Some st)"

definition destroyCallbackDList :: "cb_state \<Rightarrow> cb_state c_result" where
  "destroyCallbackDList st = do {
     (L, h) \<leftarrow> destroy_loop st; Some (\<lparr>cb_size = 0, cb_head = None, cb_tail = None\<rparr>, h) }"

section \<open>The list behind the pointers\<close>

definition cnx :: "cb_state \<Rightarrow> ptr \<Rightarrow> ptr" where
  "cnx st p = (case p of None \<Rightarrow> cb_head (fst st)
     | Some a \<Rightarrow> (case snd st a of None \<Rightarrow> None | Some n \<Rightarrow> i_next n))"

definition cpv :: "cb_state \<Rightarrow> ptr \<Rightarrow> ptr" where
  "cpv st p = (case p of None \<Rightarrow> cb_tail (fst st)
     | Some a \<Rightarrow> (case snd st a of None \<Rightarrow> None | Some n \<Rightarrow> i_prev n))"

definition item_at :: "item_heap \<Rightarrow> nat \<Rightarrow> CallbackItem_t \<Rightarrow> bool" where
  "item_at h a d \<longleftrightarrow> (\<exists>n. h a = Some n \<and> i_data n = d)"

text \<open>The nodes \<open>as\<close>, from head to tail, hold the items \<open>ds\<close>.\<close>

definition list_ok :: "cb_state \<Rightarrow> nat list \<Rightarrow> CallbackItem_t list \<Rightarrow> bool" where
  "list_ok st as ds \<longleftrightarrow> ring (cnx st) (cpv st) None (map Some as)
     \<and> cb_size (fst st) = int (length as) \<and> list_all2 (item_at (snd st)) as ds"

lemma cnx_simps [simp]:
  "cnx (L, h) None = cb_head L" "h a = Some n \<Longrightarrow> cnx (L, h) (Some a) = i_next n"
  by (simp_all add: cnx_def)

lemma cpv_simps [simp]:
  "cpv (L, h) None = cb_tail L" "h a = Some n \<Longrightarrow> cpv (L, h) (Some a) = i_prev n"
  by (simp_all add: cpv_def)

lemma list_ok_distinct: "list_ok st as ds \<Longrightarrow> distinct as"
  by (auto simp: list_ok_def ring_def distinct_map)

lemma list_ok_length: "list_ok st as ds \<Longrightarrow> length ds = length as"
  by (auto simp: list_ok_def dest: list_all2_lengthD)

lemma list_ok_item:
  assumes "list_ok (L, h) as ds" "i < length as"
  obtains n where "h (as ! i) = Some n" "i_data n = ds ! i"
  using assms by (auto simp: list_ok_def list_all2_conv_all_nth item_at_def)

lemma list_ok_alloc: "list_ok (L, h) as ds \<Longrightarrow> a \<in> set as \<Longrightarrow> \<exists>n. h a = Some n"
  using list_ok_item by (metis in_set_conv_nth)

lemma list_ok_ends:
  assumes "list_ok (L, h) as ds"
  shows "cb_head L = hd (map Some as @ [None])" "cb_tail L = last (None # map Some as)"
    "cb_size L = int (length as)"
  using assms ring_first[of "cnx (L, h)" "cpv (L, h)" None "map Some as"]
    ring_last[of "cnx (L, h)" "cpv (L, h)" None "map Some as"] by (auto simp: list_ok_def)

lemma list_ok_links:
  assumes "list_ok (L, h) (xs @ a # ys) ds" "h a = Some n"
  shows "i_next n = hd (map Some ys @ [None])" "i_prev n = last (None # map Some xs)"
  using assms ring_split[of "cnx (L, h)" "cpv (L, h)" None "map Some xs" "Some a" "map Some ys"]
  by (auto simp: list_ok_def)

lemma items_frame:
  "list_all2 (item_at h) as ds \<Longrightarrow>
   \<forall>a \<in> set as. \<forall>n. h a = Some n \<longrightarrow> (\<exists>n'. h' a = Some n' \<and> i_data n' = i_data n)
   \<Longrightarrow> list_all2 (item_at h') as ds"
  by (erule list.rel_mono_strong) (fastforce simp: item_at_def)

lemma init_list_ok: "list_ok (init_extended_CallbackDList L, h) [] []"
  by (simp add: list_ok_def ring_Nil init_extended_CallbackDList_def)

section \<open>The operations refine those of a list\<close>

lemma size_inc_ok: "cb_size L < INT_MAX \<Longrightarrow> size_inc L = Some (L\<lparr>cb_size := cb_size L + 1\<rparr>)"
  by (simp add: size_inc_def)

lemma insert_empty_ok:
  assumes "list_ok (L, h) [] []"
  shows "\<exists>st'. insert_next_CallbackDList (Some a) (L, h) p d = Some (0, st') \<and> list_ok st' [a] [d]
      \<and> dom (snd st') = insert a (dom h)"
    and "\<exists>st'. insert_prev_CallbackDList (Some a) (L, h) p d = Some (0, st') \<and> list_ok st' [a] [d]
      \<and> dom (snd st') = insert a (dom h)"
  using list_ok_ends[OF assms]
  by (simp_all add: insert_next_CallbackDList_def insert_prev_CallbackDList_def size_inc_ok
      list_ok_def ring_def item_at_def cnx_def cpv_def)

lemma insert_between_ok:
  assumes ok: "list_ok (L, h) (xs @ ys) (dx @ dy)" and len: "length dx = length xs"
    and a: "a \<notin> dom h"
    and nx: "cnx (L', h') = (cnx (L, h))(last (None # map Some xs) := Some a, Some a := hd (map Some ys @ [None]))"
    and pv: "cpv (L', h') = (cpv (L, h))(Some a := last (None # map Some xs), hd (map Some ys @ [None]) := Some a)"
    and size: "cb_size L' = cb_size L + 1"
    and items: "\<forall>b n. h b = Some n \<longrightarrow> (\<exists>n'. h' b = Some n' \<and> i_data n' = i_data n)" "item_at h' a d"
  shows "list_ok (L', h') (xs @ a # ys) (dx @ d # dy)"
proof -
  have "ring (cnx (L, h)) (cpv (L, h)) None (map Some xs @ map Some ys)"
    using ok by (simp add: list_ok_def)
  moreover have "Some a \<notin> set (None # map Some xs @ map Some ys)"
    using list_ok_alloc[OF ok] a by auto
  ultimately have "ring (cnx (L', h')) (cpv (L', h')) None (map Some (xs @ a # ys))"
    unfolding nx pv by (simp add: ring_insert)
  moreover have "list_all2 (item_at h') (xs @ ys) (dx @ dy)"
    using ok items(1) by (intro items_frame[of h "xs @ ys" "dx @ dy" h']) (auto simp: list_ok_def)
  then have "list_all2 (item_at h') xs dx" "list_all2 (item_at h') ys dy"
    using list_all2_append[OF len[symmetric], of "item_at h'" ys dy] by auto
  ultimately show ?thesis using size items(2) ok
    by (simp add: list_ok_def list_all2_appendI)
qed

lemma insert_next_ok:
  assumes ok: "list_ok (L, h) (xs @ e # ys) (dx @ de # dy)" and len: "length dx = length xs"
    and a: "a \<notin> dom h" and bound: "length (xs @ e # ys) < 2147483647"
  shows "\<exists>st'. insert_next_CallbackDList (Some a) (L, h) (Some e) d = Some (0, st')
      \<and> list_ok st' (xs @ e # a # ys) (dx @ de # d # dy) \<and> dom (snd st') = insert a (dom h)"
proof -
  obtain n where n: "h e = Some n" using list_ok_alloc[OF ok, of e] by auto
  have nxt: "i_next n = hd (map Some ys @ [None])" using list_ok_links(1)[OF ok n] .
  have ae: "a \<noteq> e" and aN: "h a = None" using a n by auto
  have size: "cb_size L = int (length (xs @ e # ys))" using list_ok_ends(3)[OF ok] .
  let ?h = "h(a \<mapsto> \<lparr>i_data = d, i_prev = Some e, i_next = i_next n\<rparr>)"
  have ok': "list_ok (L, h) ((xs @ [e]) @ ys) ((dx @ [de]) @ dy)" using ok by simp
  show ?thesis
  proof (cases ys)
    case Nil
    let ?L = "L\<lparr>cb_tail := Some a, cb_size := cb_size L + 1\<rparr>"
    let ?h' = "?h(e \<mapsto> n\<lparr>i_next := Some a\<rparr>)"
    have "insert_next_CallbackDList (Some a) (L, h) (Some e) d = Some (0, ?L, ?h')"
      using n nxt ae size bound Nil
      by (simp add: insert_next_CallbackDList_def size_inc_ok)
    moreover have "list_ok (?L, ?h') ((xs @ [e]) @ a # ys) ((dx @ [de]) @ d # dy)"
      using n nxt ae aN len Nil
      by (intro insert_between_ok[OF ok' _ a])
        (auto simp: cnx_def cpv_def item_at_def intro!: ext split: option.splits)
    ultimately show ?thesis using n by auto
  next
    case (Cons y zs)
    obtain m where m: "h y = Some m" using list_ok_alloc[OF ok, of y] Cons by auto
    have y: "y \<noteq> e" "y \<noteq> a" "i_next n = Some y" using list_ok_distinct[OF ok] Cons m a nxt by auto
    let ?L = "L\<lparr>cb_size := cb_size L + 1\<rparr>"
    let ?h' = "?h(y \<mapsto> m\<lparr>i_prev := Some a\<rparr>, e \<mapsto> n\<lparr>i_next := Some a\<rparr>)"
    have "insert_next_CallbackDList (Some a) (L, h) (Some e) d = Some (0, ?L, ?h')"
      using n y m ae size bound Cons
      by (simp add: insert_next_CallbackDList_def size_inc_ok)
    moreover have "list_ok (?L, ?h') ((xs @ [e]) @ a # ys) ((dx @ [de]) @ d # dy)"
      using n m y ae aN len Cons
      by (intro insert_between_ok[OF ok' _ a])
        (auto simp: cnx_def cpv_def item_at_def intro!: ext split: option.splits)
    ultimately show ?thesis using n m by auto
  qed
qed

lemma insert_prev_ok:
  assumes ok: "list_ok (L, h) (xs @ e # ys) (dx @ de # dy)" and len: "length dx = length xs"
    and a: "a \<notin> dom h" and bound: "length (xs @ e # ys) < 2147483647"
  shows "\<exists>st'. insert_prev_CallbackDList (Some a) (L, h) (Some e) d = Some (0, st')
      \<and> list_ok st' (xs @ a # e # ys) (dx @ d # de # dy) \<and> dom (snd st') = insert a (dom h)"
proof -
  obtain n where n: "h e = Some n" using list_ok_alloc[OF ok, of e] by auto
  have prv: "i_prev n = last (None # map Some xs)" using list_ok_links(2)[OF ok n] .
  have ae: "a \<noteq> e" and aN: "h a = None" using a n by auto
  have size: "cb_size L = int (length (xs @ e # ys))" using list_ok_ends(3)[OF ok] .
  let ?h = "h(a \<mapsto> \<lparr>i_data = d, i_prev = i_prev n, i_next = Some e\<rparr>)"
  show ?thesis
  proof (cases xs rule: rev_cases)
    case Nil
    let ?L = "L\<lparr>cb_head := Some a, cb_size := cb_size L + 1\<rparr>"
    let ?h' = "?h(e \<mapsto> n\<lparr>i_prev := Some a\<rparr>)"
    have "insert_prev_CallbackDList (Some a) (L, h) (Some e) d = Some (0, ?L, ?h')"
      using n prv ae size bound Nil
      by (simp add: insert_prev_CallbackDList_def size_inc_ok)
    moreover have "list_ok (?L, ?h') (xs @ a # e # ys) (dx @ d # de # dy)"
      using n prv ae aN len Nil
      by (intro insert_between_ok[OF ok _ a])
        (auto simp: cnx_def cpv_def item_at_def intro!: ext split: option.splits)
    ultimately show ?thesis using n by auto
  next
    case (snoc ws w)
    obtain m where m: "h w = Some m" using list_ok_alloc[OF ok, of w] snoc by auto
    have w: "w \<noteq> e" "w \<noteq> a" "i_prev n = Some w"
      using list_ok_distinct[OF ok] snoc m a prv by auto
    let ?L = "L\<lparr>cb_size := cb_size L + 1\<rparr>"
    let ?h' = "?h(w \<mapsto> m\<lparr>i_next := Some a\<rparr>, e \<mapsto> n\<lparr>i_prev := Some a\<rparr>)"
    have "insert_prev_CallbackDList (Some a) (L, h) (Some e) d = Some (0, ?L, ?h')"
      using n w m ae size bound snoc
      by (simp add: insert_prev_CallbackDList_def size_inc_ok)
    moreover have "list_ok (?L, ?h') (xs @ a # e # ys) (dx @ d # de # dy)"
      using n m w ae aN len snoc
      by (intro insert_between_ok[OF ok _ a])
        (auto simp: cnx_def cpv_def item_at_def intro!: ext split: option.splits)
    ultimately show ?thesis using n m by auto
  qed
qed


lemma remove_ok:
  assumes ok: "list_ok (L, h) (xs @ e # ys) (dx @ de # dy)" and len: "length dx = length xs"
  shows "\<exists>st'. removeCallbackDList (L, h) (Some e) = Some (0, Some de, st')
      \<and> list_ok st' (xs @ ys) (dx @ dy) \<and> dom (snd st') = dom h - {e}"
proof -
  obtain n where n: "h e = Some n" "i_data n = de"
    using list_ok_item[OF ok, of "length xs"] len by (auto simp: nth_append)
  note links = list_ok_links[OF ok n(1)] and ends = list_ok_ends[OF ok]
  have dist: "distinct (xs @ e # ys)" using list_ok_distinct[OF ok] .
  have ring: "ring (cnx (L, h)) (cpv (L, h)) None (map Some xs @ Some e # map Some ys)"
    using ok by (simp add: list_ok_def)
  have elems: "list_all2 (item_at h) (xs @ ys) (dx @ dy)"
    using ok list_all2_append[OF len[symmetric], of "item_at h" "e # ys" "de # dy"]
    by (auto simp: list_ok_def intro: list_all2_appendI)
  let ?l = "last (None # map Some xs)" and ?r = "hd (map Some ys @ [None])"
  have result: "list_ok (L', h'(e := None)) (xs @ ys) (dx @ dy)"
    if "cnx (L', h') = (cnx (L, h))(?l := ?r)" "cpv (L', h') = (cpv (L, h))(?r := ?l)"
      "cb_size L' = cb_size L - 1" "\<forall>b n. h b = Some n \<longrightarrow> (\<exists>n'. h' b = Some n' \<and> i_data n' = i_data n)"
    for L' h'
  proof -
    have "ring (cnx (L', h')) (cpv (L', h')) None (map Some xs @ map Some ys)"
      unfolding that(1,2) by (rule ring_remove[OF ring refl refl])
    then have "ring (cnx (L', h'(e := None))) (cpv (L', h'(e := None))) None (map Some (xs @ ys))"
      using dist by (subst ring_cong[of _ _ _ "cnx (L', h')" _ "cpv (L', h')"])
        (auto simp: cnx_def cpv_def)
    moreover have "list_all2 (item_at (h'(e := None))) (xs @ ys) (dx @ dy)"
      by (rule items_frame[OF elems]) (use that(4) dist in auto)
    ultimately show ?thesis using that(3) ends(3) by (simp add: list_ok_def)
  qed
  show ?thesis
  proof (cases xs rule: rev_cases)
    case Nil
    have hd: "cb_head L = Some e" using ends(1) Nil by simp
    show ?thesis
    proof (cases ys)
      case Nil': Nil
      let ?L = "L\<lparr>cb_head := None, cb_tail := None, cb_size := cb_size L - 1\<rparr>"
      have "removeCallbackDList (L, h) (Some e) = Some (0, Some de, ?L, h(e := None))"
        using n links ends hd Nil Nil' by (simp add: removeCallbackDList_def)
      moreover have "list_ok (?L, h(e := None)) (xs @ ys) (dx @ dy)"
        using Nil Nil' by (intro result) (auto simp: cnx_def cpv_def intro!: ext split: option.splits)
      ultimately show ?thesis by auto
    next
      case (Cons y zs)
      obtain m where m: "h y = Some m" using list_ok_alloc[OF ok, of y] Cons by auto
      let ?L = "L\<lparr>cb_head := Some y, cb_size := cb_size L - 1\<rparr>" and ?h = "h(y \<mapsto> m\<lparr>i_prev := None\<rparr>)"
      have "removeCallbackDList (L, h) (Some e) = Some (0, Some de, ?L, ?h(e := None))"
        using n links ends hd Nil Cons m by (simp add: removeCallbackDList_def)
      moreover have "list_ok (?L, ?h(e := None)) (xs @ ys) (dx @ dy)"
        using Nil Cons m by (intro result) (auto simp: cnx_def cpv_def intro!: ext split: option.splits)
      ultimately show ?thesis using m by auto
    qed
  next
    case (snoc ws w)
    obtain k where k: "h w = Some k" using list_ok_alloc[OF ok, of w] snoc by auto
    have hd: "cb_head L \<noteq> Some e" using ends(1) snoc dist by (cases ws) auto
    have w: "w \<noteq> e" "i_prev n = Some w" using dist snoc links by auto
    let ?h1 = "h(w \<mapsto> k\<lparr>i_next := i_next n\<rparr>)"
    show ?thesis
    proof (cases ys)
      case Nil
      let ?L = "L\<lparr>cb_tail := Some w, cb_size := cb_size L - 1\<rparr>"
      have "removeCallbackDList (L, h) (Some e) = Some (0, Some de, ?L, ?h1(e := None))"
        using n links(1) ends(3) hd w k Nil by (auto simp: removeCallbackDList_def)
      moreover have "list_ok (?L, ?h1(e := None)) (xs @ ys) (dx @ dy)"
        using snoc Nil k links by (intro result) (auto simp: cnx_def cpv_def intro!: ext split: option.splits)
      ultimately show ?thesis using k by auto
    next
      case (Cons y zs)
      obtain m where m: "h y = Some m" using list_ok_alloc[OF ok, of y] Cons by auto
      have y: "y \<noteq> w" "y \<noteq> e" "i_next n = Some y" using dist snoc Cons links by auto
      let ?L = "L\<lparr>cb_size := cb_size L - 1\<rparr>" and ?h2 = "?h1(y \<mapsto> m\<lparr>i_prev := Some w\<rparr>)"
      have "removeCallbackDList (L, h) (Some e) = Some (0, Some de, ?L, ?h2(e := None))"
        using n y ends(3) hd w k m by (auto simp: removeCallbackDList_def)
      moreover have "list_ok (?L, ?h2(e := None)) (xs @ ys) (dx @ dy)"
        using snoc Cons k m y by (intro result) (auto simp: cnx_def cpv_def intro!: ext split: option.splits)
      ultimately show ?thesis using k m by auto
    qed
  qed
qed

section \<open>Searching\<close>

text \<open>Where a search from the head stops: at the first item with the nickname.\<close>

fun find_nick :: "string \<Rightarrow> CallbackItem_t list \<Rightarrow> nat option" where
  "find_nick nick [] = None"
| "find_nick nick (d # ds) = (if strcasecmp_eq (nickname d) nick then Some 0
     else map_option Suc (find_nick nick ds))"

lemma find_nick_Some:
  "i < length ds \<Longrightarrow> strcasecmp_eq (nickname (ds ! i)) nick \<Longrightarrow>
   \<forall>j < i. \<not> strcasecmp_eq (nickname (ds ! j)) nick \<Longrightarrow> find_nick nick ds = Some i"
proof (induction ds arbitrary: i)
  case (Cons d ds)
  then show ?case by (cases i) (auto simp: All_less_Suc2)
qed simp

lemma find_nick_None:
  "\<forall>d \<in> set ds. \<not> strcasecmp_eq (nickname d) nick \<Longrightarrow> find_nick nick ds = None"
  by (induction ds) auto

lemma find_nick_bound: "find_nick nick ds = Some i \<Longrightarrow> i < length ds"
  by (induction ds arbitrary: i) (auto split: if_splits)

lemma search_next_ok:
  assumes ok: "list_ok (L, h) as ds" and i: "i < length as"
  shows "\<exists>j. i \<le> j \<and> j < length as \<and> search_next h (Some (as ! i)) nick = Some (Some (as ! j))
    \<and> (\<forall>k. i \<le> k \<and> k < j \<longrightarrow> \<not> strcasecmp_eq (nickname (ds ! k)) nick)
    \<and> (strcasecmp_eq (nickname (ds ! j)) nick \<or> Suc j = length as)"
  using i
proof (induction "length as - i" arbitrary: i)
  case (Suc m)
  obtain n where n: "h (as ! i) = Some n" "i_data n = ds ! i" using list_ok_item[OF ok Suc.prems] .
  have split: "as = take i as @ as ! i # drop (Suc i) as" using Suc.prems by (rule id_take_nth_drop)
  have nxt: "i_next n = (if Suc i < length as then Some (as ! Suc i) else None)"
    using list_ok_links(1)[of L h "take i as" "as ! i" "drop (Suc i) as" ds n] ok split n(1) Suc.prems
    by (auto simp: hd_append hd_map hd_drop_conv_nth)
  show ?case
  proof (cases "strcasecmp_eq (nickname (ds ! i)) nick \<or> Suc i = length as")
    case True
    then show ?thesis using n nxt Suc.prems
      by (intro exI[of _ i]) (subst search_next.simps, auto)
  next
    case False
    then have lt: "Suc i < length as" using Suc.prems by simp
    have "m = length as - Suc i" using Suc.hyps(2) by simp
    from Suc.hyps(1)[OF this lt] obtain j where j: "Suc i \<le> j" "j < length as"
      "search_next h (Some (as ! Suc i)) nick = Some (Some (as ! j))"
      "\<forall>k. Suc i \<le> k \<and> k < j \<longrightarrow> \<not> strcasecmp_eq (nickname (ds ! k)) nick"
      "strcasecmp_eq (nickname (ds ! j)) nick \<or> Suc j = length as" by blast
    have "search_next h (Some (as ! i)) nick = Some (Some (as ! j))"
      using False n nxt lt j(3) by (subst search_next.simps) simp
    moreover have "\<forall>k. i \<le> k \<and> k < j \<longrightarrow> \<not> strcasecmp_eq (nickname (ds ! k)) nick"
      using j(4) False by (metis Suc_leI le_neq_implies_less)
    ultimately show ?thesis using j by (intro exI[of _ j]) auto
  qed
qed simp

lemma search_head_ok:
  assumes ok: "list_ok (L, h) as ds"
  shows "searchNicknameFromCallbackDList (L, h) (cb_head L) nick
    = Some (map_option (\<lambda>i. as ! i) (find_nick nick ds))"
proof (cases as)
  case Nil
  then show ?thesis using list_ok_ends[OF ok] list_ok_length[OF ok]
    by (simp add: searchNicknameFromCallbackDList_def)
next
  case (Cons a bs)
  note ends = list_ok_ends[OF ok]
  have ne: "cb_head L = Some (as ! 0)" "cb_tail L \<noteq> None" "cb_size L \<noteq> 0"
    using ends Cons by (auto simp: last_map)
  obtain n where n: "h (as ! 0) = Some n" using list_ok_item[OF ok, of 0] Cons by auto
  have prv: "i_prev n = None" using list_ok_links(2)[of L h "[]" a bs ds n] ok Cons n by simp
  obtain j where j: "j < length as" "search_next h (Some (as ! 0)) nick = Some (Some (as ! j))"
    "\<forall>k < j. \<not> strcasecmp_eq (nickname (ds ! k)) nick"
    "strcasecmp_eq (nickname (ds ! j)) nick \<or> Suc j = length as"
    using search_next_ok[OF ok, of 0 nick] Cons by auto
  obtain t where t: "h (as ! j) = Some t" "i_data t = ds ! j" using list_ok_item[OF ok j(1)] .
  have len: "length ds = length as" using list_ok_length[OF ok] .
  have "find_nick nick ds = (if strcasecmp_eq (nickname (ds ! j)) nick then Some j else None)"
  proof (cases "strcasecmp_eq (nickname (ds ! j)) nick")
    case True
    then show ?thesis using find_nick_Some[OF _ True j(3)] j(1) len by simp
  next
    case False
    then have "\<forall>k < length ds. \<not> strcasecmp_eq (nickname (ds ! k)) nick"
      using j(3,4) len by (metis less_antisym)
    then show ?thesis using find_nick_None[of ds nick] False by (simp add: all_set_conv_all_nth)
  qed
  then show ?thesis using ne n prv j(2) t
    by (simp add: searchNicknameFromCallbackDList_def)
qed

lemma destroy_loop_ok:
  "list_ok (L, h) as ds \<Longrightarrow> \<exists>st'. destroy_loop (L, h) = Some st' \<and> dom (snd st') = dom h - set as"
proof (induction as arbitrary: L h ds rule: rev_induct)
  case Nil
  then show ?case using list_ok_ends[OF Nil] by (subst destroy_loop.simps) simp
next
  case (snoc a as)
  obtain dx d where ds: "ds = dx @ [d]" "length dx = length as"
    using list_ok_length[OF snoc.prems] by (cases ds rule: rev_cases) auto
  from remove_ok[of L h as a "[]" dx d "[]"] snoc.prems ds obtain L' h' where r:
    "removeCallbackDList (L, h) (Some a) = Some (0, Some d, L', h')"
    "list_ok (L', h') as dx" "dom h' = dom h - {a}" by auto
  have "cb_tail L = Some a" "cb_size L > 0" using list_ok_ends[OF snoc.prems] by auto
  with snoc.IH[OF r(2)] r(1,3) show ?case by (subst destroy_loop.simps) auto
qed


section \<open>The interface of the clients\<close>

text \<open>
  The commands and the handlers use the list in two ways: they append an item at the tail, and
  they take out the first item with the nickname of a \<open>WHOIS\<close> reply (\<open>find_nick\<close> from the
  head, then \<open>removeCallbackDList\<close>).  The clients' model works on this interface.
\<close>

definition append_item :: "nat option \<Rightarrow> cb_state \<Rightarrow> CallbackItem_t \<Rightarrow> (int \<times> cb_state) c_result" where
  "append_item m st d = insert_next_CallbackDList m st (cb_tail (fst st)) d"

definition take_item :: "cb_state \<Rightarrow> string \<Rightarrow> (CallbackItem_t option \<times> cb_state) c_result" where
  "take_item st nick = do {
     p \<leftarrow> searchNicknameFromCallbackDList st (cb_head (fst st)) nick;
     if p = None then Some (None, st)
     else do { (r, d, st) \<leftarrow> removeCallbackDList st p; Some (if r = 0 then d else None, st) } }"

text \<open>The same on a list of items.\<close>

definition take_first :: "string \<Rightarrow> CallbackItem_t list \<Rightarrow> CallbackItem_t option \<times> CallbackItem_t list" where
  "take_first nick ds = (case dropWhile (\<lambda>d. \<not> strcasecmp_eq (nickname d) nick) ds of
     [] \<Rightarrow> (None, ds)
   | d # rest \<Rightarrow> (Some d, takeWhile (\<lambda>d. \<not> strcasecmp_eq (nickname d) nick) ds @ rest))"

locale pending_calls =
  fixes holds :: "'s \<Rightarrow> CallbackItem_t list \<Rightarrow> bool"
    and add :: "'s \<Rightarrow> CallbackItem_t \<Rightarrow> 's \<Rightarrow> bool"
    and fetch :: "'s \<Rightarrow> string \<Rightarrow> CallbackItem_t option \<Rightarrow> 's \<Rightarrow> bool"
  assumes add_holds: "holds s ds \<Longrightarrow> add s d s' \<Longrightarrow> holds s' (ds @ [d])"
    and fetch_holds: "holds s ds \<Longrightarrow> fetch s nick r s' \<Longrightarrow> (r, ds') = take_first nick ds \<Longrightarrow> holds s' ds'"
    and fetch_result: "holds s ds \<Longrightarrow> fetch s nick r s' \<Longrightarrow> r = fst (take_first nick ds)"
begin

lemma fetch_added:
  assumes "holds s ds" "\<forall>i \<in> set ds. \<not> strcasecmp_eq (nickname i) nick"
    and "strcasecmp_eq (nickname d) nick" "add s d s1" "fetch s1 nick r s2"
  shows "r = Some d \<and> holds s2 ds"
proof -
  have "takeWhile (\<lambda>d. \<not> strcasecmp_eq (nickname d) nick) (ds @ [d]) = ds"
    "dropWhile (\<lambda>d. \<not> strcasecmp_eq (nickname d) nick) (ds @ [d]) = [d]"
    using assms(2,3) by (simp_all add: takeWhile_append dropWhile_append dropWhile_eq_Nil_conv[THEN iffD2])
  then have t: "take_first nick (ds @ [d]) = (Some d, ds)" by (simp add: take_first_def)
  have h: "holds s1 (ds @ [d])" using add_holds assms(1,4) by blast
  have "r = Some d" using fetch_result[OF h assms(5)] t by simp
  then show ?thesis using fetch_holds[OF h assms(5), of ds] t by simp
qed

end

lemma take_first_find:
  "take_first nick ds = (case find_nick nick ds of None \<Rightarrow> (None, ds)
     | Some i \<Rightarrow> (Some (ds ! i), take i ds @ drop (Suc i) ds))"
proof (induction ds)
  case (Cons d ds)
  have "take_first nick (d # ds) = (if strcasecmp_eq (nickname d) nick then (Some d, ds)
      else map_prod id ((#) d) (take_first nick ds))"
    by (cases "dropWhile (\<lambda>d. \<not> strcasecmp_eq (nickname d) nick) ds")
      (simp_all add: take_first_def del: dropWhile_eq_Nil_conv)
  with Cons show ?case by (auto split: option.splits)
qed (simp add: take_first_def)

definition list_holds :: "cb_state \<Rightarrow> CallbackItem_t list \<Rightarrow> bool" where
  "list_holds st ds \<longleftrightarrow> (\<exists>as. list_ok st as ds)"

text \<open>An \<open>append_item\<close> that succeeds with a fresh node, and a \<open>take_item\<close> with result \<open>r\<close>.\<close>

definition appends :: "cb_state \<Rightarrow> CallbackItem_t \<Rightarrow> cb_state \<Rightarrow> bool" where
  "appends st d st' \<longleftrightarrow> (\<exists>a. a \<notin> dom (snd st) \<and> append_item (Some a) st d = Some (0, st'))"

definition takes :: "cb_state \<Rightarrow> string \<Rightarrow> CallbackItem_t option \<Rightarrow> cb_state \<Rightarrow> bool" where
  "takes st nick r st' \<longleftrightarrow> take_item st nick = Some (r, st')"

lemma append_item_ok:
  assumes "list_ok (L, h) as ds" "a \<notin> dom h" "cb_size L < INT_MAX"
  shows "\<exists>st'. append_item (Some a) (L, h) d = Some (0, st') \<and> list_ok st' (as @ [a]) (ds @ [d])"
proof (cases as rule: rev_cases)
  case Nil
  then have "list_ok (L, h) [] []" using assms(1) list_ok_length[OF assms(1)] by simp
  from insert_empty_ok(1)[OF this] show ?thesis using Nil list_ok_length[OF assms(1)]
    by (fastforce simp: append_item_def)
next
  case (snoc bs b)
  obtain dx de where ds: "ds = dx @ [de]" "length dx = length bs"
    using list_ok_length[OF assms(1)] snoc by (cases ds rule: rev_cases) auto
  have "length (bs @ b # []) < 2147483647" using list_ok_ends(3)[OF assms(1)] assms(3) snoc by simp
  from insert_next_ok[of L h bs b "[]" dx de "[]", OF _ ds(2) assms(2) this]
  show ?thesis using assms(1) snoc ds list_ok_ends(2)[OF assms(1)]
    by (fastforce simp: append_item_def)
qed

lemma append_item_size:
  "append_item (Some a) (L, h) d = Some (0, st') \<Longrightarrow> cb_size L < INT_MAX"
  by (auto simp: append_item_def insert_next_CallbackDList_def size_inc_def bind_eq_Some_conv Let_def
      split: if_splits)

lemma take_item_ok:
  assumes ok: "list_ok (L, h) as ds"
  shows "\<exists>st'. take_item (L, h) nick = Some (fst (take_first nick ds), st')
    \<and> list_holds st' (snd (take_first nick ds))"
proof (cases "find_nick nick ds")
  case None
  then show ?thesis using search_head_ok[OF ok, of nick] ok
    by (auto simp: take_item_def take_first_find list_holds_def)
next
  case (Some i)
  have i: "i < length ds" "i < length as" using find_nick_bound[OF Some] list_ok_length[OF ok] by auto
  have "list_ok (L, h) (take i as @ as ! i # drop (Suc i) as) (take i ds @ ds ! i # drop (Suc i) ds)"
    using ok i by (simp add: id_take_nth_drop[symmetric])
  from remove_ok[OF this] i obtain st' where
    "removeCallbackDList (L, h) (Some (as ! i)) = Some (0, Some (ds ! i), st')"
    "list_ok st' (take i as @ drop (Suc i) as) (take i ds @ drop (Suc i) ds)" by auto
  then show ?thesis using search_head_ok[OF ok, of nick] Some
    by (auto simp: take_item_def take_first_find list_holds_def)
qed

interpretation callbacks: pending_calls list_holds appends takes
proof unfold_locales
  fix st ds d st'
  assume holds: "list_holds st ds" and app: "appends st d st'"
  obtain L h where st: "st = (L, h)" by (cases st)
  obtain as a where "list_ok (L, h) as ds" "a \<notin> dom h" "append_item (Some a) (L, h) d = Some (0, st')"
    using holds app st by (auto simp: list_holds_def appends_def)
  with append_item_ok[OF this(1,2) append_item_size[OF this(3)], of d]
  show "list_holds st' (ds @ [d])" by (auto simp: list_holds_def)
next
  fix st ds nick r st'
  assume holds: "list_holds st ds" and take: "takes st nick r st'"
  obtain L h where st: "st = (L, h)" by (cases st)
  have *: "r = fst (take_first nick ds) \<and> list_holds st' (snd (take_first nick ds))"
    using holds take take_item_ok[of L h _ ds nick] st by (auto simp: list_holds_def takes_def)
  show "r = fst (take_first nick ds)" using * by simp
  show "list_holds st' ds'" if "(r, ds') = take_first nick ds" for ds'
    using * that by (metis snd_conv)
qed

section \<open>Properties\<close>

text \<open>The search from the head terminates on every well-formed list and finds the first item
  whose nickname equals the given one without regard to case, or the null pointer if there is none.\<close>

lemma search_finds_first:
  assumes "list_ok (L, h) as ds"
  shows "\<exists>r. searchNicknameFromCallbackDList (L, h) (cb_head L) nick = Some r
    \<and> (case r of
         None \<Rightarrow> \<forall>d \<in> set ds. \<not> strcasecmp_eq (nickname d) nick
       | Some a \<Rightarrow> \<exists>i < length ds. a = as ! i \<and> strcasecmp_eq (nickname (ds ! i)) nick
            \<and> (\<forall>j < i. \<not> strcasecmp_eq (nickname (ds ! j)) nick))"
proof (cases "\<exists>i < length ds. strcasecmp_eq (nickname (ds ! i)) nick")
  case True
  then obtain i where i: "i < length ds" "strcasecmp_eq (nickname (ds ! i)) nick"
    "\<forall>j < i. \<not> strcasecmp_eq (nickname (ds ! j)) nick"
    using exists_least_iff[of "\<lambda>i. i < length ds \<and> strcasecmp_eq (nickname (ds ! i)) nick"]
    by (metis less_trans)
  show ?thesis using search_head_ok[OF assms, of nick] find_nick_Some[OF i] i by auto
next
  case False
  then have none: "\<forall>d \<in> set ds. \<not> strcasecmp_eq (nickname d) nick" by (simp add: all_set_conv_all_nth)
  show ?thesis using search_head_ok[OF assms, of nick] find_nick_None[OF none] none by simp
qed

text \<open>The operations at the element with index \<open>i\<close>.\<close>

lemma operations_at:
  assumes ok: "list_ok (L, h) as ds" and i: "i < length as" and new: "a \<notin> dom h" "length as < 2147483647"
  shows "\<exists>st'. insert_next_CallbackDList (Some a) (L, h) (Some (as ! i)) d = Some (0, st')
      \<and> list_ok st' (take (Suc i) as @ a # drop (Suc i) as) (take (Suc i) ds @ d # drop (Suc i) ds)"
    and "\<exists>st'. insert_prev_CallbackDList (Some a) (L, h) (Some (as ! i)) d = Some (0, st')
      \<and> list_ok st' (take i as @ a # drop i as) (take i ds @ d # drop i ds)"
    and "\<exists>st'. removeCallbackDList (L, h) (Some (as ! i)) = Some (0, Some (ds ! i), st')
      \<and> list_ok st' (take i as @ drop (Suc i) as) (take i ds @ drop (Suc i) ds) \<and> snd st' (as ! i) = None"
proof -
  have len: "i < length ds" "length (take i ds) = length (take i as)" using i list_ok_length[OF ok] by auto
  note split = id_take_nth_drop[OF i] id_take_nth_drop[OF len(1)]
  have ok': "list_ok (L, h) (take i as @ as ! i # drop (Suc i) as) (take i ds @ ds ! i # drop (Suc i) ds)"
    using ok by (simp add: split[symmetric])
  have small: "length (take i as @ as ! i # drop (Suc i) as) < 2147483647" using new(2) i by simp
  have parts: "take (Suc i) as = take i as @ [as ! i]" "take (Suc i) ds = take i ds @ [ds ! i]"
    "drop i as = as ! i # drop (Suc i) as" "drop i ds = ds ! i # drop (Suc i) ds"
    using i len(1) by (simp_all add: take_Suc_conv_app_nth Cons_nth_drop_Suc)
  show "\<exists>st'. insert_next_CallbackDList (Some a) (L, h) (Some (as ! i)) d = Some (0, st')
      \<and> list_ok st' (take (Suc i) as @ a # drop (Suc i) as) (take (Suc i) ds @ d # drop (Suc i) ds)"
    using insert_next_ok[OF ok' len(2) new(1) small, of d] by (auto simp: parts(1,2))
  show "\<exists>st'. insert_prev_CallbackDList (Some a) (L, h) (Some (as ! i)) d = Some (0, st')
      \<and> list_ok st' (take i as @ a # drop i as) (take i ds @ d # drop i ds)"
    using insert_prev_ok[OF ok' len(2) new(1) small, of d] by (auto simp: parts(3,4))
  show "\<exists>st'. removeCallbackDList (L, h) (Some (as ! i)) = Some (0, Some (ds ! i), st')
      \<and> list_ok st' (take i as @ drop (Suc i) as) (take i ds @ drop (Suc i) ds) \<and> snd st' (as ! i) = None"
    using remove_ok[OF ok' len(2)] by (auto simp: domIff dest: arg_cong[where f = "\<lambda>A. as ! i \<in> A"])
qed

text \<open>C2: On every well-formed callback list with its doubly linked nodes: inserting into the empty list, inserting after or
  before any element and removing any element never go through a dangling or null pointer, report success and have
  on the items the effect of the same operation on a list, a removal handing out the removed item;
  and the search from the head ends and finds the first item whose nickname equals the given
  one without regard to case, or the null pointer if there is none.\<close>

theorem callback_list_refines:
  assumes "list_ok (L, h) as ds" "a \<notin> dom h" "length as < 2147483647"
  shows "(as = [] \<longrightarrow> (\<exists>st'. insert_next_CallbackDList (Some a) (L, h) p d = Some (0, st') \<and> list_ok st' [a] [d])
      \<and> (\<exists>st'. insert_prev_CallbackDList (Some a) (L, h) p d = Some (0, st') \<and> list_ok st' [a] [d]))
    \<and> (\<forall>i < length as.
      (\<exists>st'. insert_next_CallbackDList (Some a) (L, h) (Some (as ! i)) d = Some (0, st')
        \<and> list_ok st' (take (Suc i) as @ a # drop (Suc i) as) (take (Suc i) ds @ d # drop (Suc i) ds))
    \<and> (\<exists>st'. insert_prev_CallbackDList (Some a) (L, h) (Some (as ! i)) d = Some (0, st')
        \<and> list_ok st' (take i as @ a # drop i as) (take i ds @ d # drop i ds))
    \<and> (\<exists>st'. removeCallbackDList (L, h) (Some (as ! i)) = Some (0, Some (ds ! i), st')
        \<and> list_ok st' (take i as @ drop (Suc i) as) (take i ds @ drop (Suc i) ds) \<and> snd st' (as ! i) = None))
    \<and> (\<exists>r. searchNicknameFromCallbackDList (L, h) (cb_head L) nick = Some r
      \<and> (case r of
         None \<Rightarrow> \<forall>d \<in> set ds. \<not> strcasecmp_eq (nickname d) nick
       | Some b \<Rightarrow> \<exists>i < length ds. b = as ! i \<and> strcasecmp_eq (nickname (ds ! i)) nick
            \<and> (\<forall>j < i. \<not> strcasecmp_eq (nickname (ds ! j)) nick)))"
proof (rule all3)
  have "list_ok (L, h) [] []" if "as = []" using that assms(1) list_ok_length[OF assms(1)] by simp
  then show "as = [] \<longrightarrow> (\<exists>st'. insert_next_CallbackDList (Some a) (L, h) p d = Some (0, st') \<and> list_ok st' [a] [d])
      \<and> (\<exists>st'. insert_prev_CallbackDList (Some a) (L, h) p d = Some (0, st') \<and> list_ok st' [a] [d])"
    using insert_empty_ok(1)[of L h a p d] insert_empty_ok(2)[of L h a p d] by blast
  show "\<forall>i < length as.
      (\<exists>st'. insert_next_CallbackDList (Some a) (L, h) (Some (as ! i)) d = Some (0, st')
        \<and> list_ok st' (take (Suc i) as @ a # drop (Suc i) as) (take (Suc i) ds @ d # drop (Suc i) ds))
    \<and> (\<exists>st'. insert_prev_CallbackDList (Some a) (L, h) (Some (as ! i)) d = Some (0, st')
        \<and> list_ok st' (take i as @ a # drop i as) (take i ds @ d # drop i ds))
    \<and> (\<exists>st'. removeCallbackDList (L, h) (Some (as ! i)) = Some (0, Some (ds ! i), st')
        \<and> list_ok st' (take i as @ drop (Suc i) as) (take i ds @ drop (Suc i) ds) \<and> snd st' (as ! i) = None)"
    using operations_at[OF assms(1) _ assms(2,3)] by blast
qed (rule search_finds_first[OF assms(1)])

definition one_item :: "CallbackItem_t \<Rightarrow> cb_state" where
  "one_item d = (\<lparr>cb_size = 1, cb_head = Some 1, cb_tail = Some 1\<rparr>,
     [1 \<mapsto> \<lparr>i_data = d, i_prev = None, i_next = None\<rparr>])"

lemma one_item_ok: "list_ok (one_item d) [1] [d]"
  by (simp add: one_item_def list_ok_def ring_def item_at_def cnx_def cpv_def)

abbreviation kick_al :: CallbackItem_t where
  "kick_al \<equiv> \<lparr>nickname = ''al'', CallbackFkt = KickCb_F, cb_data = []\<rparr>"

lemma callback_list_refines_witness:
  "\<exists>st'. removeCallbackDList (one_item kick_al) (Some 1) = Some (0, Some kick_al, st')
    \<and> list_ok st' [] [] \<and> snd st' 1 = None"
  using callback_list_refines[of "fst (one_item kick_al)" "snd (one_item kick_al)" "[1]" "[kick_al]" 2 None kick_al "''al''",
      THEN conjunct2, THEN conjunct1, rule_format, of 0] one_item_ok[of kick_al]
  by (auto simp: one_item_def)

text \<open>A callback that a command appends for a nickname with no pending callback is the one
  that the next \<open>WHOIS\<close> reply for this nickname takes out, and the list is then as before.\<close>

lemma pending_callback_fetched:
  assumes "list_holds st ds" "\<forall>i \<in> set ds. \<not> strcasecmp_eq (nickname i) nick"
    and "strcasecmp_eq (nickname d) nick" "appends st d st1" "takes st1 nick r st2"
  shows "r = Some d \<and> list_holds st2 ds"
  by (rule callbacks.fetch_added[OF assms])

text \<open>\<open>destroyCallbackDList\<close> terminates on every well-formed list, frees every node of it and
  leaves the list head zeroed.\<close>

lemma destroy_frees_all:
  assumes "list_ok (L, h) as ds"
  shows "\<exists>h'. destroyCallbackDList (L, h) = Some (\<lparr>cb_size = 0, cb_head = None, cb_tail = None\<rparr>, h')
    \<and> dom h' = dom h - set as"
  using destroy_loop_ok[OF assms] by (auto simp: destroyCallbackDList_def)

end
