(* ===== verification/Database.thy ===== *)
theory Database
  imports Utilities "HOL-Library.AList"
begin

text \<open>
  The databases of \<open>dbaccess.c\<close>: seven files of keys and values behind the library gdbm.  The
  library is not part of the program, so its calls are the fields of a record \<open>gdbm\<close>, and what
  the code relies on of their documented behaviour is the predicate \<open>gdbm_ok\<close>.  The password
  hash \<open>crypt(_, "SL")\<close> is a function parameter too.  \<open>view\<close> is the abstract content of a
  database, a map from keys in lower case to values; each operation is characterised by its
  effect on the view.
\<close>

section \<open>The library behind the databases\<close>

datatype gdbm_flag = GDBM_INSERT | GDBM_REPLACE

text \<open>\<open>gdbm_open\<close> distinguishes the two ways in which the code opens a file.\<close>

datatype gdbm_access = GDBM_WRCREAT | GDBM_NEWDB

record 'f gdbm =
  gdbm_store :: "'f \<Rightarrow> string \<Rightarrow> string \<Rightarrow> gdbm_flag \<Rightarrow> int \<times> 'f"
  gdbm_delete :: "'f \<Rightarrow> string \<Rightarrow> int \<times> 'f"
  gdbm_fetch :: "'f \<Rightarrow> string \<Rightarrow> string option"
  gdbm_exists :: "'f \<Rightarrow> string \<Rightarrow> bool"
  gdbm_firstkey :: "'f \<Rightarrow> string option"
  gdbm_nextkey :: "'f \<Rightarrow> string \<Rightarrow> string option"

text \<open>
  The documented behaviour without input or output errors: a map that is changed by storing and
  deleting, and an iteration that visits every key once.
\<close>

definition gdbm_ok :: "'f gdbm \<Rightarrow> bool" where
  "gdbm_ok G \<longleftrightarrow>
     (\<forall>f k v. gdbm_fetch G f k = None \<longrightarrow> fst (gdbm_store G f k v GDBM_INSERT) = 0
        \<and> gdbm_fetch G (snd (gdbm_store G f k v GDBM_INSERT)) = (gdbm_fetch G f)(k \<mapsto> v))
   \<and> (\<forall>f k v. gdbm_fetch G f k \<noteq> None \<longrightarrow> fst (gdbm_store G f k v GDBM_INSERT) = 1
        \<and> gdbm_fetch G (snd (gdbm_store G f k v GDBM_INSERT)) = gdbm_fetch G f)
   \<and> (\<forall>f k v. fst (gdbm_store G f k v GDBM_REPLACE) = 0
        \<and> gdbm_fetch G (snd (gdbm_store G f k v GDBM_REPLACE)) = (gdbm_fetch G f)(k \<mapsto> v))
   \<and> (\<forall>f k. (fst (gdbm_delete G f k) = 0 \<longleftrightarrow> gdbm_fetch G f k \<noteq> None)
        \<and> gdbm_fetch G (snd (gdbm_delete G f k)) = (gdbm_fetch G f)(k := None))
   \<and> (\<forall>f k. gdbm_exists G f k \<longleftrightarrow> gdbm_fetch G f k \<noteq> None)
   \<and> (\<forall>f. \<exists>ks. distinct ks \<and> set ks = dom (gdbm_fetch G f)
        \<and> gdbm_firstkey G f = (case ks of [] \<Rightarrow> None | k # _ \<Rightarrow> Some k)
        \<and> (\<forall>i < length ks. gdbm_nextkey G f (ks ! i)
              = (if Suc i < length ks then Some (ks ! Suc i) else None)))"

section \<open>Data\<close>

text \<open>The enumeration \<open>DatabaseID_t\<close>; the operations take its values as \<open>int\<close>.\<close>

abbreviation USER_DB :: int where "USER_DB \<equiv> 0"
abbreviation CHANNEL_DB :: int where "CHANNEL_DB \<equiv> 1"
abbreviation ACCESS_DB :: int where "ACCESS_DB \<equiv> 2"
abbreviation BANLIST_DB :: int where "BANLIST_DB \<equiv> 3"
abbreviation USERTONICK_DB :: int where "USERTONICK_DB \<equiv> 4"
abbreviation TIMELOG_DB :: int where "TIMELOG_DB \<equiv> 5"
abbreviation NICKTOUSER_DB :: int where "NICKTOUSER_DB \<equiv> 6"
abbreviation MAX_DB :: int where "MAX_DB \<equiv> 7"

type_synonym 'f databases = "int \<Rightarrow> 'f"

definition pDB :: "(int \<times> string \<times> gdbm_access) list" where
  "pDB = [(USER_DB, ''user.dbf'', GDBM_WRCREAT), (CHANNEL_DB, ''channel.dbf'', GDBM_WRCREAT),
     (ACCESS_DB, ''access.dbf'', GDBM_WRCREAT), (BANLIST_DB, ''banlist.dbf'', GDBM_WRCREAT),
     (USERTONICK_DB, ''usertonick.dbf'', GDBM_NEWDB), (TIMELOG_DB, ''timelog.dbf'', GDBM_WRCREAT),
     (NICKTOUSER_DB, ''nicktouser.dbf'', GDBM_NEWDB)]"

section \<open>Operations\<close>

text \<open>
  \<open>initDatabases\<close>: whether the directory could be opened or created and what \<open>gdbm_open\<close>
  returns for a path are arguments.  A file that cannot be opened ends the loop.
\<close>

fun open_all :: "(string \<Rightarrow> gdbm_access \<Rightarrow> 'f option) \<Rightarrow> string \<Rightarrow> (int \<times> string \<times> gdbm_access) list
    \<Rightarrow> 'f databases \<Rightarrow> bool \<times> 'f databases" where
  "open_all gopen path [] s = (True, s)"
| "open_all gopen path ((i, name, access) # rest) s =
     (case gopen (path @ ''/'' @ name) access of None \<Rightarrow> (False, s)
      | Some f \<Rightarrow> open_all gopen path rest (s(i := f)))"

definition initDatabases :: "bool \<Rightarrow> bool \<Rightarrow> (string \<Rightarrow> gdbm_access \<Rightarrow> 'f option) \<Rightarrow> string
    \<Rightarrow> 'f databases \<Rightarrow> bool \<times> 'f databases" where
  "initDatabases dir_exists mkdir_ok gopen path s =
     (if \<not> dir_exists \<and> \<not> mkdir_ok then (False, s) else open_all gopen path pDB s)"

definition get_dbf :: "'f databases \<Rightarrow> int \<Rightarrow> 'f option" where
  "get_dbf s db = (if db \<ge> MAX_DB \<or> db < 0 then None else Some (s db))"

definition exist_db :: "'f gdbm \<Rightarrow> 'f databases \<Rightarrow> int \<Rightarrow> string option \<Rightarrow> bool" where
  "exist_db G s db key = (case key of None \<Rightarrow> False
     | Some k \<Rightarrow> (case get_dbf s db of None \<Rightarrow> False | Some f \<Rightarrow> gdbm_exists G f (StrToLower k)))"

definition get_db :: "'f gdbm \<Rightarrow> 'f databases \<Rightarrow> int \<Rightarrow> string option \<Rightarrow> string option" where
  "get_db G s db key = (case key of None \<Rightarrow> None
     | Some k \<Rightarrow> (case get_dbf s db of None \<Rightarrow> None | Some f \<Rightarrow> gdbm_fetch G f (StrToLower k)))"

text \<open>A password is stored as its hash, any other value as it is.\<close>

definition db_value :: "(string \<Rightarrow> string) \<Rightarrow> int \<Rightarrow> string \<Rightarrow> string" where
  "db_value crypt db v = (if db = USER_DB then crypt v else v)"

definition add_db :: "'f gdbm \<Rightarrow> (string \<Rightarrow> string) \<Rightarrow> 'f databases \<Rightarrow> int \<Rightarrow> string option \<Rightarrow> string option
    \<Rightarrow> bool \<times> 'f databases" where
  "add_db G crypt s db key val = (case (key, val) of
     (Some k, Some v) \<Rightarrow>
       let pKey = StrToLower k in
       if exist_db G s db (Some pKey) then (False, s)
       else (case get_dbf s db of None \<Rightarrow> (False, s)
         | Some f \<Rightarrow> let (r, f') = gdbm_store G f pKey (db_value crypt db v) GDBM_INSERT
             in (r = 0, s(db := f')))
   | _ \<Rightarrow> (False, s))"

definition replace_db :: "'f gdbm \<Rightarrow> (string \<Rightarrow> string) \<Rightarrow> 'f databases \<Rightarrow> int \<Rightarrow> string option \<Rightarrow> string option
    \<Rightarrow> bool \<times> 'f databases" where
  "replace_db G crypt s db key val = (case (key, val) of
     (Some k, Some v) \<Rightarrow>
       let pKey = StrToLower k in
       if \<not> exist_db G s db key then (False, s)
       else (case get_dbf s db of None \<Rightarrow> (False, s)
         | Some f \<Rightarrow> let (r, f') = gdbm_store G f pKey (db_value crypt db v) GDBM_REPLACE
             in (r = 0, s(db := f')))
   | _ \<Rightarrow> (False, s))"

definition del_db :: "'f gdbm \<Rightarrow> 'f databases \<Rightarrow> int \<Rightarrow> string option \<Rightarrow> bool \<times> 'f databases" where
  "del_db G s db key = (case key of None \<Rightarrow> (False, s)
     | Some k \<Rightarrow>
       if \<not> exist_db G s db key then (False, s)
       else (case get_dbf s db of None \<Rightarrow> (False, s)
         | Some f \<Rightarrow> let (r, f') = gdbm_delete G f (StrToLower k) in (r = 0, s(db := f'))))"

text \<open>\<open>check_db\<close> compares with \<open>strcmp\<close>; a fetch that fails would be a null pointer there.\<close>

definition check_db :: "'f gdbm \<Rightarrow> (string \<Rightarrow> string) \<Rightarrow> 'f databases \<Rightarrow> int \<Rightarrow> string option \<Rightarrow> string option
    \<Rightarrow> bool c_result" where
  "check_db G crypt s db key val = (case (key, val) of
     (Some k, Some v) \<Rightarrow>
       let pKey = StrToLower k in
       if \<not> exist_db G s db (Some pKey) then Some False
       else (case get_dbf s db of None \<Rightarrow> Some False
         | Some f \<Rightarrow> (case gdbm_fetch G f pKey of None \<Rightarrow> None
             | Some w \<Rightarrow> Some (w = db_value crypt db v)))
   | _ \<Rightarrow> Some False)"

text \<open>
  \<open>list_db\<close> pushes the keys on a fresh queue that only its caller pops, so its result is the
  list of the keys in the order in which they come out of the queue.
\<close>

partial_function (option) list_loop :: "'f gdbm \<Rightarrow> 'f \<Rightarrow> string option \<Rightarrow> string list c_result" where
  "list_loop G f key = (case key of None \<Rightarrow> Some []
     | Some k \<Rightarrow> do { r \<leftarrow> list_loop G f (gdbm_nextkey G f k); Some (k # r) })"

lemma list_loop_code [code]:
  "list_loop G f None = Some []"
  "list_loop G f (Some k) = do { r \<leftarrow> list_loop G f (gdbm_nextkey G f k); Some (k # r) }"
  by (simp_all add: list_loop.simps[of G f None] list_loop.simps[of G f "Some k"])

definition list_db :: "'f gdbm \<Rightarrow> 'f databases \<Rightarrow> int \<Rightarrow> string list c_result" where
  "list_db G s db = (case get_dbf s db of None \<Rightarrow> Some []
     | Some f \<Rightarrow> list_loop G f (gdbm_firstkey G f))"

section \<open>The content of a database\<close>

definition view :: "'f gdbm \<Rightarrow> 'f databases \<Rightarrow> int \<Rightarrow> string \<Rightarrow> string option" where
  "view G s db = (case get_dbf s db of None \<Rightarrow> (\<lambda>_. None) | Some f \<Rightarrow> gdbm_fetch G f)"

abbreviation valid_db :: "int \<Rightarrow> bool" where "valid_db db \<equiv> 0 \<le> db \<and> db < MAX_DB"

lemma get_dbf_upd [simp]:
  "get_dbf (s(db := f)) db' = (if db' = db \<and> valid_db db then Some f else get_dbf s db')"
  by (auto simp: get_dbf_def)

lemma get_view: "get_db G s db (Some k) = view G s db (StrToLower k)"
  by (simp add: get_db_def view_def split: option.splits)

lemma get_None [simp]: "get_db G s db None = None" by (simp add: get_db_def)

lemma exist_view:
  assumes "gdbm_ok G"
  shows "exist_db G s db (Some k) \<longleftrightarrow> view G s db (StrToLower k) \<noteq> None"
  using assms by (simp add: exist_db_def view_def gdbm_ok_def split: option.splits)

lemma exist_None [simp]: "\<not> exist_db G s db None" by (simp add: exist_db_def)

lemma exist_get: "gdbm_ok G \<Longrightarrow> exist_db G s db (Some k) \<longleftrightarrow> get_db G s db (Some k) \<noteq> None"
  by (simp only: exist_view get_view)

lemma add_view:
  assumes ok: "gdbm_ok G" and db: "valid_db db"
  shows "fst (add_db G crypt s db (Some k) (Some v)) \<longleftrightarrow> view G s db (StrToLower k) = None"
    and "view G (snd (add_db G crypt s db (Some k) (Some v))) = (view G s)(db :=
      (if view G s db (StrToLower k) = None
       then (view G s db)(StrToLower k \<mapsto> db_value crypt db v) else view G s db))"
proof -
  let ?f = "s db" and ?k = "StrToLower k" and ?v = "db_value crypt db v"
  obtain r f' where r: "gdbm_store G ?f ?k ?v GDBM_INSERT = (r, f')" by (cases "gdbm_store G ?f ?k ?v GDBM_INSERT")
  have law: "gdbm_fetch G ?f ?k = None \<Longrightarrow> r = 0 \<and> gdbm_fetch G f' = (gdbm_fetch G ?f)(?k \<mapsto> ?v)"
    using ok r unfolding gdbm_ok_def by (metis fst_conv snd_conv)
  have get: "get_dbf s db = Some ?f" and v: "view G s db = gdbm_fetch G ?f"
    using db by (simp_all add: get_dbf_def view_def)
  have ex: "exist_db G s db (Some ?k) \<longleftrightarrow> view G s db ?k \<noteq> None" using exist_view[OF ok, of s db ?k] by simp
  show "fst (add_db G crypt s db (Some k) (Some v)) \<longleftrightarrow> view G s db ?k = None"
    using ex get v law r by (auto simp: add_db_def Let_def split: prod.splits)
  show "view G (snd (add_db G crypt s db (Some k) (Some v))) = (view G s)(db :=
      (if view G s db ?k = None then (view G s db)(?k \<mapsto> ?v) else view G s db))"
    using ex get v law r db
    by (auto simp: add_db_def Let_def view_def split: prod.splits if_splits intro!: ext)
qed

lemma replace_view:
  assumes ok: "gdbm_ok G" and db: "valid_db db"
  shows "fst (replace_db G crypt s db (Some k) (Some v)) \<longleftrightarrow> view G s db (StrToLower k) \<noteq> None"
    and "view G (snd (replace_db G crypt s db (Some k) (Some v))) = (view G s)(db :=
      (if view G s db (StrToLower k) \<noteq> None
       then (view G s db)(StrToLower k \<mapsto> db_value crypt db v) else view G s db))"
proof -
  let ?f = "s db" and ?k = "StrToLower k" and ?v = "db_value crypt db v"
  obtain r f' where r: "gdbm_store G ?f ?k ?v GDBM_REPLACE = (r, f')" by (cases "gdbm_store G ?f ?k ?v GDBM_REPLACE")
  have law: "r = 0 \<and> gdbm_fetch G f' = (gdbm_fetch G ?f)(?k \<mapsto> ?v)"
    using ok r unfolding gdbm_ok_def by (metis fst_conv snd_conv)
  have get: "get_dbf s db = Some ?f" and v: "view G s db = gdbm_fetch G ?f"
    using db by (simp_all add: get_dbf_def view_def)
  have ex: "exist_db G s db (Some k) \<longleftrightarrow> view G s db ?k \<noteq> None" using exist_view[OF ok, of s db k] .
  show "fst (replace_db G crypt s db (Some k) (Some v)) \<longleftrightarrow> view G s db ?k \<noteq> None"
    using ex get v law r by (auto simp: replace_db_def Let_def split: prod.splits)
  show "view G (snd (replace_db G crypt s db (Some k) (Some v))) = (view G s)(db :=
      (if view G s db ?k \<noteq> None then (view G s db)(?k \<mapsto> ?v) else view G s db))"
    using ex get v law r db
    by (auto simp: replace_db_def Let_def view_def split: prod.splits if_splits intro!: ext)
qed

lemma del_view:
  assumes ok: "gdbm_ok G" and db: "valid_db db"
  shows "fst (del_db G s db (Some k)) \<longleftrightarrow> view G s db (StrToLower k) \<noteq> None"
    and "view G (snd (del_db G s db (Some k))) = (view G s)(db := (view G s db)(StrToLower k := None))"
proof -
  let ?f = "s db" and ?k = "StrToLower k"
  obtain r f' where r: "gdbm_delete G ?f ?k = (r, f')" by (cases "gdbm_delete G ?f ?k")
  have law: "(r = 0 \<longleftrightarrow> gdbm_fetch G ?f ?k \<noteq> None) \<and> gdbm_fetch G f' = (gdbm_fetch G ?f)(?k := None)"
    using ok r unfolding gdbm_ok_def by (metis fst_conv snd_conv)
  have get: "get_dbf s db = Some ?f" and v: "view G s db = gdbm_fetch G ?f"
    using db by (simp_all add: get_dbf_def view_def)
  have ex: "exist_db G s db (Some k) \<longleftrightarrow> view G s db ?k \<noteq> None" using exist_view[OF ok, of s db k] .
  show "fst (del_db G s db (Some k)) \<longleftrightarrow> view G s db ?k \<noteq> None"
    using ex get v law r by (auto simp: del_db_def split: prod.splits)
  show "view G (snd (del_db G s db (Some k))) = (view G s)(db := (view G s db)(?k := None))"
    using ex get v law r db
    by (auto simp: del_db_def view_def split: prod.splits if_splits intro!: ext)
qed

lemma check_view:
  assumes ok: "gdbm_ok G"
  shows "check_db G crypt s db (Some k) (Some v)
    = Some (view G s db (StrToLower k) = Some (db_value crypt db v))"
  using exist_view[OF ok, of s db "StrToLower k"]
  by (auto simp: check_db_def Let_def view_def split: option.splits)

lemma list_loop_ok:
  assumes "\<forall>i < length ks. gdbm_nextkey G f (ks ! i) = (if Suc i < length ks then Some (ks ! Suc i) else None)"
    and "i < length ks"
  shows "list_loop G f (Some (ks ! i)) = Some (drop i ks)"
  using assms(2)
proof (induction "length ks - i" arbitrary: i)
  case (Suc m)
  show ?case
  proof (cases "Suc i < length ks")
    case True
    with Suc.hyps(1)[of "Suc i"] Suc.hyps(2) assms(1) Suc.prems show ?thesis
      by (subst list_loop.simps) (simp add: Cons_nth_drop_Suc)
  next
    case False
    with assms(1) Suc.prems have "gdbm_nextkey G f (ks ! i) = None" by simp
    then show ?thesis using False Suc.prems
      by (subst list_loop.simps) (simp add: list_loop.simps[of G f None] Cons_nth_drop_Suc[symmetric])
  qed
qed simp

lemma list_view:
  assumes ok: "gdbm_ok G" and db: "valid_db db"
  shows "\<exists>ks. list_db G s db = Some ks \<and> distinct ks \<and> set ks = dom (view G s db)"
proof -
  let ?f = "s db"
  from ok obtain ks where ks: "distinct ks" "set ks = dom (gdbm_fetch G ?f)"
    "gdbm_firstkey G ?f = (case ks of [] \<Rightarrow> None | k # _ \<Rightarrow> Some k)"
    "\<forall>i < length ks. gdbm_nextkey G ?f (ks ! i) = (if Suc i < length ks then Some (ks ! Suc i) else None)"
    unfolding gdbm_ok_def by metis
  have "list_db G s db = Some ks"
  proof (cases ks)
    case Nil
    then show ?thesis using db ks(3) by (simp add: list_db_def get_dbf_def list_loop.simps)
  next
    case (Cons k r)
    then show ?thesis using db ks(3) list_loop_ok[OF ks(4), of 0] by (simp add: list_db_def get_dbf_def)
  qed
  then show ?thesis using ks db by (simp add: view_def get_dbf_def)
qed


section \<open>An instance of the library\<close>

text \<open>Files as association lists: the documented behaviour can hold, and the model can be run.\<close>

fun next_in :: "string list \<Rightarrow> string \<Rightarrow> string option" where
  "next_in (x # y # ks) k = (if x = k then Some y else next_in (y # ks) k)"
| "next_in _ k = None"

definition alist_gdbm :: "(string \<times> string) list gdbm" where
  "alist_gdbm = \<lparr>
     gdbm_store = (\<lambda>f k v flag. if flag = GDBM_INSERT \<and> map_of f k \<noteq> None then (1, f)
                             else (0, AList.update k v f)),
     gdbm_delete = (\<lambda>f k. if map_of f k = None then (-1, f) else (0, AList.delete k f)),
     gdbm_fetch = map_of,
     gdbm_exists = (\<lambda>f k. map_of f k \<noteq> None),
     gdbm_firstkey = (\<lambda>f. case remdups (map fst f) of [] \<Rightarrow> None | k # _ \<Rightarrow> Some k),
     gdbm_nextkey = (\<lambda>f. next_in (remdups (map fst f)))\<rparr>"

lemma next_in_nth:
  "distinct ks \<Longrightarrow> i < length ks \<Longrightarrow>
   next_in ks (ks ! i) = (if Suc i < length ks then Some (ks ! Suc i) else None)"
proof (induction ks arbitrary: i)
  case (Cons x ks)
  show ?case
  proof (cases ks)
    case (Cons y r)
    show ?thesis
    proof (cases i)
      case (Suc j)
      then have "ks ! j \<in> set ks" "x \<notin> set ks" using Cons.prems by auto
      then have "x \<noteq> ks ! j" by metis
      with Suc Cons.IH[of j] Cons.prems \<open>ks = y # r\<close> show ?thesis by auto
    qed (simp add: Cons)
  qed (use Cons.prems in simp)
qed simp

lemma gdbm_ok_alist: "gdbm_ok alist_gdbm"
proof -
  have "\<exists>ks. distinct ks \<and> set ks = dom (map_of f)
      \<and> gdbm_firstkey alist_gdbm f = (case ks of [] \<Rightarrow> None | k # _ \<Rightarrow> Some k)
      \<and> (\<forall>i < length ks. gdbm_nextkey alist_gdbm f (ks ! i)
            = (if Suc i < length ks then Some (ks ! Suc i) else None))" for f :: "(string \<times> string) list"
    by (rule exI[of _ "remdups (map fst f)"])
      (simp add: alist_gdbm_def next_in_nth dom_map_of_conv_image_fst)
  then show ?thesis
    by (auto simp: gdbm_ok_def alist_gdbm_def update_conv' delete_conv' fun_upd_idem)
qed

text \<open>All databases empty.\<close>

definition empty_dbs :: "(string \<times> string) list databases" where
  "empty_dbs = (\<lambda>_. [])"

section \<open>The interface of the clients\<close>

text \<open>
  A store of several databases whose keys are compared after a normalisation.  \<open>set_law\<close> is the
  idiom of the clients that replace an entry if there is one and add it otherwise.
\<close>

locale keyed_store =
  fixes invar :: "'s \<Rightarrow> bool" and valid :: "'d \<Rightarrow> bool" and norm :: "'k \<Rightarrow> 'k" and enc :: "'d \<Rightarrow> 'v \<Rightarrow> 'v"
    and get :: "'s \<Rightarrow> 'd \<Rightarrow> 'k \<Rightarrow> 'v option"
    and add :: "'s \<Rightarrow> 'd \<Rightarrow> 'k \<Rightarrow> 'v \<Rightarrow> 's" and replace :: "'s \<Rightarrow> 'd \<Rightarrow> 'k \<Rightarrow> 'v \<Rightarrow> 's"
    and del :: "'s \<Rightarrow> 'd \<Rightarrow> 'k \<Rightarrow> 's"
  assumes get_add: "invar s \<Longrightarrow> valid d \<Longrightarrow> get (add s d k v) d' k' =
      (if d' = d \<and> norm k' = norm k \<and> get s d k = None then Some (enc d v) else get s d' k')"
    and get_replace: "invar s \<Longrightarrow> valid d \<Longrightarrow> get (replace s d k v) d' k' =
      (if d' = d \<and> norm k' = norm k \<and> get s d k \<noteq> None then Some (enc d v) else get s d' k')"
    and get_del: "invar s \<Longrightarrow> valid d \<Longrightarrow> get (del s d k) d' k' =
      (if d' = d \<and> norm k' = norm k then None else get s d' k')"
    and get_norm: "norm k = norm k' \<Longrightarrow> get s d k = get s d k'"
    and keeps: "invar s \<Longrightarrow> invar (add s d k v)" "invar s \<Longrightarrow> invar (replace s d k v)"
      "invar s \<Longrightarrow> invar (del s d k)"
begin

lemma set_law:
  assumes "invar s" "valid d"
  shows "get (if get s d k = None then add s d k v else replace s d k v) d' k' =
    (if d' = d \<and> norm k' = norm k then Some (enc d v) else get s d' k')"
  using assms by (simp add: get_add get_replace)

lemma add_keeps_old: "invar s \<Longrightarrow> valid d \<Longrightarrow> get s d' k' = Some w \<Longrightarrow> get (add s d k v) d' k' = Some w"
  using get_add get_norm by (metis option.distinct(1))

lemma del_then_add:
  "invar s \<Longrightarrow> valid d \<Longrightarrow> get (add (del s d k) d k v) d' k' =
    (if d' = d \<and> norm k' = norm k then Some (enc d v) else get s d' k')"
  by (simp add: get_add get_del keeps)

end

interpretation stores: keyed_store "\<lambda>(G, s). gdbm_ok G" valid_db StrToLower "db_value crypt"
  "\<lambda>(G, s) db k. get_db G s db (Some k)"
  "\<lambda>(G, s) db k v. (G, snd (add_db G crypt s db (Some k) (Some v)))"
  "\<lambda>(G, s) db k v. (G, snd (replace_db G crypt s db (Some k) (Some v)))"
  "\<lambda>(G, s) db k. (G, snd (del_db G s db (Some k)))" for crypt
  by unfold_locales (auto simp: get_view add_view replace_view del_view)

section \<open>Properties\<close>

text \<open>C3: A database is a map from keys without regard to case to values: \<open>add_db\<close> only adds a
  missing key, \<open>replace_db\<close> only changes a present one, \<open>del_db\<close> removes one, the return values
  say whether anything was done, and no other key and no other database changes.\<close>

theorem database_map:
  assumes "gdbm_ok G" "valid_db db"
  shows "(let (r, s') = add_db G crypt s db (Some k) (Some v) in
      r = (get_db G s db (Some k) = None) \<and>
      get_db G s' db' (Some k') = (if r \<and> db' = db \<and> StrToLower k' = StrToLower k
        then Some (db_value crypt db v) else get_db G s db' (Some k')))
    \<and> (let (r, s') = replace_db G crypt s db (Some k) (Some v) in
      r = (get_db G s db (Some k) \<noteq> None) \<and>
      get_db G s' db' (Some k') = (if r \<and> db' = db \<and> StrToLower k' = StrToLower k
        then Some (db_value crypt db v) else get_db G s db' (Some k')))
    \<and> (let (r, s') = del_db G s db (Some k) in
      r = (get_db G s db (Some k) \<noteq> None) \<and>
      get_db G s' db' (Some k') = (if db' = db \<and> StrToLower k' = StrToLower k
        then None else get_db G s db' (Some k')))"
proof (rule all3; (intro impI)?)
  have inv: "(case (G, s) of (G, s) \<Rightarrow> gdbm_ok G)" using assms(1) by simp
  note results = add_view(1)[OF assms, folded get_view] replace_view(1)[OF assms, folded get_view]
    del_view(1)[OF assms, folded get_view]
  show "let (r, s') = add_db G crypt s db (Some k) (Some v) in
      r = (get_db G s db (Some k) = None) \<and>
      get_db G s' db' (Some k') = (if r \<and> db' = db \<and> StrToLower k' = StrToLower k
        then Some (db_value crypt db v) else get_db G s db' (Some k'))"
    using stores.get_add[OF inv assms(2), of crypt k v db' k']
    by (cases "add_db G crypt s db (Some k) (Some v)") (use results(1)[of crypt s k v] in \<open>simp split: if_splits\<close>)
  show "let (r, s') = replace_db G crypt s db (Some k) (Some v) in
      r = (get_db G s db (Some k) \<noteq> None) \<and>
      get_db G s' db' (Some k') = (if r \<and> db' = db \<and> StrToLower k' = StrToLower k
        then Some (db_value crypt db v) else get_db G s db' (Some k'))"
    using stores.get_replace[OF inv assms(2), of crypt k v db' k']
    by (cases "replace_db G crypt s db (Some k) (Some v)") (use results(2)[of crypt s k v] in \<open>auto split: if_splits\<close>)
  show "let (r, s') = del_db G s db (Some k) in
      r = (get_db G s db (Some k) \<noteq> None) \<and>
      get_db G s' db' (Some k') = (if db' = db \<and> StrToLower k' = StrToLower k
        then None else get_db G s db' (Some k'))"
    using stores.get_del[OF inv assms(2), of k db' k']
    by (cases "del_db G s db (Some k)") (use results(3)[of s k] in \<open>simp split: if_splits\<close>)
qed

lemma database_map_witness:
  "let (r, s') = add_db alist_gdbm id empty_dbs ACCESS_DB (Some ''Bob#C'') (Some ''+o'') in
    r = True \<and> get_db alist_gdbm s' ACCESS_DB (Some ''bob#c'') = Some ''+o''"
proof -
  have "get_db alist_gdbm empty_dbs ACCESS_DB (Some ''Bob#C'') = None"
    "StrToLower ''bob#c'' = StrToLower ''Bob#C''" by code_simp+
  with database_map[OF gdbm_ok_alist, where db = ACCESS_DB and crypt = id and s = empty_dbs and k = "''Bob#C''"
    and v = "''+o''" and db' = ACCESS_DB and k' = "''bob#c''", THEN conjunct1]
  show ?thesis by (auto simp: db_value_def split: prod.splits)
qed

text \<open>A password check against the account that was just created or whose password was just
  replaced succeeds for exactly the passwords with the same hash, whatever the case of the login;
  the check itself never fails.\<close>

lemma password_check:
  assumes "gdbm_ok G" "StrToLower k' = StrToLower k"
  shows "(get_db G s USER_DB (Some k) = None \<longrightarrow>
      check_db G crypt (snd (add_db G crypt s USER_DB (Some k) (Some pw))) USER_DB (Some k') (Some pw')
        = Some (crypt pw = crypt pw'))
    \<and> (get_db G s USER_DB (Some k) \<noteq> None \<longrightarrow>
      check_db G crypt (snd (replace_db G crypt s USER_DB (Some k) (Some pw))) USER_DB (Some k') (Some pw')
        = Some (crypt pw = crypt pw'))"
  using assms by (simp_all add: check_view get_view add_view replace_view db_value_def)

text \<open>\<open>list_db\<close> returns for every database, and lists each of its keys exactly once.\<close>

lemma list_db_complete:
  assumes "gdbm_ok G" "valid_db db"
  shows "\<exists>ks. list_db G s db = Some ks \<and> distinct ks
    \<and> set ks = {k. get_dbf s db \<noteq> None \<and> gdbm_fetch G (s db) k \<noteq> None}"
  using list_view[OF assms, of s] assms(2) by (auto simp: view_def get_dbf_def)

end
