(* ===== verification/Irc.thy ===== *)
theory Irc
  imports ChannelMode CallbackList Database Extract
begin

text \<open>
  The state of the running bot, its environment, and the message builders of \<open>irc.c\<close>.  A builder
  formats a command of the IRC protocol into a buffer it allocates and hands it to \<open>SendLine\<close>,
  which here appends the line to the trace \<open>sent\<close>.  \<open>snprintf\<close> cuts the text to the given size;
  \<open>sprintf\<close> and \<open>vsprintf\<close> past the end of the object are undefined.  The text functions of
  gettext are the identity, as in a build without native language support.
\<close>

section \<open>State and environment\<close>

text \<open>
  \<open>callbacks\<close> is the content of the callback list, which refines it.  The environment is what
  the code does not define: the database library, the password hash, the clock, how large
  the block is that \<open>malloc\<close> returns for a request, whether \<open>send\<close> returns zero for a line, the
  host names and the texts of \<open>uname\<close>, \<open>strftime\<close> and the build.
\<close>

record 'f env =
  gdbm :: "'f gdbm"
  crypt :: "string \<Rightarrow> string"
  now :: int
  usable :: "nat \<Rightarrow> nat"
  send_zero :: "string \<Rightarrow> bool"
  pw_name :: string
  hostname :: string
  uname_text :: string
  time_text :: string
  VERSIONSTR :: string

record 'f bot =
  dbs :: "'f databases"
  callbacks :: "CallbackItem_t list"
  sent :: "string list"
  pBotname :: string
  sHostname :: string
  realname :: string
  stop :: bool
  again :: bool

text \<open>A block is at least as large as requested, and \<open>gdbm\<close> behaves as documented.\<close>

definition env_ok :: "'f env \<Rightarrow> bool" where
  "env_ok E \<longleftrightarrow> gdbm_ok (gdbm E) \<and> (\<forall>n. n \<le> usable E n)"

abbreviation db_get :: "'f env \<Rightarrow> 'f bot \<Rightarrow> int \<Rightarrow> string option \<Rightarrow> string option" where
  "db_get E b \<equiv> get_db (gdbm E) (dbs b)"

abbreviation db_exist :: "'f env \<Rightarrow> 'f bot \<Rightarrow> int \<Rightarrow> string option \<Rightarrow> bool" where
  "db_exist E b \<equiv> exist_db (gdbm E) (dbs b)"

definition db_add :: "'f env \<Rightarrow> int \<Rightarrow> string option \<Rightarrow> string option \<Rightarrow> 'f bot \<Rightarrow> bool \<times> 'f bot" where
  "db_add E db k v b = map_prod id (\<lambda>s. b\<lparr>dbs := s\<rparr>) (add_db (gdbm E) (crypt E) (dbs b) db k v)"

definition db_replace :: "'f env \<Rightarrow> int \<Rightarrow> string option \<Rightarrow> string option \<Rightarrow> 'f bot \<Rightarrow> bool \<times> 'f bot" where
  "db_replace E db k v b = map_prod id (\<lambda>s. b\<lparr>dbs := s\<rparr>) (replace_db (gdbm E) (crypt E) (dbs b) db k v)"

definition db_del :: "'f env \<Rightarrow> int \<Rightarrow> string option \<Rightarrow> 'f bot \<Rightarrow> bool \<times> 'f bot" where
  "db_del E db k b = map_prod id (\<lambda>s. b\<lparr>dbs := s\<rparr>) (del_db (gdbm E) (dbs b) db k)"

section \<open>Sending\<close>

definition SendLine :: "'f env \<Rightarrow> string \<Rightarrow> 'f bot \<Rightarrow> 'f bot" where
  "SendLine E pMsg b = b\<lparr>sent := sent b @ [pMsg], stop := stop b \<or> send_zero E pMsg\<rparr>"

definition snprintf :: "nat \<Rightarrow> string \<Rightarrow> string" where
  "snprintf n text = take (n - 1) text"

definition sprintf :: "'f env \<Rightarrow> nat \<Rightarrow> string \<Rightarrow> string c_result" where
  "sprintf E n text = (if length text + 1 \<le> usable E n then Some text else None)"

definition user :: "'f env \<Rightarrow> 'f bot \<Rightarrow> 'f bot" where
  "user E b = (let buffer_size = 4 + length (pw_name E) + length (hostname E) + length (sHostname b)
       + length (realname b) + 8
     in SendLine E (snprintf buffer_size (''USER '' @ pw_name E @ '' '' @ hostname E @ '' ''
          @ sHostname b @ '' :'' @ realname b @ CRLF)) b)"

definition privmsg :: "'f env \<Rightarrow> string option \<Rightarrow> string option \<Rightarrow> 'f bot \<Rightarrow> 'f bot" where
  "privmsg E pTarget pMsgStr b = (case (pTarget, pMsgStr) of
       (Some t, Some m) \<Rightarrow> SendLine E (snprintf (8 + length t + length m + 5)
          (''PRIVMSG '' @ t @ '' :'' @ m @ CRLF)) b
     | _ \<Rightarrow> b)"

text \<open>\<open>action\<close> writes the text at index 1 of its buffer, between two bytes 1.\<close>

definition action :: "'f env \<Rightarrow> string option \<Rightarrow> string option \<Rightarrow> 'f bot \<Rightarrow> 'f bot" where
  "action E pTarget pMsgStr b = (case (pTarget, pMsgStr) of
       (Some t, Some m) \<Rightarrow>
          let nStrSize = 7 + length m + 3;
              body = snprintf (nStrSize - 2) (''ACTION '' @ m);
              buffer = SOH # body @ (if length body = nStrSize - 3 then [SOH] else [])
          in privmsg E (Some t) (Some buffer) b
     | _ \<Rightarrow> b)"

definition notice :: "'f env \<Rightarrow> string option \<Rightarrow> string option \<Rightarrow> 'f bot \<Rightarrow> 'f bot" where
  "notice E pNick pMsgStr b = (case (pNick, pMsgStr) of
       (Some n, Some m) \<Rightarrow> SendLine E (snprintf (7 + length n + length m + 5)
          (''NOTICE '' @ n @ '' :'' @ m @ CRLF)) b
     | _ \<Rightarrow> b)"

text \<open>
  The conversions of \<open>vsprintf\<close> that occur in the program.  A missing argument, an unknown
  conversion or a lone \<open>%\<close> at the end is undefined; the latter two happen where a text that
  the code did not write is the format.
\<close>

fun c_format :: "string \<Rightarrow> string list \<Rightarrow> string c_result" where
  "c_format [] args = Some []"
| "c_format (c # cs) args =
     (if c \<noteq> CHR ''%'' then do { r \<leftarrow> c_format cs args; Some (c # r) }
      else (case cs of
          [] \<Rightarrow> None
        | d # ds \<Rightarrow>
           if d = CHR ''%'' then do { r \<leftarrow> c_format ds args; Some (CHR ''%'' # r) }
           else if d = CHR ''s'' \<or> d = CHR ''c'' then
             (case args of [] \<Rightarrow> None
              | a # as \<Rightarrow> do { r \<leftarrow> c_format ds as; Some (a @ r) })
           else None))"

definition sendMsg :: "'f env \<Rightarrow> AnswerMode_t \<Rightarrow> string option \<Rightarrow> string \<Rightarrow> string list \<Rightarrow> 'f bot
    \<Rightarrow> 'f bot c_result" where
  "sendMsg E AnswerMode pNick fmt args b = do {
     pMsg \<leftarrow> c_format fmt args;
     if length pMsg + 1 \<le> 1024
     then Some (case AnswerMode of NoticeMode \<Rightarrow> notice E pNick (Some pMsg) b
                | PrvMsgMode \<Rightarrow> privmsg E pNick (Some pMsg) b)
     else None }"

definition join :: "'f env \<Rightarrow> string option \<Rightarrow> 'f bot \<Rightarrow> 'f bot" where
  "join E pChannel b = (case pChannel of None \<Rightarrow> b
     | Some c \<Rightarrow> SendLine E (snprintf (5 + length c + 3) (''JOIN '' @ c @ CRLF)) b)"

definition part :: "'f env \<Rightarrow> string option \<Rightarrow> 'f bot \<Rightarrow> 'f bot" where
  "part E pChannel b = (case pChannel of None \<Rightarrow> b
     | Some c \<Rightarrow> SendLine E (snprintf (5 + length c + 3) (''PART '' @ c @ CRLF)) b)"

text \<open>Without a parameter \<open>pong\<close> takes the length of a buffer it has not filled.\<close>

definition pong :: "'f env \<Rightarrow> string option \<Rightarrow> 'f bot \<Rightarrow> 'f bot c_result" where
  "pong E pPong b = (case pPong of None \<Rightarrow> None
     | Some p \<Rightarrow> Some (SendLine E (snprintf (5 + length p + 3) (''PONG '' @ p @ CRLF)) b))"

definition ping :: "'f env \<Rightarrow> string option \<Rightarrow> 'f bot \<Rightarrow> 'f bot" where
  "ping E pTarget b = (case pTarget of None \<Rightarrow> b
     | Some t \<Rightarrow> SendLine E (snprintf (5 + length t + 3) (''PING '' @ t @ CRLF)) b)"

definition invite :: "'f env \<Rightarrow> string option \<Rightarrow> string option \<Rightarrow> 'f bot \<Rightarrow> 'f bot" where
  "invite E pChannel pNick b = (case pNick of None \<Rightarrow> b
     | Some n \<Rightarrow> (let c = (case pChannel of None \<Rightarrow> [] | Some c \<Rightarrow> c) in
         SendLine E (snprintf (6 + length n + length c + 5) (''INVITE '' @ n @ '' '' @ c @ CRLF)) b))"

definition nick :: "'f env \<Rightarrow> string option \<Rightarrow> 'f bot \<Rightarrow> 'f bot" where
  "nick E pNick b = (case pNick of None \<Rightarrow> b
     | Some n \<Rightarrow> SendLine E (snprintf (5 + length n + 3) (''NICK '' @ n @ CRLF)) b)"

definition topic :: "'f env \<Rightarrow> string option \<Rightarrow> string option \<Rightarrow> 'f bot \<Rightarrow> 'f bot" where
  "topic E pChannel pMsgStr b = (case (pChannel, pMsgStr) of
       (Some c, Some m) \<Rightarrow> SendLine E (snprintf (6 + length c + length m + 5)
          (''TOPIC '' @ c @ '' :'' @ m @ CRLF)) b
     | _ \<Rightarrow> b)"

definition kick :: "'f env \<Rightarrow> string option \<Rightarrow> string option \<Rightarrow> string option \<Rightarrow> 'f bot \<Rightarrow> 'f bot c_result" where
  "kick E pChannel pNick pMsgStr b = (case (pChannel, pNick, pMsgStr) of
       (Some c, Some n, Some m) \<Rightarrow> do {
          s \<leftarrow> sprintf E (5 + length c + length n + length m + 6)
                 (''KICK '' @ c @ '' '' @ n @ '' :'' @ m @ CRLF);
          Some (SendLine E s b) }
     | _ \<Rightarrow> Some b)"

definition ban :: "'f env \<Rightarrow> string option \<Rightarrow> string option \<Rightarrow> 'f bot \<Rightarrow> 'f bot c_result" where
  "ban E pChannel pMask b = (case (pChannel, pMask) of
       (Some c, Some m) \<Rightarrow> do {
          s \<leftarrow> sprintf E (5 + length c + length m + 6) (''MODE '' @ c @ '' +b '' @ m @ CRLF);
          Some (SendLine E s b) }
     | _ \<Rightarrow> Some b)"

definition deban :: "'f env \<Rightarrow> string option \<Rightarrow> string option \<Rightarrow> 'f bot \<Rightarrow> 'f bot c_result" where
  "deban E pChannel pMask b = (case (pChannel, pMask) of
       (Some c, Some m) \<Rightarrow> do {
          s \<leftarrow> sprintf E (5 + length c + length m + 6) (''MODE '' @ c @ '' -b '' @ m @ CRLF);
          Some (SendLine E s b) }
     | _ \<Rightarrow> Some b)"

definition mode :: "'f env \<Rightarrow> string option \<Rightarrow> string option \<Rightarrow> string option \<Rightarrow> 'f bot \<Rightarrow> 'f bot c_result" where
  "mode E pChannel pMod pModParameter b = (case (pChannel, pMod) of
       (Some c, Some m) \<Rightarrow>
          let p = (case pModParameter of None \<Rightarrow> [] | Some p \<Rightarrow> p) in do {
          s \<leftarrow> sprintf E (5 + length c + length m + length p + 5)
                 (''MODE '' @ c @ '' '' @ m @ '' '' @ p @ CRLF);
          Some (SendLine E s b) }
     | _ \<Rightarrow> Some b)"

definition whois :: "'f env \<Rightarrow> string option \<Rightarrow> 'f bot \<Rightarrow> 'f bot c_result" where
  "whois E pNickname b = (case pNickname of None \<Rightarrow> Some b
     | Some n \<Rightarrow> do {
          s \<leftarrow> sprintf E (6 + length n + 3) (''WHOIS '' @ n @ CRLF);
          Some (SendLine E s b) })"

definition quit :: "'f env \<Rightarrow> 'f bot \<Rightarrow> 'f bot" where
  "quit E = SendLine E (''QUIT'' @ CRLF)"

definition stopParser :: "'f env \<Rightarrow> 'f bot \<Rightarrow> 'f bot" where
  "stopParser E b = (let b = (if \<not> stop b then quit E b else b) in b\<lparr>stop := True\<rparr>)"


section \<open>What the builders send\<close>

lemma snprintf_fits: "length text < n \<Longrightarrow> snprintf n text = text"
  by (simp add: snprintf_def)

lemma sprintf_fits: "env_ok E \<Longrightarrow> length text < n \<Longrightarrow> sprintf E n text = Some text"
  by (auto simp: sprintf_def env_ok_def intro: order_trans[of _ n])

lemma user_line_sent: "user E b = SendLine E (''USER '' @ pw_name E @ '' '' @ hostname E @ '' ''
    @ sHostname b @ '' :'' @ realname b @ CRLF) b"
  by (simp add: user_def Let_def snprintf_fits)

lemma privmsg_sent [simp]: "privmsg E (Some t) (Some m) b = SendLine E (''PRIVMSG '' @ t @ '' :'' @ m @ CRLF) b"
  by (simp add: privmsg_def snprintf_fits)

lemma action_sent [simp]: "action E (Some t) (Some m) b
    = SendLine E (''PRIVMSG '' @ t @ '' :'' @ [SOH] @ ''ACTION '' @ m @ [SOH] @ CRLF) b"
  by (simp add: action_def snprintf_fits Let_def)

lemma notice_sent [simp]: "notice E (Some n) (Some m) b = SendLine E (''NOTICE '' @ n @ '' :'' @ m @ CRLF) b"
  by (simp add: notice_def snprintf_fits)

lemma join_sent [simp]: "join E (Some c) b = SendLine E (''JOIN '' @ c @ CRLF) b"
  by (simp add: join_def snprintf_fits)

lemma part_sent [simp]: "part E (Some c) b = SendLine E (''PART '' @ c @ CRLF) b"
  by (simp add: part_def snprintf_fits)

lemma pong_sent [simp]: "pong E (Some c) b = Some (SendLine E (''PONG '' @ c @ CRLF) b)"
  by (simp add: pong_def snprintf_fits)

lemma ping_sent [simp]: "ping E (Some c) b = SendLine E (''PING '' @ c @ CRLF) b"
  by (simp add: ping_def snprintf_fits)

lemma invite_sent [simp]: "invite E (Some c) (Some n) b = SendLine E (''INVITE '' @ n @ '' '' @ c @ CRLF) b"
  by (simp add: invite_def snprintf_fits)

lemma nick_sent [simp]: "nick E (Some n) b = SendLine E (''NICK '' @ n @ CRLF) b"
  by (simp add: nick_def snprintf_fits)

lemma topic_sent [simp]: "topic E (Some c) (Some m) b = SendLine E (''TOPIC '' @ c @ '' :'' @ m @ CRLF) b"
  by (simp add: topic_def snprintf_fits)

lemma kick_sent [simp]: "env_ok E \<Longrightarrow> kick E (Some c) (Some n) (Some m) b
    = Some (SendLine E (''KICK '' @ c @ '' '' @ n @ '' :'' @ m @ CRLF) b)"
  by (simp add: kick_def sprintf_fits)

lemma mode_sent [simp]: "env_ok E \<Longrightarrow> mode E (Some c) (Some m) p b
    = Some (SendLine E (''MODE '' @ c @ '' '' @ m @ '' '' @ (case p of None \<Rightarrow> [] | Some p \<Rightarrow> p) @ CRLF) b)"
  by (simp add: mode_def sprintf_fits)

lemma whois_sent [simp]: "env_ok E \<Longrightarrow> whois E (Some n) b = Some (SendLine E (''WHOIS '' @ n @ CRLF) b)"
  by (simp add: whois_def sprintf_fits)

lemma null_args [simp]:
  "privmsg E None m b = b" "privmsg E t None b = b" "action E None m b = b" "action E t None b = b"
  "notice E None m b = b" "notice E t None b = b" "join E None b = b" "part E None b = b"
  "ping E None b = b" "invite E c None b = b" "nick E None b = b" "topic E None m b = b"
  "topic E c None b = b" "kick E None n m b = Some b" "kick E c None m b = Some b"
  "mode E None m p b = Some b" "mode E c None p b = Some b" "whois E None b = Some b"
  by (auto simp: privmsg_def action_def notice_def join_def part_def ping_def invite_def nick_def
      topic_def kick_def mode_def whois_def split: option.splits)

section \<open>Frames\<close>

text \<open>Sending changes the trace and the stop flag only.\<close>

definition sends :: "'f bot \<Rightarrow> 'f bot \<Rightarrow> bool" where
  "sends b b' \<longleftrightarrow> dbs b' = dbs b \<and> callbacks b' = callbacks b \<and> pBotname b' = pBotname b
     \<and> sHostname b' = sHostname b \<and> realname b' = realname b \<and> again b' = again b
     \<and> (\<exists>ls. sent b' = sent b @ ls) \<and> (stop b \<longrightarrow> stop b')"

lemma sends_refl [simp, intro]: "sends b b" by (simp add: sends_def)

lemma sends_trans [trans]: "sends a b \<Longrightarrow> sends b c \<Longrightarrow> sends a c" by (auto simp: sends_def)

lemma sends_SendLine [simp, frames]: "sends b (SendLine E m b)" by (simp add: sends_def SendLine_def)

lemma sends_step: "sends b b' \<Longrightarrow> sends b (SendLine E m b')"
  by (rule sends_trans[OF _ sends_SendLine])

lemma sends_fields: "sends b b' \<Longrightarrow> dbs b' = dbs b \<and> callbacks b' = callbacks b \<and> pBotname b' = pBotname b"
  by (simp add: sends_def)

lemma sends_total [frames]:
  "sends b (privmsg E t m b)" "sends b (notice E t m b)" "sends b (join E t b)" "sends b (part E t b)"
  "sends b (ping E t b)" "sends b (invite E t m b)" "sends b (nick E t b)" "sends b (topic E t m b)"
  by (auto simp: privmsg_def notice_def join_def part_def ping_def invite_def nick_def topic_def Let_def
      split: option.splits)

lemma sends_action [frames]: "sends b (action E t m b)"
  by (auto simp: action_def Let_def sends_total split: option.splits)

lemma sends_partial [frames]:
  "kick E c n m b = Some b' \<Longrightarrow> sends b b'" "ban E c m b = Some b' \<Longrightarrow> sends b b'"
  "deban E c m b = Some b' \<Longrightarrow> sends b b'" "mode E c m p b = Some b' \<Longrightarrow> sends b b'"
  "whois E n b = Some b' \<Longrightarrow> sends b b'" "sendMsg E a n f args b = Some b' \<Longrightarrow> sends b b'"
  "pong E n b = Some b' \<Longrightarrow> sends b b'"
  by (auto simp: kick_def ban_def deban_def mode_def whois_def sendMsg_def pong_def Let_def
      bind_eq_Some_conv sends_total split: option.splits if_splits AnswerMode_t.splits)

lemma SendLine_fields [simp]:
  "dbs (SendLine E m b) = dbs b" "callbacks (SendLine E m b) = callbacks b"
  "pBotname (SendLine E m b) = pBotname b" "sent (SendLine E m b) = sent b @ [m]"
  "again (SendLine E m b) = again b"
  by (simp_all add: SendLine_def)

text \<open>A fixed text without conversions is sent as it is.\<close>

lemma c_format_plain: "CHR ''%'' \<notin> set fmt \<Longrightarrow> c_format fmt args = Some fmt"
  by (induction fmt) auto

lemma c_format_append:
  "CHR ''%'' \<notin> set fmt \<Longrightarrow> c_format (fmt @ rest) args = map_option ((@) fmt) (c_format rest args)"
  by (induction fmt) (auto simp: option.map_comp comp_def map_option_case split: option.splits)

lemma sendMsg_plain:
  assumes "CHR ''%'' \<notin> set fmt" "length fmt < 1024"
  shows "sendMsg E a n fmt args b = Some (case a of NoticeMode \<Rightarrow> notice E n (Some fmt) b
    | PrvMsgMode \<Rightarrow> privmsg E n (Some fmt) b)"
  using assms by (simp add: sendMsg_def c_format_plain)

text \<open>The text of a message with one inserted string.\<close>

lemma c_format_one:
  assumes "CHR ''%'' \<notin> set pre" "CHR ''%'' \<notin> set post"
  shows "c_format (pre @ ''%s'' @ post) [x] = Some (pre @ x @ post)"
  using assms by (simp add: c_format_append c_format_plain)

section \<open>Properties\<close>

text \<open>Every message builder but the two for bans writes its complete command into the buffer it
  allocates, whatever the lengths of the arguments, so that each line that reaches the server is
  complete and ends in a carriage return and a line feed.\<close>

lemma builders_complete:
  assumes "env_ok E"
  shows "(sent (user E b) = sent b @ [''USER '' @ pw_name E @ '' '' @ hostname E @ '' ''
      @ sHostname b @ '' :'' @ realname b @ CRLF])
    \<and> (sent (privmsg E (Some t) (Some m) b) = sent b @ [''PRIVMSG '' @ t @ '' :'' @ m @ CRLF])
    \<and> (sent (action E (Some t) (Some m) b)
      = sent b @ [''PRIVMSG '' @ t @ '' :'' @ [SOH] @ ''ACTION '' @ m @ [SOH] @ CRLF])
    \<and> (sent (notice E (Some t) (Some m) b) = sent b @ [''NOTICE '' @ t @ '' :'' @ m @ CRLF])
    \<and> (sent (invite E (Some t) (Some m) b) = sent b @ [''INVITE '' @ m @ '' '' @ t @ CRLF])
    \<and> (sent (topic E (Some t) (Some m) b) = sent b @ [''TOPIC '' @ t @ '' :'' @ m @ CRLF])
    \<and> (map_option sent (kick E (Some t) (Some n) (Some m) b)
      = Some (sent b @ [''KICK '' @ t @ '' '' @ n @ '' :'' @ m @ CRLF]))
    \<and> (map_option sent (mode E (Some t) (Some n) (Some m) b)
      = Some (sent b @ [''MODE '' @ t @ '' '' @ n @ '' '' @ m @ CRLF]))
    \<and> (map_option sent (whois E (Some n) b) = Some (sent b @ [''WHOIS '' @ n @ CRLF]))"
  using assms by (simp_all add: user_line_sent)

definition exact_env :: "(string \<times> string) list env" where
  "exact_env = \<lparr>gdbm = alist_gdbm, crypt = rev, now = 1000, usable = id, send_zero = (\<lambda>_. False),
     pw_name = ''bot'', hostname = ''host'', uname_text = ''Linux'', time_text = ''now'',
     VERSIONSTR = ''ebotula''\<rparr>"

definition empty_bot :: "(string \<times> string) list bot" where
  "empty_bot = \<lparr>dbs = empty_dbs, callbacks = [], sent = [], pBotname = ''ebotula'', sHostname = ''irc'',
     realname = ''bot'', stop = False, again = False\<rparr>"

lemma exact_env_ok [simp]: "env_ok exact_env"
  by (simp add: env_ok_def exact_env_def gdbm_ok_alist)

text \<open>The builders for setting and for removing a ban write one byte more than they allocate:
  they stay within their buffer only where \<open>malloc\<close> returns a larger block than requested, and
  with an exact allocator every ban with a channel and a mask runs past the end of the block.\<close>

lemma ban_needs_slack:
  "(ban E (Some c) (Some m) b = (if usable E (11 + length c + length m) \<ge> 12 + length c + length m
      then Some (SendLine E (''MODE '' @ c @ '' +b '' @ m @ CRLF) b) else None))
    \<and> (deban E (Some c) (Some m) b = (if usable E (11 + length c + length m) \<ge> 12 + length c + length m
      then Some (SendLine E (''MODE '' @ c @ '' -b '' @ m @ CRLF) b) else None))"
  by (simp_all add: ban_def deban_def sprintf_def add.commute add.left_commute)

text \<open>\<open>sendMsg\<close> with a format that the program wrote and one inserted text delivers the
  complete message exactly if it fits into the 1024 byte buffer; a text from outside as the
  format that contains a lone conversion is undefined behaviour.\<close>

lemma sendMsg_formats:
  assumes "CHR ''%'' \<notin> set pre" "CHR ''%'' \<notin> set post"
  shows "(sendMsg E NoticeMode (Some n) (pre @ ''%s'' @ post) [x] b =
      (if length pre + length x + length post < 1024
       then Some (SendLine E (''NOTICE '' @ n @ '' :'' @ pre @ x @ post @ CRLF) b) else None))
    \<and> (sendMsg E a (Some n) (pre @ ''%s'' @ post) [] b = None)"
  using assms by (simp_all add: sendMsg_def c_format_append c_format_plain)

end
