(* ===== verification/Account.thy ===== *)
theory Account
  imports Irc
begin

text \<open>
  The accounts of \<open>account.c\<close>: user levels, logging on and off, and the removal of accounts and
  access rights.  A login is logged on while the two databases \<open>USERTONICK_DB\<close> and
  \<open>NICKTOUSER_DB\<close> map it and its netmask to each other; \<open>logins_ok\<close> states that they are inverse.
  An access right is stored under the login for a bot master, and under the login followed by
  the channel otherwise.
\<close>

section \<open>Data\<close>

datatype UserLevel_t = NoneLevel | LoggedLevel | FriendLevel | OwnerLevel | MasterLevel

text \<open>The value of the enumeration constant.\<close>

fun level :: "UserLevel_t \<Rightarrow> nat" where
  "level NoneLevel = 0" | "level LoggedLevel = 1" | "level FriendLevel = 2"
| "level OwnerLevel = 3" | "level MasterLevel = 4"

instantiation UserLevel_t :: linorder
begin

definition less_eq_UserLevel_t :: "UserLevel_t \<Rightarrow> UserLevel_t \<Rightarrow> bool" where
  "less_eq_UserLevel_t a b \<longleftrightarrow> level a \<le> level b"

definition less_UserLevel_t :: "UserLevel_t \<Rightarrow> UserLevel_t \<Rightarrow> bool" where
  "less_UserLevel_t a b \<longleftrightarrow> level a < level b"

instance
proof
  have inj: "level a = level b \<Longrightarrow> a = b" for a b by (cases a; cases b) simp_all
  show "x \<le> y \<Longrightarrow> y \<le> x \<Longrightarrow> x = y" for x y :: UserLevel_t
    using inj by (simp add: less_eq_UserLevel_t_def)
qed (auto simp: less_eq_UserLevel_t_def less_UserLevel_t_def)

end

text \<open>
  \<open>char_at s i\<close> reads a character of a string in a buffer of its size: the terminator at the end,
  nothing beyond.  \<open>set_first\<close> writes the first character; on the empty string that would
  overwrite the terminator.
\<close>

definition char_at :: "string \<Rightarrow> nat \<Rightarrow> char c_result" where
  "char_at s i = (if i < length s then Some (s ! i) else if i = length s then Some (CHR 0x00) else None)"

definition set_first :: "char \<Rightarrow> string \<Rightarrow> string c_result" where
  "set_first c s = (case s of [] \<Rightarrow> None | _ # r \<Rightarrow> Some (c # r))"

text \<open>The loops that pop a list of keys from a queue until it is empty.\<close>

primrec for_each :: "('a \<Rightarrow> 's \<Rightarrow> 's c_result) \<Rightarrow> 'a list \<Rightarrow> 's \<Rightarrow> 's c_result" where
  "for_each f [] s = Some s"
| "for_each f (x # xs) s = do { s \<leftarrow> f x s; for_each f xs s }"

section \<open>Operations\<close>

definition getUserLevel :: "'f env \<Rightarrow> 'f bot \<Rightarrow> string option \<Rightarrow> string option \<Rightarrow> UserLevel_t" where
  "getUserLevel E b pChannel pNetmask = (case db_get E b NICKTOUSER_DB pNetmask of
       None \<Rightarrow> NoneLevel
     | Some pLogin \<Rightarrow>
        (case pChannel of
           Some c \<Rightarrow>
             (case db_get E b ACCESS_DB (Some (pLogin @ c)) of
                Some pLevel \<Rightarrow>
                  (if strchr pLevel (CHR ''o'') \<noteq> None then OwnerLevel
                   else if strchr pLevel (CHR ''v'') \<noteq> None then FriendLevel
                   else LoggedLevel)
              | None \<Rightarrow>
                  (if db_get E b ACCESS_DB (Some pLogin) \<noteq> None then MasterLevel else LoggedLevel))
         | None \<Rightarrow>
             (if db_get E b ACCESS_DB (Some pLogin) \<noteq> None then MasterLevel else LoggedLevel)))"

definition log_on_tables :: "'f env \<Rightarrow> string option \<Rightarrow> string \<Rightarrow> 'f bot \<Rightarrow> 'f bot" where
  "log_on_tables E pNetmask pLogin b =
     (if db_exist E b USERTONICK_DB (Some pLogin) then
        (case db_get E b USERTONICK_DB (Some pLogin) of
           None \<Rightarrow> b
         | Some pOldNetmask \<Rightarrow>
             let b = snd (db_del E NICKTOUSER_DB (Some pOldNetmask) b);
                 b = snd (db_add E NICKTOUSER_DB pNetmask (Some pLogin) b)
             in snd (db_replace E USERTONICK_DB (Some pLogin) pNetmask b))
      else
        let b = snd (db_add E NICKTOUSER_DB pNetmask (Some pLogin) b)
        in snd (db_add E USERTONICK_DB (Some pLogin) pNetmask b))"

definition log_on :: "'f env \<Rightarrow> string option \<Rightarrow> string \<Rightarrow> 'f bot \<Rightarrow> 'f bot" where
  "log_on E pNetmask pLogin b =
     (let b = log_on_tables E pNetmask pLogin b;
          pTime = show_long (now E)
      in if db_exist E b TIMELOG_DB (Some pLogin)
         then snd (db_replace E TIMELOG_DB (Some pLogin) (Some pTime) b)
         else snd (db_add E TIMELOG_DB (Some pLogin) (Some pTime) b))"

text \<open>\<open>log_out\<close> is \<open>__log_out\<close> under the account mutex.\<close>

definition log_out :: "'f env \<Rightarrow> string \<Rightarrow> 'f bot \<Rightarrow> 'f bot" where
  "log_out E pLogin b = (case db_get E b USERTONICK_DB (Some pLogin) of
       None \<Rightarrow> b
     | Some pNetmask \<Rightarrow>
         let b = snd (db_del E NICKTOUSER_DB (Some pNetmask) b)
         in snd (db_del E USERTONICK_DB (Some pLogin) b))"

definition rmAccessRights :: "'f env \<Rightarrow> string \<Rightarrow> 'f bot \<Rightarrow> 'f bot c_result" where
  "rmAccessRights E pLogin b = do {
     let b = snd (db_del E ACCESS_DB (Some pLogin) b);
     pChannelQueue \<leftarrow> list_db (gdbm E) (dbs b) CHANNEL_DB;
     for_each (\<lambda>pChannel b. Some (snd (db_del E ACCESS_DB (Some (pLogin @ pChannel)) b)))
       pChannelQueue b }"

definition rmAccount :: "'f env \<Rightarrow> string \<Rightarrow> 'f bot \<Rightarrow> 'f bot c_result" where
  "rmAccount E pLogin b = do {
     let b = log_out E pLogin b;
     b \<leftarrow> rmAccessRights E pLogin b;
     let b = snd (db_del E USER_DB (Some pLogin) b);
     Some (snd (db_del E TIMELOG_DB (Some pLogin) b)) }"

definition rmDeadLogins :: "'f env \<Rightarrow> int \<Rightarrow> 'f bot \<Rightarrow> 'f bot c_result" where
  "rmDeadLogins E lCheckTime b = do {
     pLoginQueue \<leftarrow> list_db (gdbm E) (dbs b) USER_DB;
     for_each (\<lambda>pLogin b. Some (case db_get E b TIMELOG_DB (Some pLogin) of
         None \<Rightarrow> b
       | Some pTime \<Rightarrow>
           if db_exist E b USERTONICK_DB (Some pLogin) \<and> lCheckTime > atol pTime
           then log_out E pLogin b else b)) pLoginQueue b }"

definition rmDeadAccounts :: "'f env \<Rightarrow> int \<Rightarrow> 'f bot \<Rightarrow> 'f bot c_result" where
  "rmDeadAccounts E lCheckTime b = do {
     pLoginQueue \<leftarrow> list_db (gdbm E) (dbs b) TIMELOG_DB;
     for_each (\<lambda>pLogin b. case db_get E b TIMELOG_DB (Some pLogin) of
         None \<Rightarrow> Some b
       | Some pTime \<Rightarrow> if lCheckTime > atol pTime then rmAccount E pLogin b else Some b)
       pLoginQueue b }"

text \<open>With a null \<open>pLogin\<close> the variable \<open>pMod\<close> is read uninitialised.\<close>

definition checkUserLevel :: "'f env \<Rightarrow> 'f bot \<Rightarrow> string option \<Rightarrow> string option \<Rightarrow> string option \<Rightarrow> bool c_result" where
  "checkUserLevel E b pCmdLogin pLogin pChannel = do {
     l \<leftarrow> pLogin;
     c \<leftarrow> pChannel;
     let pMod = (case db_get E b ACCESS_DB (Some (l @ c)) of
                   Some m \<Rightarrow> Some m
                 | None \<Rightarrow> db_get E b ACCESS_DB (Some l));
     (case pMod of
        None \<Rightarrow> Some True
      | Some m \<Rightarrow> do {
          m1 \<leftarrow> char_at m 1;
          Some (if m1 = CHR ''m'' then False
                else if db_exist E b ACCESS_DB pCmdLogin then True
                else m1 \<noteq> CHR ''o'') }) }"

section \<open>Views\<close>

abbreviation V :: "'f env \<Rightarrow> 'f bot \<Rightarrow> int \<Rightarrow> string \<Rightarrow> string option" where
  "V E b \<equiv> view (gdbm E) (dbs b)"

lemma env_gdbm: "env_ok E \<Longrightarrow> gdbm_ok (gdbm E)" by (simp add: env_ok_def)

lemma V_get [simp]: "db_get E b db (Some k) = V E b db (StrToLower k)" by (rule get_view)

lemma V_exist [simp]: "env_ok E \<Longrightarrow> db_exist E b db (Some k) \<longleftrightarrow> V E b db (StrToLower k) \<noteq> None"
  by (rule exist_view[OF env_gdbm])

lemma V_add [simp]:
  assumes "env_ok E" "valid_db db"
  shows "V E (snd (db_add E db (Some k) (Some v) b)) = (V E b)(db :=
      (if V E b db (StrToLower k) = None
       then (V E b db)(StrToLower k \<mapsto> db_value (crypt E) db v) else V E b db))"
    and "fst (db_add E db (Some k) (Some v) b) \<longleftrightarrow> V E b db (StrToLower k) = None"
  using add_view[OF env_gdbm[OF assms(1)] assms(2), of "crypt E" "dbs b" k v]
  by (simp_all add: db_add_def)

lemma V_replace [simp]:
  assumes "env_ok E" "valid_db db"
  shows "V E (snd (db_replace E db (Some k) (Some v) b)) = (V E b)(db :=
      (if V E b db (StrToLower k) \<noteq> None
       then (V E b db)(StrToLower k \<mapsto> db_value (crypt E) db v) else V E b db))"
    and "fst (db_replace E db (Some k) (Some v) b) \<longleftrightarrow> V E b db (StrToLower k) \<noteq> None"
  using replace_view[OF env_gdbm[OF assms(1)] assms(2), of "crypt E" "dbs b" k v]
  by (simp_all add: db_replace_def)

lemma V_del [simp]:
  assumes "env_ok E" "valid_db db"
  shows "V E (snd (db_del E db (Some k) b)) = (V E b)(db := (V E b db)(StrToLower k := None))"
    and "fst (db_del E db (Some k) b) \<longleftrightarrow> V E b db (StrToLower k) \<noteq> None"
  using del_view[OF env_gdbm[OF assms(1)] assms(2), of "dbs b" k]
  by (simp_all add: db_del_def)

lemma V_list:
  assumes "env_ok E" "valid_db db"
  obtains ks where "list_db (gdbm E) (dbs b) db = Some ks" "distinct ks" "set ks = dom (V E b db)"
  using list_view[OF env_gdbm[OF assms(1)] assms(2)] by blast

text \<open>The databases and nothing else of the bot changes.\<close>

definition stores_only :: "'f bot \<Rightarrow> 'f bot \<Rightarrow> bool" where
  "stores_only b b' \<longleftrightarrow> (\<exists>s. b' = b\<lparr>dbs := s\<rparr>)"

lemma stores_only_refl [simp, intro]: "stores_only b b" unfolding stores_only_def by (rule exI[of _ "dbs b"]) simp

lemma stores_only_trans [trans]: "stores_only a b \<Longrightarrow> stores_only b c \<Longrightarrow> stores_only a c"
  by (auto simp: stores_only_def)

lemma stores_only_db [frames]:
  "stores_only b (snd (db_add E db k v b))" "stores_only b (snd (db_replace E db k v b))"
  "stores_only b (snd (db_del E db k b))"
  by (auto simp: stores_only_def db_add_def db_replace_def db_del_def)

lemma stores_only_sent: "stores_only b b' \<Longrightarrow> sent b' = sent b"
  by (auto simp: stores_only_def)

text \<open>All keys of the databases are in lower case; every operation keeps that.\<close>

definition keys_lower :: "'f env \<Rightarrow> 'f bot \<Rightarrow> bool" where
  "keys_lower E b \<longleftrightarrow> (\<forall>db k. V E b db k \<noteq> None \<longrightarrow> lowercase k)"

lemma keys_lower_D: "keys_lower E b \<Longrightarrow> V E b db k = Some v \<Longrightarrow> StrToLower k = k"
  by (auto simp: keys_lower_def intro: StrToLower_id)

section \<open>The login tables\<close>

definition logins_ok :: "'f env \<Rightarrow> 'f bot \<Rightarrow> bool" where
  "logins_ok E b \<longleftrightarrow>
     (\<forall>n l. V E b NICKTOUSER_DB n = Some l \<longrightarrow>
        (\<exists>n'. V E b USERTONICK_DB (StrToLower l) = Some n' \<and> StrToLower n' = n))
   \<and> (\<forall>l n. V E b USERTONICK_DB l = Some n \<longrightarrow>
        (\<exists>l'. V E b NICKTOUSER_DB (StrToLower n) = Some l' \<and> StrToLower l' = l))"

lemma logins_okD:
  assumes "logins_ok E b"
  shows "V E b NICKTOUSER_DB n = Some l \<Longrightarrow> \<exists>n'. V E b USERTONICK_DB (StrToLower l) = Some n' \<and> StrToLower n' = n"
    and "V E b USERTONICK_DB k = Some m \<Longrightarrow> \<exists>l'. V E b NICKTOUSER_DB (StrToLower m) = Some l' \<and> StrToLower l' = k"
  using assms unfolding logins_ok_def by blast+

lemma value_plain [simp]: "db_value c NICKTOUSER_DB v = v" "db_value c USERTONICK_DB v = v"
  "db_value c TIMELOG_DB v = v" "db_value c ACCESS_DB v = v" "db_value c CHANNEL_DB v = v"
  by (simp_all add: db_value_def)

lemma V_log_out:
  assumes "env_ok E"
  shows "V E (log_out E l b) = (case V E b USERTONICK_DB (StrToLower l) of None \<Rightarrow> V E b
     | Some n \<Rightarrow> (V E b)(NICKTOUSER_DB := (V E b NICKTOUSER_DB)(StrToLower n := None),
          USERTONICK_DB := (V E b USERTONICK_DB)(StrToLower l := None)))"
  using assms by (simp add: log_out_def Let_def split: option.splits)

lemma log_out_ok: "env_ok E \<Longrightarrow> logins_ok E b \<Longrightarrow> logins_ok E (log_out E l b)"
proof (cases "V E b USERTONICK_DB (StrToLower l)")
  case (Some n)
  assume E: "env_ok E" and ok: "logins_ok E b"
  obtain l' where l': "V E b NICKTOUSER_DB (StrToLower n) = Some l'" "StrToLower l' = StrToLower l"
    using logins_okD(2)[OF ok Some] by blast
  show ?thesis unfolding logins_ok_def
  proof (intro conjI allI impI)
    fix m k assume "V E (log_out E l b) NICKTOUSER_DB m = Some k"
    then have m: "m \<noteq> StrToLower n" "V E b NICKTOUSER_DB m = Some k"
      using E Some by (auto simp: V_log_out split: if_splits)
    obtain m' where m': "V E b USERTONICK_DB (StrToLower k) = Some m'" "StrToLower m' = m"
      using logins_okD(1)[OF ok m(2)] by blast
    then have "StrToLower k \<noteq> StrToLower l" using m(1) Some by auto
    with m' show "\<exists>n'. V E (log_out E l b) USERTONICK_DB (StrToLower k) = Some n' \<and> StrToLower n' = m"
      using E Some by (simp add: V_log_out)
  next
    fix k m assume "V E (log_out E l b) USERTONICK_DB k = Some m"
    then have k: "k \<noteq> StrToLower l" "V E b USERTONICK_DB k = Some m"
      using E Some by (auto simp: V_log_out split: if_splits)
    obtain k' where k': "V E b NICKTOUSER_DB (StrToLower m) = Some k'" "StrToLower k' = k"
      using logins_okD(2)[OF ok k(2)] by blast
    then have "StrToLower m \<noteq> StrToLower n" using k(1) l' by auto
    with k' show "\<exists>l'. V E (log_out E l b) NICKTOUSER_DB (StrToLower m) = Some l' \<and> StrToLower l' = k"
      using E Some by (simp add: V_log_out)
  qed
qed (simp add: log_out_def)

text \<open>For a netmask that nobody is logged on with, logging on moves the login there.\<close>

lemma V_log_on_tables:
  assumes E: "env_ok E" and free: "V E b NICKTOUSER_DB (StrToLower n) = None"
  shows "V E (log_on_tables E (Some n) l b) = (V E b)(
     NICKTOUSER_DB := ((case V E b USERTONICK_DB (StrToLower l) of None \<Rightarrow> V E b NICKTOUSER_DB
         | Some m \<Rightarrow> (V E b NICKTOUSER_DB)(StrToLower m := None)))(StrToLower n \<mapsto> l),
     USERTONICK_DB := (V E b USERTONICK_DB)(StrToLower l \<mapsto> n))"
  using E free by (auto simp: log_on_tables_def Let_def split: option.splits)

lemma log_on_tables_ok:
  assumes E: "env_ok E" and ok: "logins_ok E b" and free: "V E b NICKTOUSER_DB (StrToLower n) = None"
  shows "logins_ok E (log_on_tables E (Some n) l b)"
  unfolding logins_ok_def
proof (intro conjI allI impI)
  let ?b = "log_on_tables E (Some n) l b"
  fix m k assume a: "V E ?b NICKTOUSER_DB m = Some k"
  show "\<exists>n'. V E ?b USERTONICK_DB (StrToLower k) = Some n' \<and> StrToLower n' = m"
  proof (cases "m = StrToLower n")
    case True
    then show ?thesis using a E free by (simp add: V_log_on_tables)
  next
    case False
    then have m: "V E b NICKTOUSER_DB m = Some k"
      "\<forall>x. V E b USERTONICK_DB (StrToLower l) = Some x \<longrightarrow> m \<noteq> StrToLower x"
      using a E free by (auto simp: V_log_on_tables split: option.splits if_splits)
    obtain m' where m': "V E b USERTONICK_DB (StrToLower k) = Some m'" "StrToLower m' = m"
      using logins_okD(1)[OF ok m(1)] by blast
    then have "StrToLower k \<noteq> StrToLower l" using m(2) by auto
    then show ?thesis using m' E free by (simp add: V_log_on_tables)
  qed
next
  let ?b = "log_on_tables E (Some n) l b"
  fix k m assume a: "V E ?b USERTONICK_DB k = Some m"
  show "\<exists>l'. V E ?b NICKTOUSER_DB (StrToLower m) = Some l' \<and> StrToLower l' = k"
  proof (cases "k = StrToLower l")
    case True
    then show ?thesis using a E free by (simp add: V_log_on_tables)
  next
    case False
    then have k: "V E b USERTONICK_DB k = Some m" using a E free by (auto simp: V_log_on_tables split: if_splits)
    obtain k' where k': "V E b NICKTOUSER_DB (StrToLower m) = Some k'" "StrToLower k' = k"
      using logins_okD(2)[OF ok k] by blast
    have "StrToLower m \<noteq> StrToLower n" using k'(1) free by auto
    moreover have "StrToLower m \<noteq> StrToLower x" if "V E b USERTONICK_DB (StrToLower l) = Some x" for x
      using logins_okD(2)[OF ok that] k' False by auto
    ultimately show ?thesis using k' E free
      by (auto simp: V_log_on_tables split: option.splits)
  qed
qed

lemma V_log_on:
  assumes "env_ok E"
  shows "V E (log_on E n l b) = (V E (log_on_tables E n l b))(
     TIMELOG_DB := (V E (log_on_tables E n l b) TIMELOG_DB)(StrToLower l \<mapsto> show_long (now E)))"
  using assms by (auto simp: log_on_def Let_def)

lemma logins_ok_cong:
  "V E b' NICKTOUSER_DB = V E b NICKTOUSER_DB \<Longrightarrow> V E b' USERTONICK_DB = V E b USERTONICK_DB
   \<Longrightarrow> logins_ok E b' = logins_ok E b"
  by (simp add: logins_ok_def)

lemma log_on_ok:
  assumes "env_ok E" "logins_ok E b" "V E b NICKTOUSER_DB (StrToLower n) = None"
  shows "logins_ok E (log_on E (Some n) l b)"
  using log_on_tables_ok[OF assms] logins_ok_cong[of E "log_on E (Some n) l b" "log_on_tables E (Some n) l b"]
  by (simp add: V_log_on[OF assms(1)])

lemma stores_only_log [frames]:
  "stores_only b (log_out E l b)" "stores_only b (log_on_tables E n l b)" "stores_only b (log_on E n l b)"
proof -
  show *: "stores_only b (log_out E l b)" for b :: "'a bot"
    by (auto simp: log_out_def Let_def intro: stores_only_trans stores_only_db split: option.splits)
  show **: "stores_only b (log_on_tables E n l b)"
    by (auto simp: log_on_tables_def Let_def intro!: stores_only_trans[OF _ stores_only_db(1)]
      stores_only_trans[OF _ stores_only_db(2)] stores_only_db(1,3) split: option.splits)
  show "stores_only b (log_on E n l b)"
    by (auto simp: log_on_def Let_def intro!: stores_only_trans[OF **] stores_only_db)
qed

section \<open>Removing\<close>

lemma for_each_map:
  "for_each (\<lambda>x s. Some (f x s)) xs s = Some (fold f xs s)"
  by (induction xs arbitrary: s) auto

lemma V_del_all:
  assumes "env_ok E" "valid_db db"
  shows "V E (fold (\<lambda>x b. snd (db_del E db (Some (g x)) b)) xs b)
     = (V E b)(db := (\<lambda>k. if k \<in> (\<lambda>x. StrToLower (g x)) ` set xs then None else V E b db k))"
proof (induction xs arbitrary: b)
  case (Cons x xs)
  show ?case by (subst fold.simps, simp only: comp_def Cons.IH) (use assms in \<open>auto intro!: ext\<close>)
qed auto

lemma stores_only_fold:
  "(\<And>x b. stores_only b (f x b)) \<Longrightarrow> stores_only b (fold f xs b)"
  by (induction xs arbitrary: b) (auto intro: stores_only_trans)

text \<open>The rights of a login: its entry as a master and its entries for the stored channels.\<close>

definition right_keys :: "'f env \<Rightarrow> 'f bot \<Rightarrow> string \<Rightarrow> string set" where
  "right_keys E b l = insert (StrToLower l) ((\<lambda>c. StrToLower (l @ c)) ` dom (V E b CHANNEL_DB))"

lemma rmAccessRights_view:
  assumes "env_ok E"
  shows "\<exists>b'. rmAccessRights E l b = Some b' \<and> stores_only b b'
    \<and> V E b' = (V E b)(ACCESS_DB := (\<lambda>k. if k \<in> right_keys E b l then None else V E b ACCESS_DB k))"
proof -
  let ?b1 = "snd (db_del E ACCESS_DB (Some l) b)"
  have v1: "V E ?b1 = (V E b)(ACCESS_DB := (V E b ACCESS_DB)(StrToLower l := None))" using assms by simp
  obtain cs where cs: "list_db (gdbm E) (dbs ?b1) CHANNEL_DB = Some cs" "set cs = dom (V E ?b1 CHANNEL_DB)"
    by (rule V_list[OF assms, of CHANNEL_DB ?b1]) auto
  have "rmAccessRights E l b = Some (fold (\<lambda>c b. snd (db_del E ACCESS_DB (Some (l @ c)) b)) cs ?b1)"
    using cs(1) by (simp add: rmAccessRights_def Let_def for_each_map)
  moreover have "stores_only b (fold (\<lambda>c b. snd (db_del E ACCESS_DB (Some (l @ c)) b)) cs ?b1)"
    by (rule stores_only_trans[OF stores_only_db(3) stores_only_fold[OF stores_only_db(3)]])
  moreover have "V E (fold (\<lambda>c b. snd (db_del E ACCESS_DB (Some (l @ c)) b)) cs ?b1)
      = (V E b)(ACCESS_DB := (\<lambda>k. if k \<in> right_keys E b l then None else V E b ACCESS_DB k))"
    unfolding V_del_all[OF assms, of ACCESS_DB, simplified] cs(2) v1
    by (auto simp: right_keys_def intro!: ext)
  ultimately show ?thesis by blast
qed

lemma rmAccount_view:
  assumes "env_ok E"
  shows "\<exists>b'. rmAccount E l b = Some b' \<and> stores_only b b'
    \<and> V E b' = (V E (log_out E l b))(
        ACCESS_DB := (\<lambda>k. if k \<in> right_keys E b l then None else V E b ACCESS_DB k),
        USER_DB := (V E b USER_DB)(StrToLower l := None),
        TIMELOG_DB := (V E b TIMELOG_DB)(StrToLower l := None))"
proof -
  let ?b1 = "log_out E l b"
  have same: "V E ?b1 db = V E b db" if "db \<noteq> NICKTOUSER_DB" "db \<noteq> USERTONICK_DB" for db
    using that by (simp add: V_log_out[OF assms] split: option.splits)
  obtain b2 where b2: "rmAccessRights E l ?b1 = Some b2" "stores_only ?b1 b2"
    "V E b2 = (V E ?b1)(ACCESS_DB := (\<lambda>k. if k \<in> right_keys E ?b1 l then None else V E ?b1 ACCESS_DB k))"
    using rmAccessRights_view[OF assms] by blast
  have keys: "right_keys E ?b1 l = right_keys E b l" by (simp add: right_keys_def same)
  let ?b4 = "snd (db_del E TIMELOG_DB (Some l) (snd (db_del E USER_DB (Some l) b2)))"
  have "rmAccount E l b = Some ?b4" using b2(1) by (simp add: rmAccount_def Let_def)
  moreover have "stores_only b ?b4"
    using stores_only_log(1) b2(2) stores_only_db(3) stores_only_trans by metis
  moreover have "V E ?b4 = (V E ?b1)(
        ACCESS_DB := (\<lambda>k. if k \<in> right_keys E b l then None else V E b ACCESS_DB k),
        USER_DB := (V E b USER_DB)(StrToLower l := None),
        TIMELOG_DB := (V E b TIMELOG_DB)(StrToLower l := None))"
    using assms by (simp add: b2(3) keys same fun_upd_twist cong: if_cong)
  ultimately show ?thesis by blast
qed

section \<open>Dead logins and accounts\<close>

definition stale :: "'f env \<Rightarrow> 'f bot \<Rightarrow> int \<Rightarrow> string \<Rightarrow> bool" where
  "stale E b lCheckTime k \<longleftrightarrow> (case V E b TIMELOG_DB k of None \<Rightarrow> False | Some t \<Rightarrow> atol t < lCheckTime)"

text \<open>The body of the loop of \<open>rmDeadLogins\<close>.\<close>

abbreviation drop_login :: "'f env \<Rightarrow> int \<Rightarrow> string \<Rightarrow> 'f bot \<Rightarrow> 'f bot" where
  "drop_login E lCheckTime pLogin b \<equiv> (case db_get E b TIMELOG_DB (Some pLogin) of
         None \<Rightarrow> b
       | Some pTime \<Rightarrow>
           if db_exist E b USERTONICK_DB (Some pLogin) \<and> lCheckTime > atol pTime
           then log_out E pLogin b else b)"

lemma drop_login_view:
  assumes "env_ok E" "lowercase l" "logins_ok E b"
  shows "V E (drop_login E t l b) USERTONICK_DB
      = (\<lambda>k. if k = l \<and> stale E b t k then None else V E b USERTONICK_DB k)"
    and "db \<noteq> NICKTOUSER_DB \<Longrightarrow> db \<noteq> USERTONICK_DB \<Longrightarrow> V E (drop_login E t l b) db = V E b db"
    and "logins_ok E (drop_login E t l b)"
  using assms log_out_ok[OF assms(1,3), of l]
  by (auto simp: StrToLower_id stale_def V_log_out split: option.splits intro!: ext)

lemma drop_logins_view:
  assumes "env_ok E"
  shows "\<forall>l \<in> set ks. lowercase l \<Longrightarrow> logins_ok E b \<Longrightarrow>
    V E (fold (drop_login E t) ks b) USERTONICK_DB
      = (\<lambda>k. if k \<in> set ks \<and> stale E b t k then None else V E b USERTONICK_DB k)
    \<and> (\<forall>db. db \<noteq> NICKTOUSER_DB \<longrightarrow> db \<noteq> USERTONICK_DB \<longrightarrow> V E (fold (drop_login E t) ks b) db = V E b db)
    \<and> logins_ok E (fold (drop_login E t) ks b)"
proof (induction ks arbitrary: b)
  case (Cons l ks)
  let ?b = "drop_login E t l b"
  have l: "lowercase l" using Cons.prems by simp
  note step = drop_login_view[OF assms l Cons.prems(2), where t = t]
  have stale: "stale E ?b t k = stale E b t k" for k
    using step(2)[where db = TIMELOG_DB] by (simp only: stale_def)
  have IH: "V E (fold (drop_login E t) ks ?b) USERTONICK_DB
      = (\<lambda>k. if k \<in> set ks \<and> stale E ?b t k then None else V E ?b USERTONICK_DB k)"
    "\<forall>db. db \<noteq> NICKTOUSER_DB \<longrightarrow> db \<noteq> USERTONICK_DB \<longrightarrow> V E (fold (drop_login E t) ks ?b) db = V E ?b db"
    "logins_ok E (fold (drop_login E t) ks ?b)"
    using Cons.IH[OF _ step(3)] Cons.prems(1) by auto
  have f: "fold (drop_login E t) (l # ks) b = fold (drop_login E t) ks ?b" by (simp only: fold.simps comp_def)
  show ?case unfolding f IH(1) step(1) stale using IH(2,3) step(2) by (auto intro!: ext)
qed simp

lemma keys_lower_list: "keys_lower E b \<Longrightarrow> set ks = dom (V E b db) \<Longrightarrow> \<forall>l \<in> set ks. lowercase l"
  by (auto simp: keys_lower_def dom_def)

lemma rmDeadLogins_view:
  assumes "env_ok E" "keys_lower E b" "logins_ok E b"
  shows "\<exists>b'. rmDeadLogins E t b = Some b' \<and> logins_ok E b'
    \<and> V E b' USERTONICK_DB = (\<lambda>k. if V E b USER_DB k \<noteq> None \<and> stale E b t k then None
         else V E b USERTONICK_DB k)
    \<and> (\<forall>db. db \<noteq> NICKTOUSER_DB \<longrightarrow> db \<noteq> USERTONICK_DB \<longrightarrow> V E b' db = V E b db)"
proof -
  obtain ks where ks: "list_db (gdbm E) (dbs b) USER_DB = Some ks" "set ks = dom (V E b USER_DB)"
    by (rule V_list[OF assms(1), of USER_DB b]) auto
  have "rmDeadLogins E t b = Some (fold (drop_login E t) ks b)"
    using ks(1) by (simp only: rmDeadLogins_def for_each_map bind.bind_lunit)
  then show ?thesis using drop_logins_view[OF assms(1) keys_lower_list[OF assms(2) ks(2)] assms(3), where t = t] ks(2)
    by (auto simp: dom_def)
qed

text \<open>The body of the loop of \<open>rmDeadAccounts\<close>.\<close>

abbreviation drop_account :: "'f env \<Rightarrow> int \<Rightarrow> string \<Rightarrow> 'f bot \<Rightarrow> 'f bot c_result" where
  "drop_account E lCheckTime pLogin b \<equiv> (case db_get E b TIMELOG_DB (Some pLogin) of
         None \<Rightarrow> Some b
       | Some pTime \<Rightarrow> if lCheckTime > atol pTime then rmAccount E pLogin b else Some b)"

text \<open>The accounts of a set are gone, with their time stamps, logins and rights, and nothing else has changed apart from
  the netmasks they were logged on from.\<close>

definition accounts_gone :: "'f env \<Rightarrow> string set \<Rightarrow> 'f bot \<Rightarrow> 'f bot \<Rightarrow> bool" where
  "accounts_gone E L b b' \<longleftrightarrow>
     (\<forall>db \<in> {USER_DB, TIMELOG_DB, USERTONICK_DB}. V E b' db = (\<lambda>k. if k \<in> L then None else V E b db k))
     \<and> V E b' ACCESS_DB = (\<lambda>k. if \<exists>l \<in> L. k \<in> right_keys E b l then None else V E b ACCESS_DB k)
     \<and> (\<forall>db \<in> {CHANNEL_DB, BANLIST_DB}. V E b' db = V E b db)"

lemma accounts_goneD:
  assumes "accounts_gone E L b b'"
  shows "V E b' USER_DB = (\<lambda>k. if k \<in> L then None else V E b USER_DB k)"
    "V E b' TIMELOG_DB = (\<lambda>k. if k \<in> L then None else V E b TIMELOG_DB k)"
    "V E b' USERTONICK_DB = (\<lambda>k. if k \<in> L then None else V E b USERTONICK_DB k)"
    "V E b' ACCESS_DB = (\<lambda>k. if \<exists>l \<in> L. k \<in> right_keys E b l then None else V E b ACCESS_DB k)"
    "V E b' CHANNEL_DB = V E b CHANNEL_DB" "V E b' BANLIST_DB = V E b BANLIST_DB"
  using assms by (simp_all add: accounts_gone_def)

lemma accounts_gone_none: "accounts_gone E {} b b"
  by (simp add: accounts_gone_def)

lemma accounts_gone_trans:
  assumes "accounts_gone E L b b'" "accounts_gone E L' b' b''"
  shows "accounts_gone E (L \<union> L') b b''"
proof -
  note a = accounts_goneD[OF assms(1)] and c = accounts_goneD[OF assms(2)]
  have "right_keys E b' l = right_keys E b l" for l by (simp add: right_keys_def a(5))
  then show ?thesis unfolding accounts_gone_def by (auto simp: a c fun_eq_iff)
qed

lemma drop_account_view:
  assumes "env_ok E" "lowercase l"
  shows "\<exists>b'. drop_account E t l b = Some b' \<and> accounts_gone E {k. k = l \<and> stale E b t k} b b'"
proof (cases "stale E b t l")
  case True
  obtain b' where b': "rmAccount E l b = Some b'" and v: "V E b' = (V E (log_out E l b))(
        ACCESS_DB := (\<lambda>k. if k \<in> right_keys E b l then None else V E b ACCESS_DB k),
        USER_DB := (V E b USER_DB)(StrToLower l := None),
        TIMELOG_DB := (V E b TIMELOG_DB)(StrToLower l := None))"
    using rmAccount_view[OF assms(1)] by blast
  have "drop_account E t l b = Some b'"
    using True b' assms(2) by (auto simp: stale_def StrToLower_id split: option.splits)
  moreover have "{k. k = l \<and> stale E b t k} = {l}" using True by auto
  moreover have "accounts_gone E {l} b b'"
    unfolding accounts_gone_def using assms
    by (auto simp: v StrToLower_id V_log_out fun_eq_iff split: option.splits)
  ultimately show ?thesis by auto
next
  case False
  then have "drop_account E t l b = Some b" "{k. k = l \<and> stale E b t k} = {}"
    using assms(2) by (auto simp: stale_def StrToLower_id split: option.splits)
  then show ?thesis using accounts_gone_none by metis
qed

lemma drop_accounts_view:
  assumes "env_ok E"
  shows "distinct ks \<Longrightarrow> \<forall>l \<in> set ks. lowercase l \<Longrightarrow>
    \<exists>b'. for_each (drop_account E t) ks b = Some b' \<and> accounts_gone E {k \<in> set ks. stale E b t k} b b'"
proof (induction ks arbitrary: b)
  case (Cons l ks)
  have l: "lowercase l" using Cons.prems by simp
  obtain b1 where b1: "drop_account E t l b = Some b1" "accounts_gone E {k. k = l \<and> stale E b t k} b b1"
    using drop_account_view[OF assms l, where t = t and b = b] by auto
  have stale: "stale E b1 t k = (k \<noteq> l \<and> stale E b t k)" for k
    by (auto simp: stale_def accounts_goneD(2)[OF b1(2)] split: option.splits)
  obtain b2 where b2: "for_each (drop_account E t) ks b1 = Some b2" "accounts_gone E {k \<in> set ks. stale E b1 t k} b1 b2"
    using Cons.IH[of b1] Cons.prems by auto
  have f: "for_each (drop_account E t) (l # ks) b = Some b2"
    by (simp only: for_each.simps b1(1) bind.bind_lunit b2(1))
  have "{k. k = l \<and> stale E b t k} \<union> {k \<in> set ks. stale E b1 t k} = {k \<in> set (l # ks). stale E b t k}"
    using Cons.prems(1) by (auto simp: stale)
  with accounts_gone_trans[OF b1(2) b2(2)] f show ?case by auto
qed (simp add: accounts_gone_none)

lemma rmDeadAccounts_view:
  assumes "env_ok E" "keys_lower E b"
  shows "\<exists>b'. rmDeadAccounts E t b = Some b' \<and> accounts_gone E {k. stale E b t k} b b'"
proof -
  obtain ks where ks: "list_db (gdbm E) (dbs b) TIMELOG_DB = Some ks" "distinct ks"
    "set ks = dom (V E b TIMELOG_DB)"
    by (rule V_list[OF assms(1), of TIMELOG_DB b]) auto
  have "k \<in> set ks" if "stale E b t k" for k
    using that ks(3) by (auto simp: stale_def split: option.splits)
  then have "{k \<in> set ks. stale E b t k} = {k. stale E b t k}" by auto
  moreover obtain b' where "for_each (drop_account E t) ks b = Some b'" "accounts_gone E {k \<in> set ks. stale E b t k} b b'"
    using drop_accounts_view[OF assms(1) ks(2) keys_lower_list[OF assms(2) ks(3)], where t = t and b = b] by auto
  moreover from this(1) have "rmDeadAccounts E t b = Some b'"
    by (simp only: rmDeadAccounts_def ks(1) bind.bind_lunit)
  ultimately show ?thesis by auto
qed

section \<open>Properties\<close>

text \<open>C4: Logging on a netmask that nobody uses and logging off keep the two login tables inverse to
  each other.  After \<open>log_on\<close> the tables map the netmask and the login to each other, a former
  netmask of the login is free, and no other login is touched; after \<open>log_out\<close> the login is off.\<close>

theorem login_tables_inverse:
  assumes "env_ok E" "logins_ok E b"
  shows "(db_get E b NICKTOUSER_DB (Some n) = None \<longrightarrow>
      logins_ok E (log_on E (Some n) l b)
      \<and> db_get E (log_on E (Some n) l b) NICKTOUSER_DB (Some n) = Some l
      \<and> db_get E (log_on E (Some n) l b) USERTONICK_DB (Some l) = Some n
      \<and> (StrToLower k \<noteq> StrToLower l \<longrightarrow>
          db_get E (log_on E (Some n) l b) USERTONICK_DB (Some k) = db_get E b USERTONICK_DB (Some k)))
    \<and> (logins_ok E (log_out E l b) \<and> db_get E (log_out E l b) USERTONICK_DB (Some l) = None
      \<and> (StrToLower k \<noteq> StrToLower l \<longrightarrow>
          db_get E (log_out E l b) USERTONICK_DB (Some k) = db_get E b USERTONICK_DB (Some k)))"
  using assms log_on_ok[OF assms, of n l] log_out_ok[OF assms, of l]
  by (auto simp: V_log_on V_log_on_tables V_log_out split: option.splits)

lemma logins_ok_empty: "logins_ok exact_env empty_bot"
  by (auto simp: logins_ok_def view_def exact_env_def empty_bot_def empty_dbs_def get_dbf_def alist_gdbm_def)

lemma login_tables_inverse_witness:
  "logins_ok exact_env (log_on exact_env (Some ''al!u@h'') ''Al'' empty_bot)
   \<and> db_get exact_env (log_on exact_env (Some ''al!u@h'') ''Al'' empty_bot) NICKTOUSER_DB (Some ''al!u@h'') = Some ''Al''"
proof -
  have "db_get exact_env empty_bot NICKTOUSER_DB (Some ''al!u@h'') = None" by code_simp
  from login_tables_inverse[OF exact_env_ok logins_ok_empty, THEN conjunct1, rule_format, OF this, of "''Al''"] show ?thesis by simp
qed

text \<open>The level of a user is none exactly if the netmask is not logged on; it is master exactly if
  the login has a master entry and no entry for the channel; an entry for the channel decides
  between owner, friend and a mere login.\<close>

lemma user_level:
  "(getUserLevel E b c (Some n) = NoneLevel \<longleftrightarrow> db_get E b NICKTOUSER_DB (Some n) = None)
    \<and> (getUserLevel E b c (Some n) = MasterLevel \<longleftrightarrow> (\<exists>l. db_get E b NICKTOUSER_DB (Some n) = Some l
     \<and> db_get E b ACCESS_DB (Some l) \<noteq> None
     \<and> (case c of None \<Rightarrow> True | Some ch \<Rightarrow> db_get E b ACCESS_DB (Some (l @ ch)) = None)))
    \<and> (getUserLevel E b c (Some n) = OwnerLevel \<longleftrightarrow> (\<exists>l ch m. db_get E b NICKTOUSER_DB (Some n) = Some l
     \<and> c = Some ch \<and> db_get E b ACCESS_DB (Some (l @ ch)) = Some m \<and> CHR ''o'' \<in> set m))"
  by (auto simp: getUserLevel_def strchr_None simp del: V_get split: option.splits)

text \<open>C32: Removing an account terminates and has exactly this effect: its password, its time stamp, its login, its right as
  a master and its rights in the channels that are stored at this time are gone.  Every other
  right stays, also rights of the removed account in channels that are not stored; other accounts, the other logins and the
  channels stay, and the login tables stay inverse.\<close>

theorem rmAccount_removes_all:
  assumes "env_ok E" "logins_ok E b"
  shows "\<exists>b'. rmAccount E l b = Some b' \<and> logins_ok E b'
    \<and> db_get E b' USER_DB (Some l) = None \<and> db_get E b' TIMELOG_DB (Some l) = None
    \<and> db_get E b' USERTONICK_DB (Some l) = None \<and> db_get E b' ACCESS_DB (Some l) = None
    \<and> (\<forall>c. db_get E b CHANNEL_DB (Some c) \<noteq> None \<longrightarrow> db_get E b' ACCESS_DB (Some (l @ c)) = None)
    \<and> (\<forall>k. StrToLower k \<notin> right_keys E b l \<longrightarrow> db_get E b' ACCESS_DB (Some k) = db_get E b ACCESS_DB (Some k))
    \<and> (\<forall>k. StrToLower k \<noteq> StrToLower l \<longrightarrow> db_get E b' USER_DB (Some k) = db_get E b USER_DB (Some k)
        \<and> db_get E b' TIMELOG_DB (Some k) = db_get E b TIMELOG_DB (Some k)
        \<and> db_get E b' USERTONICK_DB (Some k) = db_get E b USERTONICK_DB (Some k))
    \<and> (\<forall>c. db_get E b' CHANNEL_DB (Some c) = db_get E b CHANNEL_DB (Some c)
        \<and> db_get E b' BANLIST_DB (Some c) = db_get E b BANLIST_DB (Some c))"
proof -
  obtain b' where b': "rmAccount E l b = Some b'" and v: "V E b' = (V E (log_out E l b))(
        ACCESS_DB := (\<lambda>k. if k \<in> right_keys E b l then None else V E b ACCESS_DB k),
        USER_DB := (V E b USER_DB)(StrToLower l := None),
        TIMELOG_DB := (V E b TIMELOG_DB)(StrToLower l := None))"
    using rmAccount_view[OF assms(1)] by blast
  have ok: "logins_ok E b'"
    using log_out_ok[OF assms, of l] logins_ok_cong[of E b' "log_out E l b"] by (simp add: v)
  have stored: "StrToLower (l @ c) \<in> right_keys E b l" if "V E b CHANNEL_DB (StrToLower c) \<noteq> None" for c
    unfolding right_keys_def using that by (intro insertI2 image_eqI[of _ _ "StrToLower c"]) auto
  have own: "StrToLower l \<in> right_keys E b l" by (simp add: right_keys_def)
  show ?thesis
    by (rule exI[of _ b'])
      (use b' ok stored own in \<open>auto simp: v V_log_out[OF assms(1)] simp del: StrToLower_append split: option.splits\<close>)
qed

definition logged_bot :: "(string \<times> string) list bot" where
  "logged_bot = snd (db_add exact_env CHANNEL_DB (Some ''#c'') (Some [TAB, TAB])
     (snd (db_add exact_env ACCESS_DB (Some ''bob#c'') (Some ''+o'')
     (log_on exact_env (Some ''bob!u@h'') ''Bob''
     (snd (db_add exact_env USER_DB (Some ''Bob'') (Some ''pw'') empty_bot))))))"

lemma logged_bot_ok: "logins_ok exact_env logged_bot" "keys_lower exact_env logged_bot"
proof -
  have e: "logins_ok exact_env (snd (db_add exact_env USER_DB (Some ''Bob'') (Some ''pw'') empty_bot))"
    by (subst logins_ok_cong[of _ _ empty_bot]) (simp_all add: logins_ok_empty)
  have f: "V exact_env empty_bot db k = None" for db k
    by (auto simp: view_def exact_env_def empty_bot_def empty_dbs_def get_dbf_def alist_gdbm_def)
  have "logins_ok exact_env (log_on exact_env (Some ''bob!u@h'') ''Bob''
     (snd (db_add exact_env USER_DB (Some ''Bob'') (Some ''pw'') empty_bot)))"
    by (rule log_on_ok[OF exact_env_ok e]) (simp add: f)
  then show "logins_ok exact_env logged_bot"
    unfolding logged_bot_def by (subst logins_ok_cong) (simp_all)
  show "keys_lower exact_env logged_bot"
    by (simp add: keys_lower_def logged_bot_def V_log_on V_log_on_tables f)
qed

text \<open>The right of an account in a channel that is not stored survives its removal, and is the right of whoever gets
  an account with this name later.\<close>

lemma rmAccount_keeps_unlisted:
  "map_option (\<lambda>b. (db_get exact_env b ACCESS_DB (Some ''bob#c''), db_get exact_env b ACCESS_DB (Some ''bob#d'')))
     (rmAccount exact_env ''Bob'' (snd (db_add exact_env ACCESS_DB (Some ''bob#d'') (Some ''+o'') logged_bot)))
   = Some (None, Some ''+o'')"
  by code_simp

lemma rmAccount_removes_all_witness:
  "\<exists>b'. rmAccount exact_env ''BOB'' logged_bot = Some b' \<and> logins_ok exact_env b'
    \<and> db_get exact_env b' USERTONICK_DB (Some ''BOB'') = None"
  using rmAccount_removes_all[OF exact_env_ok logged_bot_ok(1), of "''BOB''"] by blast

text \<open>\<open>rmDeadLogins\<close> terminates and logs off exactly the accounts whose last login is before the
  limit; nothing but the login tables changes, and they stay inverse.\<close>

lemma rmDeadLogins_exact:
  assumes "env_ok E" "keys_lower E b" "logins_ok E b"
  shows "\<exists>b'. rmDeadLogins E t b = Some b' \<and> logins_ok E b'
    \<and> (\<forall>k. db_get E b' USERTONICK_DB (Some k) =
        (if db_get E b USER_DB (Some k) \<noteq> None
            \<and> (case db_get E b TIMELOG_DB (Some k) of None \<Rightarrow> False | Some s \<Rightarrow> atol s < t)
         then None else db_get E b USERTONICK_DB (Some k)))
    \<and> (\<forall>db k. db \<noteq> NICKTOUSER_DB \<longrightarrow> db \<noteq> USERTONICK_DB \<longrightarrow> db_get E b' db (Some k) = db_get E b db (Some k))"
proof -
  obtain b' where "rmDeadLogins E t b = Some b'" "logins_ok E b'"
    "V E b' USERTONICK_DB = (\<lambda>k. if V E b USER_DB k \<noteq> None \<and> stale E b t k then None
         else V E b USERTONICK_DB k)"
    "\<forall>db. db \<noteq> NICKTOUSER_DB \<longrightarrow> db \<noteq> USERTONICK_DB \<longrightarrow> V E b' db = V E b db"
    using rmDeadLogins_view[OF assms, of t] by blast
  then show ?thesis by (intro exI[of _ b']) (simp add: stale_def)
qed

text \<open>\<open>rmDeadAccounts\<close> terminates and removes exactly the accounts whose last login is before the
  limit, with their time stamps; in particular an account that has just logged on is never
  removed with a limit that is not after the current time.\<close>

lemma rmDeadAccounts_exact:
  assumes "env_ok E" "keys_lower E b"
  shows "(\<exists>b'. rmDeadAccounts E t b = Some b'
    \<and> (\<forall>k. db_get E b' USER_DB (Some k) =
        (if (case db_get E b TIMELOG_DB (Some k) of None \<Rightarrow> False | Some s \<Rightarrow> atol s < t)
         then None else db_get E b USER_DB (Some k))))
    \<and> (t \<le> now E \<longrightarrow> (case db_get E (log_on E n l b) TIMELOG_DB (Some l) of
       None \<Rightarrow> False | Some s \<Rightarrow> \<not> atol s < t))"
proof (rule all2; (intro impI)?)
  obtain b' where "rmDeadAccounts E t b = Some b'" "accounts_gone E {k. stale E b t k} b b'"
    using rmDeadAccounts_view[OF assms, of t] by blast
  then have "rmDeadAccounts E t b = Some b'" "V E b' USER_DB = (\<lambda>k. if stale E b t k then None else V E b USER_DB k)"
    using accounts_goneD(1) by force+
  then show "\<exists>b'. rmDeadAccounts E t b = Some b'
    \<and> (\<forall>k. db_get E b' USER_DB (Some k) =
        (if (case db_get E b TIMELOG_DB (Some k) of None \<Rightarrow> False | Some s \<Rightarrow> atol s < t)
         then None else db_get E b USER_DB (Some k)))"
    by (intro exI[of _ b']) (simp add: stale_def)
  show "t \<le> now E \<Longrightarrow> case db_get E (log_on E n l b) TIMELOG_DB (Some l) of
       None \<Rightarrow> False | Some s \<Rightarrow> \<not> atol s < t"
    using assms(1) by (simp add: V_log_on cstr)
qed

text \<open>Who may kick or ban whom: without an account entry anybody is fair game; an account whose
  rights have \<open>m\<close> as their second character is protected from everybody, one with \<open>o\<close> from
  everybody without a master entry.  For a target without login the outcome is undefined.\<close>

lemma checkUserLevel_protects:
  "(checkUserLevel E b cmd None ch = None)
    \<and> (db_get E b ACCESS_DB (Some (l @ c)) = None \<longrightarrow> db_get E b ACCESS_DB (Some l) = None \<longrightarrow>
    checkUserLevel E b cmd (Some l) (Some c) = Some True)
    \<and> (db_get E b ACCESS_DB (Some (l @ c)) = None \<longrightarrow> db_get E b ACCESS_DB (Some l) = Some (x # CHR ''m'' # r) \<longrightarrow>
    checkUserLevel E b cmd (Some l) (Some c) = Some False)
    \<and> (db_get E b ACCESS_DB (Some (l @ c)) = Some (x # CHR ''o'' # r) \<longrightarrow>
    checkUserLevel E b cmd (Some l) (Some c) = Some (db_exist E b ACCESS_DB cmd))
    \<and> (db_get E b ACCESS_DB (Some (l @ c)) = Some (x # CHR ''v'' # r) \<longrightarrow>
    checkUserLevel E b cmd (Some l) (Some c) = Some True)"
  by (simp_all add: checkUserLevel_def char_at_def del: V_get)

end
