(* ===== verification/Callback.thy ===== *)
theory Callback
  imports Account
begin

text \<open>
  The callbacks of \<open>callback.c\<close>, which run when the server answers the \<open>WHOIS\<close> request that a
  command or a mode change has sent: resetting a mode, banning and kicking.
\<close>

section \<open>Operations\<close>

text \<open>The master branch of \<open>ModeResetCb\<close> inverts the sign of the old mode.\<close>

definition invert_sign :: "string \<Rightarrow> string c_result" where
  "invert_sign m = do { c \<leftarrow> char_at m 0; set_first (if c = CHR ''-'' then CHR ''+'' else CHR ''-'') m }"

definition ModeResetCb :: "'f env \<Rightarrow> string \<Rightarrow> string \<Rightarrow> 'f bot \<Rightarrow> 'f bot c_result" where
  "ModeResetCb E pNetmask data b =
     (let pChannel = getFirstPart (Some data); pOldMode = getRest (Some data) None in
      case getNickname (Some pNetmask) of
        None \<Rightarrow> Some b
      | Some pNick \<Rightarrow>
          (case db_get E b NICKTOUSER_DB (Some pNetmask) of
             Some pLogin \<Rightarrow>
               (case db_get E b ACCESS_DB (Some (pLogin @ the pChannel)) of
                  Some pMod \<Rightarrow> do {
                    m1 \<leftarrow> char_at pMod 1;
                    c1 \<leftarrow> char_at (the pChannel) 1;
                    if m1 = c1 then do {
                      c0 \<leftarrow> char_at (the pChannel) 0;
                      if c0 = CHR ''-'' then do {
                        old \<leftarrow> pOldMode;
                        old \<leftarrow> set_first (CHR ''+'') old;
                        mode E pChannel (Some old) (Some pNick) b }
                      else Some b }
                    else do {
                      old \<leftarrow> pOldMode;
                      old \<leftarrow> set_first (CHR ''-'') old;
                      mode E pChannel (Some old) (Some pNick) b } }
                | None \<Rightarrow>
                    (case db_get E b ACCESS_DB (Some pLogin) of
                       Some pMod \<Rightarrow> do {
                         old \<leftarrow> pOldMode;
                         if old \<noteq> ''+o'' then do {
                           old \<leftarrow> invert_sign old;
                           mode E pChannel (Some old) (Some pNick) b }
                         else Some b }
                     | None \<Rightarrow> Some b))
           | None \<Rightarrow> do {
               old \<leftarrow> pOldMode;
               c \<leftarrow> char_at old 0;
               if c = CHR ''+'' \<and> \<not> strcasecmp_eq pNick (pBotname b) then do {
                 old \<leftarrow> set_first (CHR ''-'') old;
                 mode E pChannel (Some old) (Some pNick) b }
               else Some b }))"

definition SetBanCb :: "'f env \<Rightarrow> string \<Rightarrow> string \<Rightarrow> 'f bot \<Rightarrow> 'f bot c_result" where
  "SetBanCb E pNetmask data b = do {
     let pLogin = getFirstPart (Some data);
     let pRest = getRest (Some data) None;
     let pChannel = getFirstPart pRest;
     pBanmask \<leftarrow> getBanmask (Some pNetmask);
     let pDestLogin = db_get E b NICKTOUSER_DB (Some pNetmask);
     (case getNickname (db_get E b USERTONICK_DB pLogin) of
        None \<Rightarrow> Some b
      | Some pCmdNick \<Rightarrow> do {
          doBan \<leftarrow> checkUserLevel E b (Some pCmdNick) pDestLogin pChannel;
          if doBan then do {
            b \<leftarrow> ban E pChannel pBanmask b;
            Some (notice E (Some pCmdNick) (Some ''The user is banned by the bot.'') b) }
          else Some (notice E (Some pCmdNick) (Some (''Couldn'' @ [CHR 0x27] @ ''t ban this user'')) b) }) }"

definition KickCb :: "'f env \<Rightarrow> string \<Rightarrow> string \<Rightarrow> 'f bot \<Rightarrow> 'f bot c_result" where
  "KickCb E pNetmask data b =
     (let pCmdLogin = getFirstPart (Some data);
          pReason = getRest (Some data) None;
          pChannel = getFirstPart pReason;
          pReason = getRest pReason pReason;
          pLogin = db_get E b NICKTOUSER_DB (Some pNetmask);
          pCmdNetmask = db_get E b USERTONICK_DB pCmdLogin in
      case getNickname pCmdNetmask of
        None \<Rightarrow> Some b
      | Some pCmdNick \<Rightarrow> do {
          doKick \<leftarrow> checkUserLevel E b (Some pCmdNick) pLogin pChannel;
          if doKick then
            (case getNickname (Some pNetmask) of
               None \<Rightarrow> Some b
             | Some pNick \<Rightarrow> do {
                 b \<leftarrow> kick E pChannel (Some pNick) pReason b;
                 Some (notice E (Some pCmdNick) (Some ''The user is kicked by the bot'') b) })
          else Some (notice E (Some pCmdNick) (Some (''Couldn'' @ [CHR 0x27] @ ''t kick this user'')) b) })"

text \<open>The call through the function pointer of a callback item.\<close>

definition run_callback :: "'f env \<Rightarrow> CallbackItem_t \<Rightarrow> string \<Rightarrow> 'f bot \<Rightarrow> 'f bot c_result" where
  "run_callback E CB_Data pNetmask = (case CallbackFkt CB_Data of
       ModeResetCb_F \<Rightarrow> ModeResetCb E pNetmask (cb_data CB_Data)
     | SetBanCb_F \<Rightarrow> SetBanCb E pNetmask (cb_data CB_Data)
     | KickCb_F \<Rightarrow> KickCb E pNetmask (cb_data CB_Data))"

section \<open>Callbacks only send\<close>

lemma ModeResetCb_sends [frames]: "ModeResetCb E n d b = Some b' \<Longrightarrow> sends b b'"
  by (auto simp: ModeResetCb_def Let_def bind_eq_Some_conv sends_partial split: option.splits if_splits)

lemma SetBanCb_sends [frames]: "SetBanCb E n d b = Some b' \<Longrightarrow> sends b b'"
  by (auto simp: SetBanCb_def Let_def bind_eq_Some_conv split: option.splits if_splits
      intro: sends_step sends_partial)

lemma KickCb_sends [frames]: "KickCb E n d b = Some b' \<Longrightarrow> sends b b'"
  by (auto simp: KickCb_def Let_def bind_eq_Some_conv split: option.splits if_splits
      intro: sends_step sends_partial)

lemma run_callback_sends [frames]: "run_callback E i n b = Some b' \<Longrightarrow> sends b b'"
  by (auto simp: run_callback_def frames split: CallbackFkt_t.splits)

lemma getFirstPart_words:
  assumes "SP \<notin> set w" "r \<noteq> []"
  shows "getFirstPart (Some (w @ SP # r)) = Some w" "getRest (Some (w @ SP # r)) old = Some r"
  using assms by (simp_all add: getFirstPart_join del: getFirstPart_Some)

section \<open>Properties\<close>

text \<open>The mode protection takes operator and voice status away from a user who is not logged on,
  unless this is the bot itself, and does not touch a status that was taken away.\<close>

lemma mode_reset_anonymous:
  assumes "env_ok E" "SP \<notin> set ch" "m \<noteq> []" "getNickname (Some nm) = Some n"
    and "db_get E b NICKTOUSER_DB (Some nm) = None"
  shows "(ModeResetCb E nm (ch @ SP # CHR ''+'' # m) b = (if strcasecmp_eq n (pBotname b) then Some b
      else Some (SendLine E (''MODE '' @ ch @ '' -'' @ m @ '' '' @ n @ CRLF) b)))
    \<and> (ModeResetCb E nm (ch @ SP # CHR ''-'' # m) b = Some b)"
  using assms by (simp_all add: ModeResetCb_def getFirstPart_words char_at_def set_first_def del: V_get getFirstPart_Some)

text \<open>For a logged on account with rights in the channel the callback compares the right with the
  second character of the channel name instead of the changed mode: an owner of a channel
  whose name does not start with \<open>o\<close> loses the operator status whenever anybody gives it.\<close>

lemma mode_reset_owner:
  assumes "env_ok E" "SP \<notin> set (CHR ''#'' # c # cs)" "m \<noteq> []" "getNickname (Some nm) = Some n"
    and "db_get E b NICKTOUSER_DB (Some nm) = Some l"
    and "db_get E b ACCESS_DB (Some (l @ CHR ''#'' # c # cs)) = Some (s # r # rs)"
  shows "ModeResetCb E nm ((CHR ''#'' # c # cs) @ SP # sg # m) b = (if r = c then Some b
      else Some (SendLine E (''MODE #'' @ c # cs @ '' -'' @ m @ '' '' @ n @ CRLF) b))"
proof -
  have "getFirstPart (Some ((CHR ''#'' # c # cs) @ SP # sg # m)) = Some (CHR ''#'' # c # cs)"
    "getRest (Some ((CHR ''#'' # c # cs) @ SP # sg # m)) None = Some (sg # m)"
    by (rule getFirstPart_words[OF assms(2)], simp)+
  then show ?thesis using assms
    by (simp add: ModeResetCb_def char_at_def set_first_def del: V_get getFirstPart_Some)
qed

text \<open>A kick reply for a logged on target sends the kick with the given reason exactly if
  \<open>checkUserLevel\<close> allows it, tells the kicking user the outcome, and does nothing if the
  kicking user has logged off in the meantime.\<close>

lemma kick_reply:
  assumes "env_ok E" "SP \<notin> set l" "SP \<notin> set ch" "reason \<noteq> []"
  shows "(db_get E b USERTONICK_DB (Some l) = None \<longrightarrow> KickCb E nm (l @ SP # ch @ SP # reason) b = Some b)
    \<and> (getNickname (db_get E b USERTONICK_DB (Some l)) = Some cn \<longrightarrow> getNickname (Some nm) = Some n \<longrightarrow>
      checkUserLevel E b (Some cn) (db_get E b NICKTOUSER_DB (Some nm)) (Some ch) = Some ok \<longrightarrow>
      map_option sent (KickCb E nm (l @ SP # ch @ SP # reason) b) = Some (sent b @
        (if ok then [''KICK '' @ ch @ '' '' @ n @ '' :'' @ reason @ CRLF,
            ''NOTICE '' @ cn @ '' :The user is kicked by the bot'' @ CRLF]
         else [''NOTICE '' @ cn @ '' :Couldn'' @ [CHR 0x27] @ ''t kick this user'' @ CRLF])))"
  using assms
  by (simp_all add: KickCb_def getFirstPart_words Let_def getNickname_def[of None] getNetmask_def[of None]
      del: V_get getFirstPart_Some)

end
