(* ===== verification/Handles.thy ===== *)
theory Handles
  imports Callback
begin

text \<open>
  The event handlers of \<open>handles.c\<close>: nick changes, joins, mode, topic and kick events, and the
  replies to \<open>WHOIS\<close>.  A handler gets the message record of \<open>cmdtypes.h\<close>.  \<open>hResetModes\<close> and the
  commands append to the callback list, the reply handlers take from it.
\<close>

section \<open>Data\<close>

record MsgItem_t =
  UserLevel :: UserLevel_t
  AnswerMode :: AnswerMode_t
  pAccessChannel :: "string option"
  pCallingNick :: "string option"
  pNetmask :: "string option"
  pRawLine :: string
  bInteractiveMode :: bool
  pParameter :: "string option"

section \<open>Operations\<close>

definition hPong :: "'f env \<Rightarrow> MsgItem_t \<Rightarrow> 'f bot \<Rightarrow> 'f bot c_result" where
  "hPong E pMsg b = pong E None b"

definition hNickChange :: "'f env \<Rightarrow> MsgItem_t \<Rightarrow> 'f bot \<Rightarrow> 'f bot c_result" where
  "hNickChange E pMsg b = (case pNetmask pMsg of None \<Rightarrow> Some b
     | Some nm \<Rightarrow>
        (case db_get E b NICKTOUSER_DB (Some nm) of None \<Rightarrow> Some b
         | Some pLogin \<Rightarrow> do {
             pNewNick \<leftarrow> strrchr (pRawLine pMsg) SP;
             if length pNewNick > 2 then do {
               let pNewNick = drop 2 pNewNick;
               pTmp \<leftarrow> strchr nm (CHR ''!'');
               let pNewNetmask = pNewNick @ strtok_cut SP pTmp;
               let b = log_out E pLogin b;
               Some (log_on E (Some pNewNetmask) pLogin b) }
             else Some b }))"

definition channelInit :: "'f env \<Rightarrow> string option \<Rightarrow> 'f bot \<Rightarrow> 'f bot c_result" where
  "channelInit E pChannel b = (case db_get E b CHANNEL_DB pChannel of None \<Rightarrow> Some b
     | Some pChannelSet \<Rightarrow> do {
         sChannelData \<leftarrow> StrToChannelData pChannelSet;
         let b = (case pTopic sChannelData of None \<Rightarrow> b | Some t \<Rightarrow> topic E pChannel (Some t) b);
         let pMode = ChannelModeToStr (sModes sChannelData);
         b \<leftarrow> (if pMode \<noteq> [] then mode E pChannel (Some pMode) None b else Some b);
         Some (action E pChannel (Some ''has initialized this channel.'') b) })"

definition hBotNeedOp :: "'f env \<Rightarrow> MsgItem_t \<Rightarrow> 'f bot \<Rightarrow> 'f bot c_result" where
  "hBotNeedOp E pMsg b = (case pAccessChannel pMsg of None \<Rightarrow> Some b
     | Some pChannel \<Rightarrow>
        (case pRawLine pMsg of [] \<Rightarrow> None
         | _ # line \<Rightarrow> do {
             pNickList \<leftarrow> strchr line (CHR '':'');
             if strstr pNickList (''@'' @ pBotname b) = None
             then Some (action E (Some pChannel) (Some ''needs operator access rights.'') b)
             else channelInit E (Some pChannel) b }))"

definition hSetModUser :: "'f env \<Rightarrow> MsgItem_t \<Rightarrow> 'f bot \<Rightarrow> 'f bot c_result" where
  "hSetModUser E pMsg b = (case pCallingNick pMsg of None \<Rightarrow> Some b
     | Some pNick \<Rightarrow>
        if strcasecmp_eq pNick (pBotname b) then Some b
        else (case db_get E b NICKTOUSER_DB (pNetmask pMsg) of None \<Rightarrow> Some b
         | Some pLogin \<Rightarrow>
            (case pAccessChannel pMsg of None \<Rightarrow> Some b
             | Some pChannel \<Rightarrow>
                (case db_get E b ACCESS_DB (Some (pLogin @ pChannel)) of
                   Some pMod \<Rightarrow> mode E (Some pChannel) (Some pMod) (Some pNick) b
                 | None \<Rightarrow>
                    if db_exist E b ACCESS_DB (Some pLogin)
                    then mode E (Some pChannel) (Some ''+o'') (Some pNick) b else Some b))))"

text \<open>\<open>hSendGreeting\<close> is empty.\<close>

definition hSendGreeting :: "'f env \<Rightarrow> MsgItem_t \<Rightarrow> 'f bot \<Rightarrow> 'f bot c_result" where
  "hSendGreeting E pMsg b = Some b"

definition hUserJoin :: "'f env \<Rightarrow> MsgItem_t \<Rightarrow> 'f bot \<Rightarrow> 'f bot c_result" where
  "hUserJoin E pMsg b = do { b \<leftarrow> hSetModUser E pMsg b; hSendGreeting E pMsg b }"

text \<open>Adding an item at the tail of the callback list (\<open>append_item\<close>).\<close>

definition add_callback :: "string \<Rightarrow> CallbackFkt_t \<Rightarrow> string \<Rightarrow> 'f bot \<Rightarrow> 'f bot" where
  "add_callback nk f data b = b\<lparr>callbacks := callbacks b @
     [\<lparr>nickname = nk, CallbackFkt = f, cb_data = data\<rparr>]\<rparr>"

text \<open>
  The loop of \<open>hResetModes\<close> over the letters of the mode.  \<open>sign\<close> is \<open>cModeChr\<close> together with
  \<open>bTryToSet\<close>; both are uninitialised (\<open>None\<close>) before the first sign.
\<close>

primrec reset_modes :: "'f env \<Rightarrow> string option \<Rightarrow> string \<Rightarrow> char option \<Rightarrow> string option \<Rightarrow> 'f bot
    \<Rightarrow> 'f bot c_result" where
  "reset_modes E pChannel [] sign pRest b = Some b"
| "reset_modes E pChannel (c # cs) sign pRest b =
     (if c = CHR ''+'' \<or> c = CHR ''-'' then reset_modes E pChannel cs (Some c) pRest b
      else if c = CHR ''o'' \<or> c = CHR ''v'' then
        (case getFirstPart pRest of None \<Rightarrow> Some b
         | Some pNick \<Rightarrow>
            let pRest = getRest pRest pRest in
            if strcasecmp_eq pNick (pBotname b) then do {
              s \<leftarrow> sign;
              b \<leftarrow> (if s = CHR ''+'' \<and> c = CHR ''o'' then channelInit E pChannel b
                   else Some (action E pChannel (Some ''needs operator access rights.'') b));
              reset_modes E pChannel cs sign pRest b }
            else do {
              ch \<leftarrow> pChannel;
              s \<leftarrow> sign;
              let b = add_callback pNick ModeResetCb_F (ch @ SP # [s, c]) b;
              b \<leftarrow> whois E (Some pNick) b;
              reset_modes E pChannel cs sign pRest b })
      else if c = CHR ''b'' \<or> c = CHR ''t'' \<or> c = CHR ''n'' then reset_modes E pChannel cs sign pRest b
      else do { s \<leftarrow> sign; reset_modes E pChannel cs sign pRest b })"

definition hResetModes :: "'f env \<Rightarrow> MsgItem_t \<Rightarrow> 'f bot \<Rightarrow> 'f bot c_result" where
  "hResetModes E pMsg b =
     (let nm = getFirstPart (Some (pRawLine pMsg));
          pRest = getRest (Some (pRawLine pMsg)) None;
          pAccessNick = getNickname nm;
          pRest = getRest pRest pRest;
          pChannel = getFirstPart pRest; pRest = getRest pRest pRest;
          pMode = getFirstPart pRest; pRest = getRest pRest pRest in
      case pAccessNick of None \<Rightarrow> Some b
      | Some n \<Rightarrow>
         if strcasecmp_eq n (pBotname b) then Some b
         else (case pMode of None \<Rightarrow> Some b
           | Some m \<Rightarrow> reset_modes E pChannel m None pRest b))"

definition hResetTopic :: "'f env \<Rightarrow> MsgItem_t \<Rightarrow> 'f bot \<Rightarrow> 'f bot c_result" where
  "hResetTopic E pMsg b = Some (case pCallingNick pMsg of None \<Rightarrow> b
     | Some n \<Rightarrow>
        if strcasecmp_eq n (pBotname b) then b
        else (case pAccessChannel pMsg of None \<Rightarrow> b
         | Some c \<Rightarrow>
            (case db_get E b CHANNEL_DB (Some c) of None \<Rightarrow> b
             | Some pChannelSet \<Rightarrow>
                (case getTopic (Some pChannelSet) of
                   Some t \<Rightarrow> topic E (Some c) (Some t) b
                 | None \<Rightarrow> topic E (Some c) (Some []) b))))"

definition hRejoinAfterKick :: "'f env \<Rightarrow> MsgItem_t \<Rightarrow> 'f bot \<Rightarrow> 'f bot c_result" where
  "hRejoinAfterKick E pMsg b =
     (let pRest = getRest (Some (pRawLine pMsg)) None;
          pRest = getRest pRest pRest;
          pRest = getRest pRest pRest;
          pNick = getFirstPart pRest in
      Some (case pNick of None \<Rightarrow> b
        | Some n \<Rightarrow> if strcasecmp_eq n (pBotname b) then join E (pAccessChannel pMsg) b else b))"

definition hInitAfterOp :: "'f env \<Rightarrow> string \<Rightarrow> 'f bot \<Rightarrow> 'f bot c_result" where
  "hInitAfterOp E pLine b = (case getAccessChannel (Some pLine) of None \<Rightarrow> Some b
     | Some c \<Rightarrow> channelInit E (Some c) b)"

text \<open>
  \<open>searchNicknameFromCallbackDList\<close> and \<open>removeCallbackDList\<close> on the content of the list; a null
  nickname is only looked at when the list has an item.
\<close>

definition fetch_callback :: "string option \<Rightarrow> 'f bot \<Rightarrow> (CallbackItem_t option \<times> 'f bot) c_result" where
  "fetch_callback pNick b = (if callbacks b = [] then Some (None, b) else do {
     n \<leftarrow> pNick;
     let (item, rest) = take_first n (callbacks b);
     Some (item, b\<lparr>callbacks := rest\<rparr>) })"

definition hCallback :: "'f env \<Rightarrow> MsgItem_t \<Rightarrow> 'f bot \<Rightarrow> 'f bot c_result" where
  "hCallback E pMsg b =
     (let pRest = getRest (Some (pRawLine pMsg)) None;
          pRest = getRest pRest pRest;
          pRest = getRest pRest pRest;
          pNick = getFirstPart pRest; pRest = getRest pRest pRest;
          pLogin = getFirstPart pRest; pRest = getRest pRest pRest;
          pDomain = getFirstPart pRest in do {
        (item, b) \<leftarrow> fetch_callback pNick b;
        (case item of None \<Rightarrow> Some b
         | Some CB_Data \<Rightarrow> do {
             n \<leftarrow> pNick; l \<leftarrow> pLogin; d \<leftarrow> pDomain;
             run_callback E CB_Data (n @ ''!'' @ l @ ''@'' @ d) b }) })"

definition hWhoisFailed :: "'f env \<Rightarrow> MsgItem_t \<Rightarrow> 'f bot \<Rightarrow> 'f bot c_result" where
  "hWhoisFailed E pMsg b =
     (let pRest = getRest (Some (pRawLine pMsg)) None;
          pRest = getRest pRest pRest;
          pRest = getRest pRest pRest;
          pNick = getFirstPart pRest in do {
        (item, b) \<leftarrow> fetch_callback pNick b;
        Some b })"

section \<open>Properties\<close>

lemma take_first_new:
  assumes "\<forall>d \<in> set cs. \<not> strcasecmp_eq (nickname d) n" "strcasecmp_eq (nickname i) n"
  shows "take_first n (cs @ [i]) = (Some i, cs)"
  using assms by (induction cs) (auto simp: take_first_def split: list.splits)



text \<open>C19: The mode protection from event to reply: when somebody gives operator status to a user, the bot remembers the
  change and asks for the user's netmask, and when the answer shows a user who is not logged on, it takes
  the status away again, and the list of callbacks is as it was before.\<close>

theorem mode_protection:
  assumes "env_ok E"
    and "getNickname (Some actor) = Some a" "\<not> strcasecmp_eq a (pBotname b)" "SP \<notin> set actor"
    and "SP \<notin> set ch" "NickStringCheck (Some nk)" "nk \<noteq> []" "\<not> strcasecmp_eq nk (pBotname b)"
    and "SP \<notin> set uid" "SP \<notin> set host" "SP \<notin> set w1" "SP \<notin> set w2" "SP \<notin> set w3"
    and "\<forall>d \<in> set (callbacks b). \<not> strcasecmp_eq (nickname d) nk"
    and "db_get E b NICKTOUSER_DB (Some (nk @ ''!'' @ uid @ ''@'' @ host)) = None"
    and "getNickname (Some (nk @ ''!'' @ uid @ ''@'' @ host)) = Some nk"
    and "pRawLine event = actor @ SP # ''MODE'' @ SP # ch @ SP # ''+o'' @ SP # nk"
    and "pRawLine answer = w1 @ SP # w2 @ SP # w3 @ SP # nk @ SP # uid @ SP # host @ SP # ''* :name''"
  shows "\<exists>b1 b2. hResetModes E event b = Some b1 \<and> hCallback E answer b1 = Some b2
    \<and> callbacks b1 = callbacks b @ [\<lparr>nickname = nk, CallbackFkt = ModeResetCb_F, cb_data = ch @ '' +o''\<rparr>]
    \<and> callbacks b2 = callbacks b
    \<and> sent b2 = sent b @ [''WHOIS '' @ nk @ CRLF, ''MODE '' @ ch @ '' -o '' @ nk @ CRLF]"
proof -
  note ex = NickStringCheck_excludes(4)[OF assms(6)]
  let ?i = "\<lparr>nickname = nk, CallbackFkt = ModeResetCb_F, cb_data = ch @ '' +o''\<rparr>"
  define b1 where "b1 = SendLine E (''WHOIS '' @ nk @ CRLF) (add_callback nk ModeResetCb_F (ch @ '' +o'') b)"
  have nkp: "getFirstPart (Some nk) = Some nk" using ex by (simp add: takeWhile_none)
  note verb = getFirstPart_words[of "''MODE''", unfolded append_Cons append_Nil] getFirstPart_words[of "''+o''", unfolded append_Cons append_Nil]
  have "hResetModes E event b = Some b1"
    using assms(1-8) nkp
    by (simp add: hResetModes_def assms(17) getFirstPart_words verb Let_def b1_def del: getFirstPart_Some)
  moreover have cb: "callbacks b1 = callbacks b @ [?i]" by (simp add: b1_def add_callback_def)
  have tk: "take_first nk (callbacks b1) = (Some ?i, callbacks b)"
    unfolding cb by (rule take_first_new[OF assms(14)]) (simp add: strcasecmp_StrToLower)
  define b2 where "b2 = b1\<lparr>callbacks := callbacks b\<rparr>"
  have "hCallback E answer b1 = ModeResetCb E (nk @ ''!'' @ uid @ ''@'' @ host) (ch @ SP # CHR ''+'' # ''o'') b2"
    using assms(9-13) ex cb tk
    by (simp add: hCallback_def assms(18) getFirstPart_words Let_def fetch_callback_def run_callback_def b2_def
        del: getFirstPart_Some)
  moreover have "ModeResetCb E (nk @ ''!'' @ uid @ ''@'' @ host) (ch @ SP # CHR ''+'' # ''o'') b2
      = Some (SendLine E (''MODE '' @ ch @ '' -o '' @ nk @ CRLF) b2)"
  proof -
    have "dbs b2 = dbs b" "pBotname b2 = pBotname b" by (simp_all add: b2_def b1_def add_callback_def)
    then show ?thesis using assms(1,5,8,15,16)
      by (simp add: ModeResetCb_def getFirstPart_words char_at_def set_first_def del: V_get getFirstPart_Some)
  qed
  ultimately show ?thesis using cb by (simp add: b2_def b1_def add_callback_def)
qed

lemma mode_protection_witness:
  "\<exists>b1 b2. hCallback exact_env \<lparr>UserLevel = NoneLevel, AnswerMode = PrvMsgMode, pAccessChannel = None,
      pCallingNick = None, pNetmask = None, pRawLine = '':srv 311 ebotula eve u h * :name'',
      bInteractiveMode = False, pParameter = None\<rparr> b1 = Some b2
    \<and> sent b2 = [''WHOIS eve'' @ CRLF, ''MODE #c -o eve'' @ CRLF]"
proof -
  let ?e = "\<lparr>UserLevel = NoneLevel, AnswerMode = PrvMsgMode, pAccessChannel = Some ''#c'',
      pCallingNick = Some ''al'', pNetmask = Some ''al!x@y'', pRawLine = '':al!x@y MODE #c +o eve'',
      bInteractiveMode = False, pParameter = None\<rparr>"
  let ?a = "\<lparr>UserLevel = NoneLevel, AnswerMode = PrvMsgMode, pAccessChannel = None,
      pCallingNick = None, pNetmask = None, pRawLine = '':srv 311 ebotula eve u h * :name'',
      bInteractiveMode = False, pParameter = None\<rparr>"
  have "getNickname (Some '':al!x@y'') = Some ''al''" "\<not> strcasecmp_eq ''al'' (pBotname empty_bot)" "SP \<notin> set '':al!x@y''"
    "SP \<notin> set ''#c''" "NickStringCheck (Some ''eve'')" "''eve'' \<noteq> []" "\<not> strcasecmp_eq ''eve'' (pBotname empty_bot)"
    "SP \<notin> set ''u''" "SP \<notin> set ''h''" "SP \<notin> set '':srv''" "SP \<notin> set ''311''" "SP \<notin> set ''ebotula''"
    "\<forall>d \<in> set (callbacks empty_bot). \<not> strcasecmp_eq (nickname d) ''eve''"
    "db_get exact_env empty_bot NICKTOUSER_DB (Some (''eve'' @ ''!'' @ ''u'' @ ''@'' @ ''h'')) = None"
    "getNickname (Some (''eve'' @ ''!'' @ ''u'' @ ''@'' @ ''h'')) = Some ''eve''"
    "pRawLine ?e = '':al!x@y'' @ SP # ''MODE'' @ SP # ''#c'' @ SP # ''+o'' @ SP # ''eve''"
    "pRawLine ?a = '':srv'' @ SP # ''311'' @ SP # ''ebotula'' @ SP # ''eve'' @ SP # ''u'' @ SP # ''h'' @ SP # ''* :name''"
    "sent empty_bot = []"
    by code_simp+
  from mode_protection[OF exact_env_ok this(1-17)] this(18) show ?thesis by auto
qed

end
