(* ===== verification/Cmdtypes.thy ===== *)
theory Cmdtypes
  imports Irc
begin

text \<open>
  The command ids of \<open>cmdtypes.h\<close>, the table \<open>CmdHandleField\<close> of \<open>cmdlist.c\<close> without its
  function pointers (the dispatch to the handlers is \<open>CommandHandler\<close> in the theory of the
  parser), and the help texts of \<open>irchelp.c\<close>.
\<close>

abbreviation AP :: char where "AP \<equiv> CHR 0x27"

section \<open>Command ids\<close>

datatype Cmd_t =
    CMD_NONE | CMD_ONPING | CMD_ONQUIT | CMD_ONNICKCHG | CMD_ONMODE
  | CMD_ONKICK | CMD_ONJOIN | CMD_ONNAMES | CMD_ONTOPIC | CMD_ONWHOIS
  | CMD_ONNONICK | CMD_CTCPPING | CMD_CTCPVERSION | CMD_CTCPTIME | CMD_VIEWGREAT
  | CMD_HELP | CMD_VERSION | CMD_HELLO | CMD_IDENT | CMD_LOGOFF
  | CMD_PASS | CMD_INVITE | CMD_CHANMODE | CMD_ACCOUNTLIST | CMD_ACCOUNTMODE
  | CMD_SAY | CMD_KICK | CMD_SET_TOPIC | CMD_SET_GREATING | CMD_BAN
  | CMD_DEBAN | CMD_RESTART | CMD_ALLSAY | CMD_RMUSER | CMD_NICK
  | CMD_DIE | CMD_CHANNELS | CMD_RMCHANNEL | CMD_ADDCHANNEL | CMD_JOIN
  | CMD_PART | CMD_COUNT

text \<open>The value of the enumeration constant.\<close>

primrec cmd_id :: "Cmd_t \<Rightarrow> nat" where
  "cmd_id CMD_NONE = 0"
| "cmd_id CMD_ONPING = 1"
| "cmd_id CMD_ONQUIT = 2"
| "cmd_id CMD_ONNICKCHG = 3"
| "cmd_id CMD_ONMODE = 4"
| "cmd_id CMD_ONKICK = 5"
| "cmd_id CMD_ONJOIN = 6"
| "cmd_id CMD_ONNAMES = 7"
| "cmd_id CMD_ONTOPIC = 8"
| "cmd_id CMD_ONWHOIS = 9"
| "cmd_id CMD_ONNONICK = 10"
| "cmd_id CMD_CTCPPING = 11"
| "cmd_id CMD_CTCPVERSION = 12"
| "cmd_id CMD_CTCPTIME = 13"
| "cmd_id CMD_VIEWGREAT = 14"
| "cmd_id CMD_HELP = 15"
| "cmd_id CMD_VERSION = 16"
| "cmd_id CMD_HELLO = 17"
| "cmd_id CMD_IDENT = 18"
| "cmd_id CMD_LOGOFF = 19"
| "cmd_id CMD_PASS = 20"
| "cmd_id CMD_INVITE = 21"
| "cmd_id CMD_CHANMODE = 22"
| "cmd_id CMD_ACCOUNTLIST = 23"
| "cmd_id CMD_ACCOUNTMODE = 24"
| "cmd_id CMD_SAY = 25"
| "cmd_id CMD_KICK = 26"
| "cmd_id CMD_SET_TOPIC = 27"
| "cmd_id CMD_SET_GREATING = 28"
| "cmd_id CMD_BAN = 29"
| "cmd_id CMD_DEBAN = 30"
| "cmd_id CMD_RESTART = 31"
| "cmd_id CMD_ALLSAY = 32"
| "cmd_id CMD_RMUSER = 33"
| "cmd_id CMD_NICK = 34"
| "cmd_id CMD_DIE = 35"
| "cmd_id CMD_CHANNELS = 36"
| "cmd_id CMD_RMCHANNEL = 37"
| "cmd_id CMD_ADDCHANNEL = 38"
| "cmd_id CMD_JOIN = 39"
| "cmd_id CMD_PART = 40"
| "cmd_id CMD_COUNT = 41"

abbreviation CMD_MASTER :: nat where "CMD_MASTER \<equiv> cmd_id CMD_RESTART"
abbreviation CMD_OWNER :: nat where "CMD_OWNER \<equiv> cmd_id CMD_CHANMODE"
abbreviation CMD_FRIEND :: nat where "CMD_FRIEND \<equiv> cmd_id CMD_INVITE"
abbreviation CMD_LOGGED :: nat where "CMD_LOGGED \<equiv> cmd_id CMD_LOGOFF"
abbreviation CMD_EVENT :: nat where "CMD_EVENT \<equiv> cmd_id CMD_ONPING"
abbreviation CMD_OTHERS :: nat where "CMD_OTHERS \<equiv> cmd_id CMD_VIEWGREAT"
abbreviation CMD_FIRST :: nat where "CMD_FIRST \<equiv> CMD_OTHERS"

abbreviation ACCOUNT_LIST_TAB :: nat where "ACCOUNT_LIST_TAB \<equiv> 16"
abbreviation HELP_TAB :: nat where "HELP_TAB \<equiv> 12"

section \<open>The command table\<close>

record CmdHandleRef_t =
  CmdId :: Cmd_t
  pCmdString :: string
  bIsCommand :: bool

definition cmd_ref :: "Cmd_t \<Rightarrow> string \<Rightarrow> bool \<Rightarrow> CmdHandleRef_t" where
  "cmd_ref i s c = \<lparr>CmdId = i, pCmdString = s, bIsCommand = c\<rparr>"

text \<open>The entry of \<open>CMD_NONE\<close> has no string and is never used.\<close>

definition CmdHandleField :: "CmdHandleRef_t list" where
  "CmdHandleField = [
     cmd_ref CMD_NONE [] False,
     cmd_ref CMD_ONPING (''PING'') False,
     cmd_ref CMD_ONQUIT (''QUIT'') False,
     cmd_ref CMD_ONNICKCHG (''NICK'') False,
     cmd_ref CMD_ONMODE (''MODE'') False,
     cmd_ref CMD_ONKICK (''KICK'') False,
     cmd_ref CMD_ONJOIN (''JOIN'') False,
     cmd_ref CMD_ONNAMES (''353'') False,
     cmd_ref CMD_ONTOPIC (''TOPIC'') False,
     cmd_ref CMD_ONWHOIS (''311'') False,
     cmd_ref CMD_ONNONICK (''401'') False,
     cmd_ref CMD_CTCPPING ([SOH] @ ''PING'') False,
     cmd_ref CMD_CTCPVERSION ([SOH] @ ''VERSION'' @ [SOH]) False,
     cmd_ref CMD_CTCPTIME ([SOH] @ ''TIME'' @ [SOH]) False,
     cmd_ref CMD_VIEWGREAT (''viewgreet'') True,
     cmd_ref CMD_HELP (''help'') True,
     cmd_ref CMD_VERSION (''version'') True,
     cmd_ref CMD_HELLO (''hello'') True,
     cmd_ref CMD_IDENT (''ident'') True,
     cmd_ref CMD_LOGOFF (''logoff'') True,
     cmd_ref CMD_PASS (''pass'') True,
     cmd_ref CMD_INVITE (''invite'') True,
     cmd_ref CMD_CHANMODE (''chanmode'') True,
     cmd_ref CMD_ACCOUNTLIST (''accountlist'') True,
     cmd_ref CMD_ACCOUNTMODE (''accountmode'') True,
     cmd_ref CMD_SAY (''say'') True,
     cmd_ref CMD_KICK (''kick'') True,
     cmd_ref CMD_SET_TOPIC (''topic'') True,
     cmd_ref CMD_SET_GREATING (''greeting'') True,
     cmd_ref CMD_BAN (''ban'') True,
     cmd_ref CMD_DEBAN (''deban'') True,
     cmd_ref CMD_RESTART (''restart'') True,
     cmd_ref CMD_ALLSAY (''allsay'') True,
     cmd_ref CMD_RMUSER (''rmaccount'') True,
     cmd_ref CMD_NICK (''nick'') True,
     cmd_ref CMD_DIE (''die'') True,
     cmd_ref CMD_CHANNELS (''chanlist'') True,
     cmd_ref CMD_RMCHANNEL (''rmchannel'') True,
     cmd_ref CMD_ADDCHANNEL (''addchannel'') True,
     cmd_ref CMD_JOIN (''join'') True,
     cmd_ref CMD_PART (''part'') True]"

lemma table_length: "length CmdHandleField = cmd_id CMD_COUNT"
  by (simp add: CmdHandleField_def)

text \<open>The assertion of the parser: the entry at the index of a command is that of the command.\<close>

lemma table_ids: "i < cmd_id CMD_COUNT \<Longrightarrow> cmd_id (CmdId (CmdHandleField ! i)) = i"
proof -
  have "map (\<lambda>r. cmd_id (CmdId r)) CmdHandleField = [0..<cmd_id CMD_COUNT]"
    by (simp add: CmdHandleField_def cmd_ref_def upt_rec)
  moreover assume "i < cmd_id CMD_COUNT"
  ultimately show ?thesis by (metis add_0 nth_map nth_upt table_length)
qed

section \<open>The help texts\<close>

record IrcHelp_t =
  CmdID :: Cmd_t
  pIrcHelp :: "string list"
  pShort :: string
  pIrcSyntax :: string

definition irc_help :: "Cmd_t \<Rightarrow> string list \<Rightarrow> string \<Rightarrow> string \<Rightarrow> IrcHelp_t" where
  "irc_help i t s y = \<lparr>CmdID = i, pIrcHelp = t, pShort = s, pIrcSyntax = y\<rparr>"

text \<open>The general help and the events, which have no help.\<close>

definition help_general :: "IrcHelp_t list" where
  "help_general = [
     irc_help CMD_NONE [
       ''This is the help system for using this bot.'',
       ''!help COMMAND for information about a special command'',
       ''------------------------------------------------------------------------'']
       ([])
       (''Syntax:'')]"

definition help_events :: "IrcHelp_t list" where
  "help_events = [
     irc_help CMD_ONPING [] [] [],
     irc_help CMD_ONQUIT [] [] [],
     irc_help CMD_ONNICKCHG [] [] [],
     irc_help CMD_ONMODE [] [] [],
     irc_help CMD_ONKICK [] [] [],
     irc_help CMD_ONJOIN [] [] [],
     irc_help CMD_ONNAMES [] [] [],
     irc_help CMD_ONTOPIC [] [] [],
     irc_help CMD_ONWHOIS [] [] [],
     irc_help CMD_ONNONICK [] [] [],
     irc_help CMD_CTCPPING [] [] [],
     irc_help CMD_CTCPVERSION [] [] [],
     irc_help CMD_CTCPTIME [] [] []]"

text \<open>The commands of every user, of logged on users and of friends.\<close>

definition help_users :: "IrcHelp_t list" where
  "help_users = [
     irc_help CMD_VIEWGREAT [
       ''Using this command you can inspect the greeting of a'',
       ''given channel. If no channel is given the greeting of'',
       ''the current channel will be viewed.'']
       (''shows the greeting line of a channel'')
       (''!viewgreet <#Channel>''),
     irc_help CMD_HELP [
       ''Displays general information about the bot and hints for'',
       ''using the available commands. A list of commands will be'',
       ''displayed too.'']
       (''give general help for using this bot'')
       (''!help <Command>''),
     irc_help CMD_VERSION [
       ''Displays version and compile date of the bot.'']
       (''print the version information'')
       (''!version''),
     irc_help CMD_HELLO [
       ''Every user who wants to use the bot needs an account.'',
       ''Using this command you get one. Your login is the nickname'',
       ''you had when sending this command. REMEMBER to set a'',
       ''password with !passwd'']
       (''creates a new account.'')
       (''!hello''),
     irc_help CMD_IDENT [
       ''Any user who has got an account, must identify himself'',
       ''before bot commands are accepted. This is done by this command.'']
       (''identify yourself to the bot'')
       (''!ident [Login] <Password>''),
     irc_help CMD_LOGOFF [
       ''If you want to disconnect from the bot,'',
       ''you should logoff first.'']
       (''logoff from the bot'')
       (''!logoff''),
     irc_help CMD_PASS [
       ''Selfexplaining. Change your account password (see also !help hello)'',
       ''or set it if you don'' @ [AP] @ ''t have one yet.'']
       (''change the password for the current account'')
       (''!pass <Password>''),
     irc_help CMD_INVITE [
       ''If a channel is set invite-only, you can only join this channel'',
       ''if a user in it asks you to (invites you). So if only the bot has'',
       ''joined the invite-only channel you can use this command to make the'',
       ''bot invite you so you can join.'']
       (''invite the user in a channel'')
       (''!invite <#channel> [nick]'')]"

text \<open>The commands of channel owners.\<close>

definition help_owner :: "IrcHelp_t list" where
  "help_owner = [
     irc_help CMD_CHANMODE [
       ''Change channel modes (e.g. moderated [+m], topic protected +[t] etc.)'']
       (''Set and remove the modes for a channel.'')
       (''!chanmod <#Channel> [+|-][tnmpsklrqa] <Limit> <Keyword>''),
     irc_help CMD_ACCOUNTLIST [
       ''If a channel is given as parameter, all users with an account in this'',
       ''channel are listed. If no channel given, all users with an account in'',
       ''any channel are listed.'']
       (''print a list of users from the channel or all'')
       (''!accountlist <#Channel>''),
     irc_help CMD_ACCOUNTMODE [
       ''User modes are for example Channel-Operator (+o) or Voice (+v)'',
       ''m...Master'',
       ''o...Owner'',
       ''v...Friend'']
       (''set the mode for a user'')
       (''!accountmode <#Channel> [Login] [+|-][mov]''),
     irc_help CMD_SAY [
       ''The bot posts the given message into this channel.'']
       (''send a message into a channel'')
       (''!say <#Channel> [Text]''),
     irc_help CMD_KICK [
       ''Disconnects a user from the given channel'']
       (''kicks a user out of the channel'')
       (''!kick <#Channel> [Nickname]''),
     irc_help CMD_SET_TOPIC [
       ''Topic is the line that can be seen near the channel name'',
       ''in the channel list.'',
       ''EXAMPLE: #LUGse -== LUGse - Linux User Group Senftenberg ==-'',
       ''Used to discripe a channel.'']
       (''sets or removes the  topic of a channel'')
       (''!topic <#Channel> [Topic]''),
     irc_help CMD_SET_GREATING [
       ''The greeting is a message the bot sends to the channel'',
       ''when a user joins the channel.'']
       (''Sets or removes the greeting line for a channel'')
       (''!greeting <#Channel> [Text]''),
     irc_help CMD_BAN [
       ''Ban means the user can'' @ [AP] @ ''t join the channel until'',
       ''he is debanned or changes his nick.'']
       (''bans a user from the channel'')
       (''!ban <#channel> [Nickname]''),
     irc_help CMD_DEBAN [
       ''Removes an existing ban from a user so he can join the'',
       ''channel again he was banned from.'']
       (''resets the ban from a user'')
       (''!deban <#channel> [Banmask]'')]"

text \<open>The commands of bot masters.\<close>

definition help_master :: "IrcHelp_t list" where
  "help_master = [
     irc_help CMD_RESTART [
       ''Useful if configuration is changed. By restarting config is read again.'']
       (''stops and restarts the bot.'')
       (''!restart''),
     irc_help CMD_ALLSAY [
       ''Similar to SAY, but message is shown in all channels the bot has joined.'']
       (''sends a message to all channels'')
       (''!allsay [Text]''),
     irc_help CMD_RMUSER [
       ''Selfexplaining. Accounts no longer needed can be removed this way.'']
       (''removes a user account of the bot'')
       (''!rmaccount [Login]''),
     irc_help CMD_NICK [
       ''The given nickname is only valid until the bot is restarted.'']
       (''changes the nickname of the bot'')
       (''!nick [Nickname]''),
     irc_help CMD_DIE [
       ''The bot is stopped but unlike RESTART, DIE doesn'' @ [AP] @ ''t start'',
       ''the bot again.'']
       (''shutdown the bot.'')
       (''!die''),
     irc_help CMD_CHANNELS [
       ''Only channels the bot is within are listed.'']
       (''prints out a list of all channels from the bot'')
       (''!chanlist''),
     irc_help CMD_RMCHANNEL [
       ''The bot leaves the given channel and removes it'',
       ''from its channel list.'']
       (''let the bot part and remove a old channel'')
       (''!rmchannel <#Channel>''),
     irc_help CMD_ADDCHANNEL [
       ''The channel must be given as a parameter.'',
       ''The bot creates the channel, inserts it into his'',
       ''channel list and joins the channel.'']
       (''let the bot join and add a new channel'')
       (''!addchannel [#Channel]''),
     irc_help CMD_JOIN [
       ''The channel must be given as a parameter and must exist'',
       ''before the bot joins it.'']
       (''let the bot join a channel'')
       (''!join [#Channel]''),
     irc_help CMD_PART [
       ''The bot leaves the given channel. The channel is not'',
       ''removed from the bots channel list.'']
       (''let the bot part a channel'')
       (''!part <#Channel>'')]"

definition sIrcHelp :: "IrcHelp_t list" where
  "sIrcHelp = help_general @ help_events @ help_users @ help_owner @ help_master"

definition GetIrcHelp :: "nat \<Rightarrow> IrcHelp_t" where
  "GetIrcHelp i = sIrcHelp ! i"

lemmas help_defs = sIrcHelp_def help_general_def help_events_def help_users_def help_owner_def help_master_def

lemma help_ids: "i < cmd_id CMD_COUNT \<Longrightarrow> cmd_id (CmdID (GetIrcHelp i)) = i"
proof -
  have "map (\<lambda>r. cmd_id (CmdID r)) sIrcHelp = [0..<cmd_id CMD_COUNT]"
    by (simp add: help_defs irc_help_def upt_rec)
  moreover assume "i < cmd_id CMD_COUNT"
  moreover have "length sIrcHelp = cmd_id CMD_COUNT" by (simp add: help_defs)
  ultimately show ?thesis unfolding GetIrcHelp_def by (metis add_0 nth_map nth_upt)
qed

end
