(* ===== verification/UserCommands.thy ===== *)
theory UserCommands
  imports Handles Cmdtypes
begin

text \<open>
  The commands that every user or every logged on user may give (\<open>command.c\<close>) and the CTCP
  requests (\<open>ctcp.c\<close>): help, version, hello, ident, pass and logoff.
\<close>

abbreviation reply :: "'f env \<Rightarrow> MsgItem_t \<Rightarrow> string \<Rightarrow> string list \<Rightarrow> 'f bot \<Rightarrow> 'f bot c_result" where
  "reply E pMsg fmt args b \<equiv> sendMsg E (AnswerMode pMsg) (pCallingNick pMsg) fmt args b"

section \<open>CTCP requests\<close>

definition ctcpping :: "'f env \<Rightarrow> MsgItem_t \<Rightarrow> 'f bot \<Rightarrow> 'f bot c_result" where
  "ctcpping E pMsg b = Some (case strstr (pRawLine pMsg) ('' :'' @ [SOH]) of None \<Rightarrow> b
     | Some pPing \<Rightarrow> notice E (pCallingNick pMsg) (Some (snprintf 64 (drop 2 pPing))) b)"

text \<open>\<open>uname_text\<close> is the text after \<open>VERSION\<close>: package, version and system.\<close>

definition ctcpversion :: "'f env \<Rightarrow> MsgItem_t \<Rightarrow> 'f bot \<Rightarrow> 'f bot c_result" where
  "ctcpversion E pMsg b = Some (notice E (pCallingNick pMsg)
     (Some (snprintf 256 ([SOH] @ ''VERSION '' @ uname_text E @ [SOH]))) b)"

text \<open>The result of \<open>strftime\<close> in a buffer of 63 bytes is undefined if it does not fit.\<close>

definition ctcptime :: "'f env \<Rightarrow> MsgItem_t \<Rightarrow> 'f bot \<Rightarrow> 'f bot c_result" where
  "ctcptime E pMsg b = (if length (time_text E) + 8 \<le> 63
     then Some (notice E (pCallingNick pMsg) (Some ([SOH] @ ''TIME '' @ time_text E @ [SOH])) b)
     else None)"

section \<open>Help\<close>

text \<open>The list of the commands: one line for each command the level allows.\<close>

definition help_line :: "nat \<Rightarrow> string" where
  "help_line i = (let cmd = pCmdString (CmdHandleField ! i) in
     cmd @ replicate (HELP_TAB - length cmd) SP @ pShort (GetIrcHelp i))"

definition help_list :: "'f env \<Rightarrow> MsgItem_t \<Rightarrow> 'f bot \<Rightarrow> 'f bot c_result" where
  "help_list E pMsg b = do {
     b \<leftarrow> for_each (\<lambda>t. reply E pMsg t []) (pIrcHelp (GetIrcHelp (cmd_id CMD_NONE))) b;
     b \<leftarrow> for_each (\<lambda>i b.
          if UserLevel pMsg < LoggedLevel \<and> i \<ge> CMD_LOGGED then Some b
          else if UserLevel pMsg < MasterLevel \<and> i \<ge> CMD_MASTER then Some b
          else reply E pMsg (help_line i) [] b) [CMD_FIRST..<cmd_id CMD_COUNT] b;
     reply E pMsg ''Help end'' [] b }"

text \<open>The help for the command at index \<open>i\<close>; \<open>pParameter\<close> has a leading exclamation mark.\<close>

definition help_entry :: "'f env \<Rightarrow> MsgItem_t \<Rightarrow> string \<Rightarrow> nat \<Rightarrow> 'f bot \<Rightarrow> 'f bot c_result" where
  "help_entry E pMsg param i b = do {
     let pTmp = snprintf (8 + length (pCmdString (CmdHandleField ! i)) + 4)
                  (''Help for'' @ '' '' @ param @ '':'');
     b \<leftarrow> reply E pMsg pTmp [] b;
     b \<leftarrow> for_each (\<lambda>t. reply E pMsg t []) (pIrcHelp (GetIrcHelp i)) b;
     b \<leftarrow> reply E pMsg (pIrcSyntax (GetIrcHelp i)) [] b;
     reply E pMsg ''Help end'' [] b }"

text \<open>The first index from \<open>CMD_FIRST\<close> on whose command string is the given one.\<close>

definition find_cmd :: "string \<Rightarrow> nat option" where
  "find_cmd s = (case dropWhile (\<lambda>i. pCmdString (CmdHandleField ! i) \<noteq> s) [CMD_FIRST..<cmd_id CMD_COUNT] of
     [] \<Rightarrow> None | i # _ \<Rightarrow> Some i)"

definition help_cmd :: "'f env \<Rightarrow> MsgItem_t \<Rightarrow> 'f bot \<Rightarrow> 'f bot c_result" where
  "help_cmd E pMsg b = (case getParameters (Some (pRawLine pMsg)) of
       None \<Rightarrow> help_list E pMsg b
     | Some p \<Rightarrow>
        (let p = strtok_cut SP p;
             p = (if starts_with p ''!'' then p else ''!'' @ p) in
         case find_cmd (drop 1 p) of
           Some i \<Rightarrow> help_entry E pMsg p i b
         | None \<Rightarrow> reply E pMsg ''No help found for the command %s.'' [p] b))"

section \<open>Accounts\<close>

text \<open>The first account becomes the master of the bot.\<close>

definition hello_master :: "'f env \<Rightarrow> MsgItem_t \<Rightarrow> 'f bot \<Rightarrow> 'f bot c_result" where
  "hello_master E pMsg b =
     (let (bResult, b) =
        (if \<not> db_exist E b ACCESS_DB (pCallingNick pMsg)
         then db_add E ACCESS_DB (pCallingNick pMsg) (Some ''m'') b
         else db_replace E ACCESS_DB (pCallingNick pMsg) (Some ''m'') b) in do {
      n \<leftarrow> pCallingNick pMsg;
      if bResult then reply E pMsg ''The account %s is now the botmaster.'' [n] b
      else reply E pMsg ''The initialization of the account %s as the botmaster failed.'' [n] b })"

definition hello :: "'f env \<Rightarrow> MsgItem_t \<Rightarrow> 'f bot \<Rightarrow> 'f bot c_result" where
  "hello E pMsg b =
     (if UserLevel pMsg > LoggedLevel then reply E pMsg (''You'' @ [AP] @ ''re already identified.'') [] b
      else do {
        pList \<leftarrow> list_db (gdbm E) (dbs b) USER_DB;
        let (added, b) = db_add E USER_DB (pCallingNick pMsg) (Some []) b;
        n \<leftarrow> pCallingNick pMsg;
        b \<leftarrow> (if added then do {
            let b = log_on E (pNetmask pMsg) n b;
            b \<leftarrow> reply E pMsg ''Nice to meet you.'' [] b;
            b \<leftarrow> reply E pMsg ''Your account is %s.'' [n] b;
            reply E pMsg (''You'' @ [AP] @ ''re now identified.'') [] b }
          else reply E pMsg ''The account %s is already exists.'' [n] b);
        if pList = [] then hello_master E pMsg b else Some b })"

definition password :: "'f env \<Rightarrow> MsgItem_t \<Rightarrow> 'f bot \<Rightarrow> 'f bot c_result" where
  "password E pMsg b = (case db_get E b NICKTOUSER_DB (pNetmask pMsg) of
       None \<Rightarrow> Some b
     | Some pLogin \<Rightarrow>
        if pLogin = [] then Some b
        else (let pPasswd = getParameters (Some (pRawLine pMsg)) in do {
          b \<leftarrow> (if pPasswd = None then reply E pMsg (''You'' @ [AP] @ ''ve set a empty password.'') [] b
               else Some b);
          let b = snd (db_replace E USER_DB (Some pLogin)
                    (Some (case pPasswd of None \<Rightarrow> [] | Some p \<Rightarrow> p)) b);
          reply E pMsg ''Password is changed.'' [] b }))"

text \<open>The modes of one channel when the user with login \<open>pLogin\<close> logs off.\<close>

definition logoff_channel :: "'f env \<Rightarrow> MsgItem_t \<Rightarrow> string \<Rightarrow> string \<Rightarrow> 'f bot \<Rightarrow> 'f bot c_result" where
  "logoff_channel E pMsg pLogin pChannel b =
     (case db_get E b ACCESS_DB (Some (pLogin @ pChannel)) of
        Some pMode \<Rightarrow> do {
          pMode \<leftarrow> set_first (CHR ''-'') pMode;
          mode E (Some pChannel) (Some pMode) (pCallingNick pMsg) b }
      | None \<Rightarrow>
          if UserLevel pMsg = MasterLevel
          then mode E (Some pChannel) (Some ''-o'') (pCallingNick pMsg) b else Some b)"

definition logoff :: "'f env \<Rightarrow> MsgItem_t \<Rightarrow> 'f bot \<Rightarrow> 'f bot c_result" where
  "logoff E pMsg b = (case db_get E b NICKTOUSER_DB (pNetmask pMsg) of
       None \<Rightarrow> Some b
     | Some pLogin \<Rightarrow>
        (let b = log_out E pLogin b in
         if bInteractiveMode pMsg then do {
           pChannelQueue \<leftarrow> list_db (gdbm E) (dbs b) CHANNEL_DB;
           b \<leftarrow> for_each (logoff_channel E pMsg pLogin) pChannelQueue b;
           reply E pMsg (''You'' @ [AP] @ ''re now logged off.'') [] b }
         else Some b))"

text \<open>The modes of one channel when the user with login \<open>pLogin\<close> identifies.\<close>

definition ident_channel :: "'f env \<Rightarrow> MsgItem_t \<Rightarrow> bool \<Rightarrow> string \<Rightarrow> string \<Rightarrow> 'f bot \<Rightarrow> 'f bot c_result" where
  "ident_channel E pMsg isMaster pLogin pChannel b =
     (if isMaster then mode E (Some pChannel) (Some ''+o'') (pCallingNick pMsg) b
      else (case db_get E b ACCESS_DB (Some (pLogin @ pChannel)) of
          Some pMod \<Rightarrow> mode E (Some pChannel) (Some pMod) (pCallingNick pMsg) b
        | None \<Rightarrow> Some b))"

definition ident_login :: "'f env \<Rightarrow> MsgItem_t \<Rightarrow> string \<Rightarrow> string \<Rightarrow> 'f bot \<Rightarrow> 'f bot c_result" where
  "ident_login E pMsg pLogin pPasswd b = do {
     good \<leftarrow> check_db (gdbm E) (crypt E) (dbs b) USER_DB (Some pLogin) (Some pPasswd);
     if good then do {
       let b = log_on E (pNetmask pMsg) pLogin b;
       b \<leftarrow> reply E pMsg (''You'' @ [AP] @ ''re now identified.'') [] b;
       let isMaster = db_exist E b ACCESS_DB (Some pLogin);
       pChannelQueue \<leftarrow> list_db (gdbm E) (dbs b) CHANNEL_DB;
       for_each (ident_channel E pMsg isMaster pLogin) pChannelQueue b }
     else reply E pMsg ''Invalid password'' [] b }"

definition ident :: "'f env \<Rightarrow> MsgItem_t \<Rightarrow> 'f bot \<Rightarrow> 'f bot c_result" where
  "ident E pMsg b =
     (if db_exist E b NICKTOUSER_DB (pNetmask pMsg)
      then reply E pMsg (''You'' @ [AP] @ ''re already identified.'') [] b
      else (case getParameters (Some (pRawLine pMsg)) of
          None \<Rightarrow> reply E pMsg (''Couldn'' @ [AP] @ ''t found regulare parameters.'') [] b
        | Some p \<Rightarrow>
            (case strstr p '' '' of
               None \<Rightarrow> do {
                 b \<leftarrow> reply E pMsg (''You'' @ [AP] @ ''ve set a empty password.'') [] b;
                 ident_login E pMsg (strtok_cut SP p) [] b }
             | Some pPos \<Rightarrow> ident_login E pMsg (strtok_cut SP p) (drop 1 pPos) b)))"

text \<open>\<open>VERSIONSTR\<close> stands for the text that the format and its arguments give.\<close>

definition version :: "'f env \<Rightarrow> MsgItem_t \<Rightarrow> 'f bot \<Rightarrow> 'f bot c_result" where
  "version E pMsg b = (let pMsgStr = snprintf 256 (VERSIONSTR E) in
     if length pMsgStr + 2 + 1 \<le> 256 then reply E pMsg (pMsgStr @ CRLF) [] b else None)"

section \<open>What the replies send\<close>

text \<open>A reply to the calling user, in the mode in which the user spoke to the bot.\<close>

definition told :: "'f env \<Rightarrow> MsgItem_t \<Rightarrow> string \<Rightarrow> 'f bot \<Rightarrow> 'f bot" where
  "told E pMsg t b = (case AnswerMode pMsg of NoticeMode \<Rightarrow> notice E (pCallingNick pMsg) (Some t) b
     | PrvMsgMode \<Rightarrow> privmsg E (pCallingNick pMsg) (Some t) b)"

lemma reply_told: "c_format fmt args = Some t \<Longrightarrow> length t < 1024 \<Longrightarrow> reply E pMsg fmt args b = Some (told E pMsg t b)"
  by (simp add: sendMsg_def told_def)

lemma reply_plain: "CHR ''%'' \<notin> set fmt \<Longrightarrow> length fmt < 1024 \<Longrightarrow> reply E pMsg fmt [] b = Some (told E pMsg fmt b)"
  by (rule reply_told) (simp_all add: c_format_plain)

lemma reply_one:
  "CHR ''%'' \<notin> set pre \<Longrightarrow> CHR ''%'' \<notin> set post \<Longrightarrow> length pre + length x + length post < 1024
   \<Longrightarrow> reply E pMsg (pre @ ''%s'' @ post) [x] b = Some (told E pMsg (pre @ x @ post) b)"
  by (rule reply_told) (simp_all add: c_format_append c_format_plain)

lemma told_sends: "sends b (told E pMsg t b)"
  by (simp add: told_def sends_total split: AnswerMode_t.splits)

lemma told_fields [simp]: "dbs (told E pMsg t b) = dbs b" "callbacks (told E pMsg t b) = callbacks b"
    "pBotname (told E pMsg t b) = pBotname b"
  using sends_fields[OF told_sends] by blast+

lemma told_logins [simp]: "logins_ok E (told E' pMsg t b) = logins_ok E b"
  by (simp add: logins_ok_def)

lemma told_sent: "pCallingNick pMsg = Some n \<Longrightarrow> sent (told E pMsg t b) = sent b @
    [(case AnswerMode pMsg of NoticeMode \<Rightarrow> ''NOTICE '' | PrvMsgMode \<Rightarrow> ''PRIVMSG '') @ n @ '' :'' @ t @ CRLF]"
  by (simp add: told_def split: AnswerMode_t.splits)

section \<open>Properties\<close>

text \<open>The mode lines for a channel when the user with login \<open>l\<close> identifies as \<open>n\<close>.\<close>

definition granted :: "'f env \<Rightarrow> 'f bot \<Rightarrow> string \<Rightarrow> string \<Rightarrow> string \<Rightarrow> string list" where
  "granted E b l n ch = (if db_get E b ACCESS_DB (Some l) \<noteq> None then [''MODE '' @ ch @ '' +o '' @ n @ CRLF]
     else (case db_get E b ACCESS_DB (Some (l @ ch)) of None \<Rightarrow> []
       | Some m \<Rightarrow> [''MODE '' @ ch @ '' '' @ m @ '' '' @ n @ CRLF]))"

lemma ident_channels:
  assumes "env_ok E" "pCallingNick pMsg = Some n" "V E b ACCESS_DB = V E b0 ACCESS_DB"
  shows "\<exists>b'. for_each (ident_channel E pMsg (db_get E b0 ACCESS_DB (Some l) \<noteq> None) l) ks b = Some b'
    \<and> dbs b' = dbs b \<and> sent b' = sent b @ concat (map (granted E b0 l n) ks)"
  using assms(3)
proof (induction ks arbitrary: b)
  case (Cons k ks)
  obtain b1 where b1: "ident_channel E pMsg (db_get E b0 ACCESS_DB (Some l) \<noteq> None) l k b = Some b1"
    "dbs b1 = dbs b" "sent b1 = sent b @ granted E b0 l n k"
    using assms(1,2) Cons.prems
    by (cases "V E b0 ACCESS_DB (StrToLower l)"; cases "V E b0 ACCESS_DB (StrToLower l @ StrToLower k)")
      (simp_all add: ident_channel_def granted_def)
  moreover have "V E b1 ACCESS_DB = V E b0 ACCESS_DB" using Cons.prems b1(2) by simp
  from Cons.IH[OF this] b1 show ?case by auto
qed simp

text \<open>How the parameters reach \<open>ident_login\<close>, and what it does with a wrong and with the right password.\<close>

lemma ident_parameters:
  assumes "env_ok E" "pNetmask pMsg = Some nm" "db_get E b NICKTOUSER_DB (Some nm) = None" "SP \<notin> set l" "l \<noteq> []"
    and "getParameters (Some (pRawLine pMsg)) = Some (l @ SP # pw)"
  shows "ident E pMsg b = ident_login E pMsg l pw b"
proof -
  have "hd l \<noteq> SP" using assms(4,5) by (metis hd_in_set)
  then have "strtok_cut SP (l @ SP # pw) = l" using assms(4,5) by (simp add: strtok_cut_simple takeWhile_upto)
  then show ?thesis using assms by (simp add: ident_def strstr_append)
qed

lemma ident_login_check:
  "env_ok E \<Longrightarrow> check_db (gdbm E) (crypt E) (dbs b) USER_DB (Some l) (Some pw)
      = Some (V E b USER_DB (StrToLower l) = Some (crypt E pw))"
  by (simp add: check_view env_gdbm db_value_def)

lemma ident_login_wrong:
  assumes "env_ok E" "db_get E b USER_DB (Some l) \<noteq> Some (crypt E pw)"
  shows "ident_login E pMsg l pw b = Some (told E pMsg ''Invalid password'' b)"
  using assms by (simp add: ident_login_def ident_login_check reply_plain)

lemma ident_login_right:
  assumes "env_ok E" "pNetmask pMsg = Some nm" "pCallingNick pMsg = Some n" "db_get E b NICKTOUSER_DB (Some nm) = None"
    and good: "V E b USER_DB (StrToLower l) = Some (crypt E pw)"
  obtains b' ks where "ident_login E pMsg l pw b = Some b'" "dbs b' = dbs (log_on E (Some nm) l b)"
    "distinct ks" "set ks = dom (V E b CHANNEL_DB)"
    "sent b' = sent (told E pMsg (''You'' @ [AP] @ ''re now identified.'') b) @ concat (map (granted E b l n) ks)"
proof -
  let ?t = "''You'' @ [AP] @ ''re now identified.''"
  define L where "L = log_on E (Some nm) l b"
  have v: "V E L ACCESS_DB = V E b ACCESS_DB" "V E L CHANNEL_DB = V E b CHANNEL_DB"
    using assms(1,4) by (simp_all add: L_def V_log_on V_log_on_tables)
  obtain ks where ks: "list_db (gdbm E) (dbs L) CHANNEL_DB = Some ks" "distinct ks" "set ks = dom (V E L CHANNEL_DB)"
    using V_list[OF assms(1), of CHANNEL_DB L] by auto
  obtain b2 where b2: "for_each (ident_channel E pMsg (db_get E b ACCESS_DB (Some l) \<noteq> None) l) ks (told E pMsg ?t L) = Some b2"
    "dbs b2 = dbs L" "sent b2 = sent (told E pMsg ?t L) @ concat (map (granted E b l n) ks)"
    using ident_channels[OF assms(1,3), of "told E pMsg ?t L" b l ks] v(1) by auto
  have master: "db_exist E L ACCESS_DB (Some l) = (db_get E b ACCESS_DB (Some l) \<noteq> None)"
    using assms(1) v(1) by simp
  have r: "reply E pMsg ?t [] L = Some (told E pMsg ?t L)" by (rule reply_plain) simp_all
  have "ident_login E pMsg l pw b = Some b2"
    unfolding ident_login_def ident_login_check[OF assms(1)] assms(2) L_def[symmetric] Let_def
    using good ks(1) b2(1) r by (simp add: master del: V_exist V_get)
  moreover have "sent L = sent b"
    using stores_only_log(3)[of b E "Some nm" l] by (auto simp: stores_only_def L_def)
  ultimately show thesis
    using that[of b2 ks] ks v(2) b2 by (simp add: told_sent[OF assms(3)] L_def)
qed

text \<open>C18: \<open>!ident login password\<close> from a netmask that is not logged on: with a wrong password or an unknown login
  the user is told so and nothing changes; with the right one the netmask is logged on with that login, the
  login tables stay inverse, and the bot gives the nick operator status on every channel of its list if
  the login is a master, and else the stored mode on the channels for which a right is stored.\<close>

theorem ident_logs_on:
  assumes "env_ok E" "logins_ok E b" "pNetmask pMsg = Some nm" "pCallingNick pMsg = Some n"
    and "db_get E b NICKTOUSER_DB (Some nm) = None" "SP \<notin> set l" "l \<noteq> []"
    and "getParameters (Some (pRawLine pMsg)) = Some (l @ SP # pw)"
  shows "(db_get E b USER_DB (Some l) \<noteq> Some (crypt E pw) \<longrightarrow>
      ident E pMsg b = Some (told E pMsg ''Invalid password'' b))
    \<and> (db_get E b USER_DB (Some l) = Some (crypt E pw) \<longrightarrow>
      (\<exists>b' ks. ident E pMsg b = Some b' \<and> logins_ok E b' \<and> db_get E b' NICKTOUSER_DB (Some nm) = Some l
        \<and> distinct ks \<and> set ks = dom (V E b CHANNEL_DB)
        \<and> sent b' = sent (told E pMsg (''You'' @ [AP] @ ''re now identified.'') b) @ concat (map (granted E b l n) ks)))"
proof (rule conjI; intro impI)
  note login = ident_parameters[OF assms(1,3,5-8)]
  show "ident E pMsg b = Some (told E pMsg ''Invalid password'' b)" if "db_get E b USER_DB (Some l) \<noteq> Some (crypt E pw)"
    unfolding login by (rule ident_login_wrong[OF assms(1) that])
  assume "db_get E b USER_DB (Some l) = Some (crypt E pw)"
  then have good: "V E b USER_DB (StrToLower l) = Some (crypt E pw)" by simp
  obtain b' ks where b': "ident_login E pMsg l pw b = Some b'" "dbs b' = dbs (log_on E (Some nm) l b)"
    "distinct ks" "set ks = dom (V E b CHANNEL_DB)"
    "sent b' = sent (told E pMsg (''You'' @ [AP] @ ''re now identified.'') b) @ concat (map (granted E b l n) ks)"
    by (rule ident_login_right[OF assms(1,3,4,5) good])
  have free: "V E b NICKTOUSER_DB (StrToLower nm) = None" using assms(5) by simp
  have "logins_ok E b'"
    using log_on_ok[OF assms(1,2) free, of l] logins_ok_cong[of E b' "log_on E (Some nm) l b"] b'(2) by simp
  moreover have "V E b' NICKTOUSER_DB (StrToLower nm) = Some l"
    using assms(1) free b'(2) by (simp add: V_log_on V_log_on_tables)
  ultimately show "\<exists>b' ks. ident E pMsg b = Some b' \<and> logins_ok E b' \<and> db_get E b' NICKTOUSER_DB (Some nm) = Some l
      \<and> distinct ks \<and> set ks = dom (V E b CHANNEL_DB)
      \<and> sent b' = sent (told E pMsg (''You'' @ [AP] @ ''re now identified.'') b) @ concat (map (granted E b l n) ks)"
    using b'(1,3-5) login by (intro exI[of _ b'] exI[of _ ks]) simp
qed

definition ident_request :: MsgItem_t where
  "ident_request = \<lparr>UserLevel = NoneLevel, AnswerMode = PrvMsgMode, pAccessChannel = None,
     pCallingNick = Some ''eve'', pNetmask = Some ''eve!u@h'', pRawLine = '':eve!u@h PRIVMSG ebotula :!ident Bob pw'',
     bInteractiveMode = True, pParameter = Some ''Bob pw''\<rparr>"

lemma ident_logs_on_witness:
  "\<exists>b'. ident exact_env ident_request logged_bot = Some b'
     \<and> db_get exact_env b' NICKTOUSER_DB (Some ''eve!u@h'') = Some ''Bob''"
proof -
  have "pNetmask ident_request = Some ''eve!u@h''" "pCallingNick ident_request = Some ''eve''"
    "db_get exact_env logged_bot NICKTOUSER_DB (Some ''eve!u@h'') = None" "SP \<notin> set ''Bob''" "''Bob'' \<noteq> []"
    "getParameters (Some (pRawLine ident_request)) = Some (''Bob'' @ SP # ''pw'')"
    "db_get exact_env logged_bot USER_DB (Some ''Bob'') = Some (crypt exact_env ''pw'')" by code_simp+
  from ident_logs_on[OF exact_env_ok logged_bot_ok(1) this(1-6), THEN conjunct2, rule_format, OF this(7)]
  show ?thesis by blast
qed

text \<open>\<open>!hello\<close> under a nick that has an account, and under a new one up to the test for the first account.\<close>

abbreviation hello_replies :: "'f env \<Rightarrow> MsgItem_t \<Rightarrow> string \<Rightarrow> 'f bot \<Rightarrow> 'f bot" where
  "hello_replies E pMsg n b \<equiv> told E pMsg (''You'' @ [AP] @ ''re now identified.'') (told E pMsg (''Your account is '' @ n @ ''.'')
      (told E pMsg ''Nice to meet you.'' b))"

lemma hello_known:
  assumes "env_ok E" "pCallingNick pMsg = Some n" "length n < 900" "\<not> LoggedLevel < UserLevel pMsg" "V E b USER_DB (StrToLower n) \<noteq> None"
  shows "hello E pMsg b = Some (told E pMsg (''The account '' @ n @ '' is already exists.'') b)"
proof -
  obtain ks where ks: "list_db (gdbm E) (dbs b) USER_DB = Some ks" "set ks = dom (V E b USER_DB)"
    by (rule V_list[OF assms(1), of USER_DB b]) simp_all
  have "ks \<noteq> []" using ks(2) assms(5) by auto
  have "db_add E USER_DB (Some n) (Some []) b = (False, b)"
    using assms(1,5) V_exist[OF assms(1), of b USER_DB n] by (simp add: db_add_def add_db_def)
  moreover have "reply E pMsg ''The account %s is already exists.'' [n] b
      = Some (told E pMsg (''The account '' @ n @ '' is already exists.'') b)"
    using reply_one[of "''The account ''" "'' is already exists.''" n E pMsg b] assms(3) by simp
  ultimately show ?thesis unfolding hello_def Let_def using assms(2,4) ks(1) \<open>ks \<noteq> []\<close> by simp
qed

lemma hello_new:
  assumes "env_ok E" "pNetmask pMsg = Some nm" "pCallingNick pMsg = Some n" "length n < 900" "\<not> LoggedLevel < UserLevel pMsg"
    and "V E b USER_DB (StrToLower n) = None"
  shows "hello E pMsg b = (let b2 = hello_replies E pMsg n (log_on E (Some nm) n (snd (db_add E USER_DB (Some n) (Some []) b))) in
    if V E b USER_DB = Map.empty then hello_master E pMsg b2 else Some b2)"
proof -
  obtain b1 where b1: "db_add E USER_DB (Some n) (Some []) b = (True, b1)"
    using V_add(2)[OF assms(1), of USER_DB n "[]" b] assms(6) by (cases "db_add E USER_DB (Some n) (Some []) b") simp
  obtain ks where ks: "list_db (gdbm E) (dbs b) USER_DB = Some ks" "set ks = dom (V E b USER_DB)"
    by (rule V_list[OF assms(1), of USER_DB b]) simp_all
  have first: "ks = [] \<longleftrightarrow> V E b USER_DB = Map.empty" using ks(2) by (metis dom_eq_empty_conv set_empty)
  have r: "reply E pMsg ''Nice to meet you.'' [] b' = Some (told E pMsg ''Nice to meet you.'' b')"
    "reply E pMsg ''Your account is %s.'' [n] b' = Some (told E pMsg (''Your account is '' @ n @ ''.'') b')"
    "reply E pMsg (''You'' @ [AP] @ ''re now identified.'') [] b' = Some (told E pMsg (''You'' @ [AP] @ ''re now identified.'') b')" for b'
    using reply_plain[of "''Nice to meet you.''" E pMsg b'] reply_one[of "''Your account is ''" "''.''" n E pMsg b']
      reply_plain[of "''You'' @ [AP] @ ''re now identified.''" E pMsg b'] assms(4) by simp_all
  show ?thesis
    unfolding hello_def Let_def b1 using assms(2,3,5) ks(1) first r by (simp add: b1)
qed

lemma hello_master_sets:
  assumes "env_ok E" "pCallingNick pMsg = Some n" "length n < 900"
  obtains b' where "hello_master E pMsg b = Some b'" "V E b' = (V E b)(ACCESS_DB := (V E b ACCESS_DB)(StrToLower n \<mapsto> ''m''))"
proof -
  have r: "reply E pMsg ''The account %s is now the botmaster.'' [n] b1
      = Some (told E pMsg (''The account '' @ n @ '' is now the botmaster.'') b1)" for b1
    using reply_one[of "''The account ''" "'' is now the botmaster.''" n E pMsg b1] assms(3) by simp
  show thesis
  proof (cases "V E b ACCESS_DB (StrToLower n)")
    case None
    then obtain b1 where b1: "db_add E ACCESS_DB (Some n) (Some ''m'') b = (True, b1)"
      using V_add(2)[OF assms(1), of ACCESS_DB n "''m''" b] by (cases "db_add E ACCESS_DB (Some n) (Some ''m'') b") simp
    then have "V E b1 = V E (snd (db_add E ACCESS_DB (Some n) (Some ''m'') b))" by simp
    then have v: "V E b1 = (V E b)(ACCESS_DB := (V E b ACCESS_DB)(StrToLower n \<mapsto> ''m''))" using assms(1) None by simp
    have "hello_master E pMsg b = Some (told E pMsg (''The account '' @ n @ '' is now the botmaster.'') b1)"
      using assms(1,2) b1 r None by (simp add: hello_master_def)
    from that[OF this] show thesis using v by simp
  next
    case (Some x)
    obtain ok b1 where b1: "db_replace E ACCESS_DB (Some n) (Some ''m'') b = (ok, b1)"
      by (cases "db_replace E ACCESS_DB (Some n) (Some ''m'') b")
    have "ok" using V_replace(2)[OF assms(1), of ACCESS_DB n "''m''" b] Some b1 by simp
    have "V E b1 = V E (snd (db_replace E ACCESS_DB (Some n) (Some ''m'') b))" using b1 by simp
    then have v: "V E b1 = (V E b)(ACCESS_DB := (V E b ACCESS_DB)(StrToLower n \<mapsto> ''m''))" using assms(1) Some by simp
    have "hello_master E pMsg b = Some (told E pMsg (''The account '' @ n @ '' is now the botmaster.'') b1)"
      using assms(1,2) b1 r Some \<open>ok\<close> by (simp add: hello_master_def)
    from that[OF this] show thesis using v by simp
  qed
qed

text \<open>What the databases hold after a \<open>!hello\<close> that created the account \<open>n\<close> for the netmask \<open>nm\<close>.\<close>

definition after_hello :: "'f env \<Rightarrow> string \<Rightarrow> string \<Rightarrow> 'f bot \<Rightarrow> int \<Rightarrow> string \<Rightarrow> string option" where
  "after_hello E n nm b db k =
     (if db = USER_DB \<and> k = StrToLower n then Some (crypt E [])
      else if db = NICKTOUSER_DB \<and> k = StrToLower nm then Some n
      else if db = NICKTOUSER_DB \<and> map_option StrToLower (V E b USERTONICK_DB (StrToLower n)) = Some k then None
      else if db = USERTONICK_DB \<and> k = StrToLower n then Some nm
      else if db = TIMELOG_DB \<and> k = StrToLower n then Some (show_long (now E))
      else if db = ACCESS_DB \<and> k = StrToLower n \<and> V E b USER_DB = Map.empty then Some ''m''
      else V E b db k)"

lemma hello_view:
  assumes "env_ok E" "logins_ok E b" "pNetmask pMsg = Some nm" "pCallingNick pMsg = Some n" "length n < 900"
    and "UserLevel pMsg \<le> LoggedLevel" "db_get E b NICKTOUSER_DB (Some nm) = None" "V E b USER_DB (StrToLower n) = None"
  obtains b' where "hello E pMsg b = Some b'" "V E b' = after_hello E n nm b" "logins_ok E b'"
proof -
  let ?b1 = "snd (db_add E USER_DB (Some n) (Some []) b)"
  define L where "L = log_on E (Some nm) n ?b1"
  define b2 where "b2 = hello_replies E pMsg n L"
  have free: "V E ?b1 NICKTOUSER_DB (StrToLower nm) = None" using assms(1,7) by simp
  have okL: "logins_ok E L"
    unfolding L_def by (rule log_on_ok[OF assms(1) _ free]) (use assms(1,2) logins_ok_cong[of E ?b1 b] in simp)
  have v: "V E b2 = V E L" "V E L = (\<lambda>db k. if db = ACCESS_DB then V E b ACCESS_DB k else after_hello E n nm b db k)"
    using assms(1,8) free
    by (auto simp: b2_def L_def V_log_on V_log_on_tables db_value_def after_hello_def fun_eq_iff split: option.splits)
  have h: "hello E pMsg b = (if V E b USER_DB = Map.empty then hello_master E pMsg b2 else Some b2)"
    using hello_new[OF assms(1,3,4,5) _ assms(8)] assms(6) by (simp add: L_def b2_def)
  show thesis
  proof (cases "V E b USER_DB = Map.empty")
    case False
    have "logins_ok E b2" using okL logins_ok_cong[of E b2 L] v(1) by simp
    moreover have "V E b2 = after_hello E n nm b" using v False by (auto simp: after_hello_def fun_eq_iff)
    ultimately show thesis using that h False by simp
  next
    case first: True
    obtain b3 where b3: "hello_master E pMsg b2 = Some b3" "V E b3 = (V E L)(ACCESS_DB := (V E L ACCESS_DB)(StrToLower n \<mapsto> ''m''))"
      by (rule hello_master_sets[OF assms(1,4,5), of b2]) (use v in simp)
    have "logins_ok E b3" using okL logins_ok_cong[of E b3 L] b3(2) by simp
    moreover have "V E b3 = after_hello E n nm b" unfolding b3(2) v(2) using first by (auto simp: after_hello_def fun_eq_iff)
    ultimately show thesis using that h first b3(1) by simp
  qed
qed

text \<open>C21: \<open>!hello\<close> of a user whose netmask is not logged on creates an account under the nick of the user, with the empty password
  and the time of now, and logs the user on with it, the login tables staying inverse.  If it is the first account of all
  it also becomes a master; apart from this no right is given, and no other entry of any database changes.
  A right that is already stored under the name is not taken away: only without one is the level outside of channels that of a
  mere login, or of a master for the first account.  For a nick that has an account the only effect is an error message.\<close>

theorem hello_creates_account:
  assumes "env_ok E" "logins_ok E b" "pNetmask pMsg = Some nm" "pCallingNick pMsg = Some n" "length n < 900"
    and "UserLevel pMsg \<le> LoggedLevel" "db_get E b NICKTOUSER_DB (Some nm) = None"
  shows "\<exists>b'. hello E pMsg b = Some b' \<and> logins_ok E b'
    \<and> (if db_get E b USER_DB (Some n) = None
       then (\<forall>db k. db_get E b' db (Some k) = after_hello E n nm b db (StrToLower k))
         \<and> (db_get E b ACCESS_DB (Some n) = None \<longrightarrow>
             getUserLevel E b' None (Some nm) = (if V E b USER_DB = Map.empty then MasterLevel else LoggedLevel))
       else b' = told E pMsg (''The account '' @ n @ '' is already exists.'') b)"
proof (cases "db_get E b USER_DB (Some n)")
  case (Some x)
  then show ?thesis using hello_known[OF assms(1,4,5), of b] assms(1,2,6) by simp
next
  case None
  obtain b' where b': "hello E pMsg b = Some b'" "V E b' = after_hello E n nm b" "logins_ok E b'"
    by (rule hello_view[OF assms]) (use None assms(1) in simp)
  have "getUserLevel E b' None (Some nm) = (if V E b USER_DB = Map.empty then MasterLevel else LoggedLevel)"
    if "db_get E b ACCESS_DB (Some n) = None"
    using that assms(1) by (simp add: getUserLevel_def b'(2) after_hello_def)
  then show ?thesis using b' None assms(1) by (intro exI[of _ b']) simp
qed

definition hello_request :: MsgItem_t where
  "hello_request = \<lparr>UserLevel = NoneLevel, AnswerMode = PrvMsgMode, pAccessChannel = None,
     pCallingNick = Some ''al'', pNetmask = Some ''al!u@h'', pRawLine = '':al!u@h PRIVMSG ebotula :!hello'',
     bInteractiveMode = True, pParameter = None\<rparr>"

text \<open>The right of a former account \<open>al\<close> in a channel that was not stored when it was removed makes the new account of this name
  an owner of the channel.\<close>

lemma hello_inherits_right:
  "\<exists>b'. hello exact_env hello_request (snd (db_add exact_env ACCESS_DB (Some ''al#c'') (Some ''+o'') logged_bot)) = Some b'
     \<and> getUserLevel exact_env b' (Some ''#c'') (Some ''al!u@h'') = OwnerLevel"
proof -
  let ?b = "snd (db_add exact_env ACCESS_DB (Some ''al#c'') (Some ''+o'') logged_bot)"
  have l: "logins_ok exact_env ?b" using logins_ok_cong[of exact_env ?b logged_bot] logged_bot_ok(1) exact_env_ok by simp
  have f: "db_get exact_env ?b NICKTOUSER_DB (Some ''al!u@h'') = None" "db_get exact_env ?b USER_DB (Some ''al'') = None"
    "db_get exact_env ?b ACCESS_DB (Some ''al#c'') = Some ''+o''" "StrToLower ''al#c'' \<noteq> StrToLower ''al''" by code_simp+
  have r: "pNetmask hello_request = Some ''al!u@h''" "pCallingNick hello_request = Some ''al''" "length ''al'' < 900"
    "UserLevel hello_request \<le> LoggedLevel" by (simp_all add: hello_request_def less_eq_UserLevel_t_def)
  obtain b' where "hello exact_env hello_request ?b = Some b'" "V exact_env b' = after_hello exact_env ''al'' ''al!u@h'' ?b"
    by (rule hello_view[OF exact_env_ok l r f(1)]) (use f(2) exact_env_ok in simp)
  then show ?thesis using f(3,4) exact_env_ok
    by (intro exI[of _ b']) (simp add: getUserLevel_def after_hello_def cstr del: V_add)
qed

lemma hello_creates_account_witness:
  "\<exists>b'. hello exact_env hello_request empty_bot = Some b' \<and> logins_ok exact_env b'
    \<and> getUserLevel exact_env b' None (Some ''al!u@h'') = MasterLevel"
proof -
  have f: "V exact_env empty_bot db = Map.empty" for db
    by (auto simp: fun_eq_iff view_def exact_env_def empty_bot_def empty_dbs_def get_dbf_def alist_gdbm_def)
  have "pNetmask hello_request = Some ''al!u@h''" "pCallingNick hello_request = Some ''al''" "length ''al'' < 900"
    "UserLevel hello_request \<le> LoggedLevel" by (simp_all add: hello_request_def less_eq_UserLevel_t_def)
  from hello_creates_account[OF exact_env_ok logins_ok_empty this] show ?thesis by (auto simp: f)
qed

end
