(* ===== verification/ChannelCommands.thy ===== *)
theory ChannelCommands
  imports UserCommands
begin

text \<open>
  The commands of \<open>command.c\<close> about channels: adding, removing, joining and leaving a channel, its
  modes, topic and greeting, speaking in it, and inviting.
\<close>

abbreviation no_channel :: string where "no_channel \<equiv> ''This command requires a channel name.''"
abbreviation no_parameter :: string where
  "no_parameter \<equiv> ''Couldn'' @ [AP] @ ''t found regulare parameters.''"
abbreviation not_listed :: string where "not_listed \<equiv> ''The channel %s isn'' @ [AP] @ ''t in the channel list.''"

section \<open>The channel list\<close>

text \<open>\<open>addChannel\<close> and \<open>joinChannel\<close> refuse the channel in which the command was given.\<close>

definition same_channel :: "MsgItem_t \<Rightarrow> string \<Rightarrow> bool" where
  "same_channel pMsg ch = (case getChannel (Some (pRawLine pMsg)) of None \<Rightarrow> False | Some c \<Rightarrow> ch = c)"

definition addChannel :: "'f env \<Rightarrow> MsgItem_t \<Rightarrow> 'f bot \<Rightarrow> 'f bot c_result" where
  "addChannel E pMsg b = (case pAccessChannel pMsg of
       None \<Rightarrow> reply E pMsg no_channel [] b
     | Some ch \<Rightarrow>
        if same_channel pMsg ch then reply E pMsg no_channel [] b
        else if db_exist E b CHANNEL_DB (Some ch)
        then reply E pMsg ''The channel %s is already on the channel list.'' [ch] b
        else do {
          let b = snd (db_add E CHANNEL_DB (Some ch) (Some [TAB, TAB]) b);
          b \<leftarrow> reply E pMsg ''The channel %s is added to the channel list'' [ch] b;
          let b = join E (Some ch) b;
          reply E pMsg ''The bot is joined the channel %s.'' [ch] b })"

definition rmChannel :: "'f env \<Rightarrow> MsgItem_t \<Rightarrow> 'f bot \<Rightarrow> 'f bot c_result" where
  "rmChannel E pMsg b = (case pAccessChannel pMsg of
       None \<Rightarrow> reply E pMsg no_channel [] b
     | Some ch \<Rightarrow> do {
         let (removed, b) = db_del E CHANNEL_DB (Some ch) b;
         b \<leftarrow> (if \<not> removed then reply E pMsg not_listed [ch] b
              else reply E pMsg ''The channel %s is removed from the channel list.'' [ch] b);
         let b = part E (Some ch) b;
         reply E pMsg ''The bot has left the channel %s.'' [ch] b })"

definition joinChannel :: "'f env \<Rightarrow> MsgItem_t \<Rightarrow> 'f bot \<Rightarrow> 'f bot c_result" where
  "joinChannel E pMsg b = (case pAccessChannel pMsg of
       None \<Rightarrow> reply E pMsg no_channel [] b
     | Some ch \<Rightarrow>
        if same_channel pMsg ch then reply E pMsg no_channel [] b
        else reply E pMsg ''The bot is joined the channel %s.'' [ch] (join E (Some ch) b))"

definition partChannel :: "'f env \<Rightarrow> MsgItem_t \<Rightarrow> 'f bot \<Rightarrow> 'f bot c_result" where
  "partChannel E pMsg b = (case pAccessChannel pMsg of
       None \<Rightarrow> reply E pMsg no_channel [] b
     | Some ch \<Rightarrow> reply E pMsg ''The bot has left the channel %s.'' [ch] (part E (Some ch) b))"

definition chanlist_channel :: "'f env \<Rightarrow> MsgItem_t \<Rightarrow> string \<Rightarrow> 'f bot \<Rightarrow> 'f bot c_result" where
  "chanlist_channel E pMsg pChannel b = (case db_get E b CHANNEL_DB (Some pChannel) of
       None \<Rightarrow> Some b
     | Some pChannelSet \<Rightarrow> do {
         sChannelData \<leftarrow> StrToChannelData pChannelSet;
         let pMode = ChannelModeToStr (sModes sChannelData);
         b \<leftarrow> reply E pMsg ''%s %s'' [pChannel, pMode] b;
         b \<leftarrow> (case pTopic sChannelData of None \<Rightarrow> Some b | Some t \<Rightarrow> reply E pMsg ''Topic: %s'' [t] b);
         (case pGreeting sChannelData of None \<Rightarrow> Some b | Some g \<Rightarrow> reply E pMsg ''Greeting: %s'' [g] b) })"

definition chanlist :: "'f env \<Rightarrow> MsgItem_t \<Rightarrow> 'f bot \<Rightarrow> 'f bot c_result" where
  "chanlist E pMsg b = do {
     b \<leftarrow> reply E pMsg ''Channel list:'' [] b;
     pChannelQueue \<leftarrow> list_db (gdbm E) (dbs b) CHANNEL_DB;
     b \<leftarrow> for_each (chanlist_channel E pMsg) pChannelQueue b;
     reply E pMsg ''End of the channel list.'' [] b }"

section \<open>Topic, greeting and modes\<close>

definition setGreeting :: "'f env \<Rightarrow> MsgItem_t \<Rightarrow> 'f bot \<Rightarrow> 'f bot c_result" where
  "setGreeting E pMsg b = (case pAccessChannel pMsg of
       None \<Rightarrow> reply E pMsg no_channel [] b
     | Some ch \<Rightarrow>
        (case db_get E b CHANNEL_DB (Some ch) of
           None \<Rightarrow> reply E pMsg not_listed [ch] b
         | Some pChannelSet \<Rightarrow> do {
             d \<leftarrow> StrToChannelData pChannelSet;
             let d = d\<lparr>pGreeting := getParameters (Some (pRawLine pMsg))\<rparr>;
             let b = snd (db_replace E CHANNEL_DB (Some ch) (Some (ChannelDataToStr d)) b);
             if pGreeting d = None then reply E pMsg ''The greeting of the channel %s is removed'' [ch] b
             else reply E pMsg ''The new greeting of the channel %s is set'' [ch] b }))"

definition setTopic :: "'f env \<Rightarrow> MsgItem_t \<Rightarrow> 'f bot \<Rightarrow> 'f bot c_result" where
  "setTopic E pMsg b = (case pAccessChannel pMsg of
       None \<Rightarrow> reply E pMsg no_channel [] b
     | Some ch \<Rightarrow>
        (case db_get E b CHANNEL_DB (Some ch) of
           None \<Rightarrow> reply E pMsg (''This channel isn'' @ [AP] @ ''t in the channel list.'') [] b
         | Some pChannelSet \<Rightarrow> do {
             d \<leftarrow> StrToChannelData pChannelSet;
             let d = d\<lparr>pTopic := getParameters (Some (pRawLine pMsg))\<rparr>;
             let b = snd (db_replace E CHANNEL_DB (Some ch) (Some (ChannelDataToStr d)) b);
             let b = (case pTopic d of Some t \<Rightarrow> topic E (Some ch) (Some t) b
                      | None \<Rightarrow> topic E (Some ch) (Some []) b);
             if pTopic d = None then reply E pMsg ''The topic of the channel %s is removed'' [ch] b
             else reply E pMsg ''The new topic of the channel %s is set'' [ch] b }))"

text \<open>The greeting itself is the format of the message.\<close>

definition greeting :: "'f env \<Rightarrow> MsgItem_t \<Rightarrow> 'f bot \<Rightarrow> 'f bot c_result" where
  "greeting E pMsg b = (case pCallingNick pMsg of None \<Rightarrow> Some b
     | Some n \<Rightarrow>
        if strcasecmp_eq n (pBotname b) then Some b
        else (case pAccessChannel pMsg of None \<Rightarrow> Some b
         | Some ch \<Rightarrow>
            (case db_get E b CHANNEL_DB (Some ch) of None \<Rightarrow> Some b
             | Some pChannelSet \<Rightarrow>
                (case getGreeting (Some pChannelSet) of None \<Rightarrow> Some b
                 | Some g \<Rightarrow> sendMsg E NoticeMode (Some n) g [] b))))"

definition chanmode :: "'f env \<Rightarrow> MsgItem_t \<Rightarrow> 'f bot \<Rightarrow> 'f bot c_result" where
  "chanmode E pMsg b = (case pAccessChannel pMsg of
       None \<Rightarrow> reply E pMsg no_channel [] b
     | Some ch \<Rightarrow>
        (case getParameters (Some (pRawLine pMsg)) of
           None \<Rightarrow> reply E pMsg no_parameter [] b
         | Some pParameters \<Rightarrow>
            (case db_get E b CHANNEL_DB (Some ch) of
               None \<Rightarrow> reply E pMsg not_listed [ch] b
             | Some pChannelSet \<Rightarrow> do {
                 d \<leftarrow> StrToChannelData pChannelSet;
                 sNewMode \<leftarrow> StrToChannelMode (Some pParameters);
                 let d = d\<lparr>sModes := merge_modes sNewMode (sModes d)\<rparr>;
                 let b = snd (db_replace E CHANNEL_DB (Some ch) (Some (ChannelDataToStr d)) b);
                 mode E (Some ch) (Some (ChannelModeToStr sNewMode)) None b })))"

section \<open>Speaking and inviting\<close>

definition say :: "'f env \<Rightarrow> MsgItem_t \<Rightarrow> 'f bot \<Rightarrow> 'f bot c_result" where
  "say E pMsg b = (case pAccessChannel pMsg of
       None \<Rightarrow> reply E pMsg no_channel [] b
     | Some ch \<Rightarrow>
        (case getParameters (Some (pRawLine pMsg)) of
           None \<Rightarrow> reply E pMsg no_parameter [] b
         | Some p \<Rightarrow> Some (privmsg E (Some ch) (Some p) b)))"

definition allsay :: "'f env \<Rightarrow> MsgItem_t \<Rightarrow> 'f bot \<Rightarrow> 'f bot c_result" where
  "allsay E pMsg b = (case getParameters (Some (pRawLine pMsg)) of
       None \<Rightarrow> reply E pMsg no_parameter [] b
     | Some p \<Rightarrow> do {
         pChannelQueue \<leftarrow> list_db (gdbm E) (dbs b) CHANNEL_DB;
         for_each (\<lambda>pChannel b. Some (privmsg E (Some pChannel) (Some p) b)) pChannelQueue b })"

definition inviteuser :: "'f env \<Rightarrow> MsgItem_t \<Rightarrow> 'f bot \<Rightarrow> 'f bot c_result" where
  "inviteuser E pMsg b = (case getArgument (Some (pRawLine pMsg)) of
       None \<Rightarrow> reply E pMsg no_parameter [] b
     | Some p \<Rightarrow> do {
         let pRest = getRest (Some p) None;
         pInviteNick \<leftarrow> (case getFirstPart pRest of Some n \<Rightarrow> Some n | None \<Rightarrow> pCallingNick pMsg);
         if strcasecmp_eq pInviteNick (pBotname b)
         then reply E pMsg (''Can'' @ [AP] @ ''t invite myself.'') [] b
         else (case pAccessChannel pMsg of
             Some ch \<Rightarrow> reply E pMsg ''The bot has invite the user %s to the channel %s.'' [pInviteNick, ch]
                 (invite E (Some ch) (Some pInviteNick) b)
           | None \<Rightarrow> reply E pMsg ''The bot need a channel parameter for inviting of the user %s''
                 [pInviteNick] b) })"

section \<open>Properties\<close>

text \<open>C29: \<open>!topic\<close> on a listed channel stores the record with the new topic, or without a topic when no text is given,
  and every other field, every other channel and every other database as before; the stored text decodes
  to that record; and the bot sets the topic on the server before it reports the change.\<close>

theorem topic_stored:
  assumes "env_ok E" "pAccessChannel pMsg = Some ch" "length ch < 900" "pCallingNick pMsg = Some n"
    and "db_get E b CHANNEL_DB (Some ch) = Some (ChannelDataToStr d)" "wf_data d"
    and "t = getParameters (Some (pRawLine pMsg))"
  shows "\<exists>b'. setTopic E pMsg b = Some b'
    \<and> (\<forall>db k. db_get E b' db (Some k) = (if db = CHANNEL_DB \<and> StrToLower k = StrToLower ch
         then Some (ChannelDataToStr (d\<lparr>pTopic := t\<rparr>)) else db_get E b db (Some k)))
    \<and> StrToChannelData (ChannelDataToStr (d\<lparr>pTopic := t\<rparr>)) = Some (d\<lparr>pTopic := t\<rparr>)
    \<and> (\<exists>answer. sent b' = sent b @ [''TOPIC '' @ ch @ '' :'' @ (case t of None \<Rightarrow> [] | Some s \<Rightarrow> s) @ CRLF, answer])"
proof -
  let ?d = "d\<lparr>pTopic := t\<rparr>" and ?s = "case t of None \<Rightarrow> [] | Some s \<Rightarrow> s"
  have wf: "wf_data ?d" using assms(6) wf_parameters[OF assms(7)[symmetric]] by (simp add: wf_data_def)
  define b1 where "b1 = snd (db_replace E CHANNEL_DB (Some ch) (Some (ChannelDataToStr ?d)) b)"
  have v: "V E b1 = (V E b)(CHANNEL_DB := (V E b CHANNEL_DB)(StrToLower ch \<mapsto> ChannelDataToStr ?d))"
    using assms(1,5) by (simp add: b1_def)
  have sent1: "sent b1 = sent b"
    unfolding b1_def by (rule stores_only_sent[OF stores_only_db(2)])
  let ?r = "if t = None then ''The topic of the channel '' @ ch @ '' is removed'' else ''The new topic of the channel '' @ ch @ '' is set''"
  have r: "reply E pMsg ''The topic of the channel %s is removed'' [ch] b' = Some (told E pMsg (''The topic of the channel '' @ ch @ '' is removed'') b')"
    "reply E pMsg ''The new topic of the channel %s is set'' [ch] b' = Some (told E pMsg (''The new topic of the channel '' @ ch @ '' is set'') b')" for b'
    using reply_one[of "''The topic of the channel ''" "'' is removed''" ch E pMsg b']
      reply_one[of "''The new topic of the channel ''" "'' is set''" ch E pMsg b'] assms(3) by simp_all
  have dec: "StrToChannelData (ChannelDataToStr d) = Some d" by (rule channel_records.dec_enc[OF assms(6)])
  let ?b = "told E pMsg ?r (SendLine E (''TOPIC '' @ ch @ '' :'' @ ?s @ CRLF) b1)"
  have "setTopic E pMsg b = Some ?b"
    unfolding setTopic_def assms(2,5) option.case Let_def
    using dec r by (cases t) (simp_all add: assms(7)[symmetric] b1_def)
  moreover have "\<forall>db k. db_get E ?b db (Some k) = (if db = CHANNEL_DB \<and> StrToLower k = StrToLower ch
         then Some (ChannelDataToStr ?d) else db_get E b db (Some k))"
    using v by simp
  moreover have "\<exists>answer. sent ?b = sent b @ [''TOPIC '' @ ch @ '' :'' @ ?s @ CRLF, answer]"
    using sent1 by (simp add: told_sent[OF assms(4)])
  ultimately show ?thesis using channel_records.dec_enc[OF wf] by blast
qed

definition blank_record :: ChannelData_t where
  "blank_record = \<lparr>sModes = \<lparr>pModeStr = blank_modes, pKeyword = None, pLimit = None\<rparr>, pTopic = None, pGreeting = None\<rparr>"

lemma blank_record: "ChannelDataToStr blank_record = [TAB, TAB]" "wf_data blank_record"
  by (code_simp, simp add: wf_data_def blank_record_def wf_blank field_ok_def)

definition owner_request :: "string \<Rightarrow> MsgItem_t" where
  "owner_request c = \<lparr>UserLevel = OwnerLevel, AnswerMode = NoticeMode, pAccessChannel = Some ''#c'',
     pCallingNick = Some ''bob'', pNetmask = Some ''bob!u@h'', pRawLine = '':bob!u@h PRIVMSG #c :!'' @ c,
     bInteractiveMode = True, pParameter = None\<rparr>"

lemma topic_stored_witness:
  "\<exists>b'. setTopic exact_env (owner_request ''topic hello all'') logged_bot = Some b'
    \<and> StrToChannelData (ChannelDataToStr (blank_record\<lparr>pTopic := Some ''hello all''\<rparr>)) = Some (blank_record\<lparr>pTopic := Some ''hello all''\<rparr>)"
proof -
  have "pAccessChannel (owner_request ''topic hello all'') = Some ''#c''" "length ''#c'' < 900"
    "pCallingNick (owner_request ''topic hello all'') = Some ''bob''"
    "db_get exact_env logged_bot CHANNEL_DB (Some ''#c'') = Some (ChannelDataToStr blank_record)"
    "Some ''hello all'' = getParameters (Some (pRawLine (owner_request ''topic hello all'')))" by code_simp+
  from topic_stored[OF exact_env_ok this(1-4) blank_record(2) this(5)] show ?thesis by blast
qed

text \<open>C30: \<open>!chanmode\<close> in a stored channel is undefined behaviour exactly if its mode word, whatever its sign, has more letters \<open>k\<close> and
  \<open>l\<close> than it has arguments, of which only two count.  Otherwise it stores the record with
  the merged modes, which decodes again, leaves every other entry of the databases as it was and sends the mode line.\<close>

theorem chanmode_stored:
  assumes "env_ok E" "pAccessChannel pMsg = Some ch" "getParameters (Some (pRawLine pMsg)) = Some p"
    and "db_get E b CHANNEL_DB (Some ch) = Some (ChannelDataToStr d)" "wf_data d"
  shows "(chanmode E pMsg b = None \<longleftrightarrow>
       min 2 (length (filter (\<lambda>c. c = SP) p)) < length (filter (\<lambda>c. c = CHR ''k'' \<or> c = CHR ''l'') (takeWhile (\<lambda>c. c \<noteq> SP) p)))
    \<and> (case StrToChannelMode (Some p) of None \<Rightarrow> chanmode E pMsg b = None
    | Some new \<Rightarrow> (\<exists>b'. chanmode E pMsg b = Some b'
      \<and> (\<forall>db k. db_get E b' db (Some k) = (if db = CHANNEL_DB \<and> StrToLower k = StrToLower ch
           then Some (ChannelDataToStr (d\<lparr>sModes := merge_modes new (sModes d)\<rparr>)) else db_get E b db (Some k)))
      \<and> StrToChannelData (ChannelDataToStr (d\<lparr>sModes := merge_modes new (sModes d)\<rparr>))
          = Some (d\<lparr>sModes := merge_modes new (sModes d)\<rparr>)
      \<and> sent b' = sent b @ [''MODE '' @ ch @ '' '' @ ChannelModeToStr new @ '' '' @ CRLF]))"
proof (cases "StrToChannelMode (Some p)")
  case None
  then show ?thesis using assms channel_records.dec_enc[OF assms(5)] StrToChannelMode_undefined[of p, unfolded arguments_given_def letters_with_argument_def] by (simp add: chanmode_def)
next
  case (Some new)
  let ?d = "d\<lparr>sModes := merge_modes new (sModes d)\<rparr>"
  have "wf_mode new" using StrToChannelMode_wf[OF _ Some] getParameters_trimmed[OF assms(3)] by blast
  then have wf: "wf_data ?d" using assms(5) by (simp add: wf_data_def wf_merge_modes)
  define b1 where "b1 = snd (db_replace E CHANNEL_DB (Some ch) (Some (ChannelDataToStr ?d)) b)"
  have v: "V E b1 = (V E b)(CHANNEL_DB := (V E b CHANNEL_DB)(StrToLower ch \<mapsto> ChannelDataToStr ?d))"
    using assms(1,4) by (simp add: b1_def)
  have sent1: "sent b1 = sent b" unfolding b1_def by (rule stores_only_sent[OF stores_only_db(2)])
  have "chanmode E pMsg b = Some (SendLine E (''MODE '' @ ch @ '' '' @ ChannelModeToStr new @ '' '' @ CRLF) b1)"
    using assms Some channel_records.dec_enc[OF assms(5)] by (simp add: chanmode_def b1_def Let_def)
  moreover have "\<forall>db k. V E b1 db (StrToLower k) = (if db = CHANNEL_DB \<and> StrToLower k = StrToLower ch
      then Some (ChannelDataToStr ?d) else V E b db (StrToLower k))"
    using v by simp
  ultimately show ?thesis using Some sent1 channel_records.dec_enc[OF wf] StrToChannelMode_undefined[of p, unfolded arguments_given_def letters_with_argument_def] by simp
qed

lemma chanmode_stored_witness:
  "\<exists>b'. chanmode exact_env (owner_request ''chanmode +tn'') logged_bot = Some b'
    \<and> sent b' = sent logged_bot @ [''MODE #c +tn '' @ CRLF]"
proof -
  have "pAccessChannel (owner_request ''chanmode +tn'') = Some ''#c''"
    "getParameters (Some (pRawLine (owner_request ''chanmode +tn''))) = Some ''+tn''"
    "db_get exact_env logged_bot CHANNEL_DB (Some ''#c'') = Some (ChannelDataToStr blank_record)"
    "StrToChannelMode (Some ''+tn'') = Some \<lparr>pModeStr = ''+  tn       '', pKeyword = None, pLimit = None\<rparr>"
    "ChannelModeToStr \<lparr>pModeStr = ''+  tn       '', pKeyword = None, pLimit = None\<rparr> = ''+tn''" by code_simp+
  from chanmode_stored[OF exact_env_ok this(1-3) blank_record(2)] this(4,5) show ?thesis by auto
qed

end
