(* ===== verification/OwnerCommands.thy ===== *)
theory OwnerCommands
  imports ChannelCommands
begin

text \<open>
  The commands of \<open>command.c\<close> about users: banning and kicking, account modes and lists, and the
  commands of the bot masters that end the bot, rename it or remove accounts.
\<close>

section \<open>Banning and kicking\<close>

text \<open>\<open>banuser\<close> and \<open>kickuser\<close> only register a callback and ask for the target's netmask.\<close>

definition banuser :: "'f env \<Rightarrow> MsgItem_t \<Rightarrow> 'f bot \<Rightarrow> 'f bot c_result" where
  "banuser E pMsg b = (case pAccessChannel pMsg of
       None \<Rightarrow> reply E pMsg no_channel [] b
     | Some ch \<Rightarrow>
        (case getFirstPart (getParameters (Some (pRawLine pMsg))) of
           None \<Rightarrow> reply E pMsg no_parameter [] b
         | Some pToBanNick \<Rightarrow>
            if strcasecmp_eq pToBanNick (pBotname b)
            then reply E pMsg (''Can'' @ [AP] @ ''t ban myself'') [] b
            else do {
              pLogin \<leftarrow> db_get E b NICKTOUSER_DB (pNetmask pMsg);
              let b = add_callback pToBanNick SetBanCb_F (pLogin @ SP # ch) b;
              whois E (Some pToBanNick) b }))"

definition debanuser :: "'f env \<Rightarrow> MsgItem_t \<Rightarrow> 'f bot \<Rightarrow> 'f bot c_result" where
  "debanuser E pMsg b = (case pAccessChannel pMsg of
       None \<Rightarrow> reply E pMsg no_channel [] b
     | Some ch \<Rightarrow>
        (case getFirstPart (getParameters (Some (pRawLine pMsg))) of
           None \<Rightarrow> reply E pMsg no_parameter [] b
         | Some pBanmask \<Rightarrow> do {
             b \<leftarrow> deban E (Some ch) (Some pBanmask) b;
             reply E pMsg ''The ban %s is removed by the bot from the channel %s'' [pBanmask, ch] b }))"

definition kickuser :: "'f env \<Rightarrow> MsgItem_t \<Rightarrow> 'f bot \<Rightarrow> 'f bot c_result" where
  "kickuser E pMsg b = (case pAccessChannel pMsg of
       None \<Rightarrow> reply E pMsg no_channel [] b
     | Some ch \<Rightarrow>
        (case getParameters (Some (pRawLine pMsg)) of
           None \<Rightarrow> reply E pMsg no_parameter [] b
         | Some p \<Rightarrow>
            (let pKicknick = the (getFirstPart (Some p)); pReason = getRest (Some p) None in
             if strcasecmp_eq pKicknick (pBotname b)
             then reply E pMsg (''Can'' @ [AP] @ ''t kick myself'') [] b
             else (let pReason = (case pReason of None \<Rightarrow> ''You are kicked from the bot.'' | Some r \<Rightarrow> r) in
               case db_get E b NICKTOUSER_DB (pNetmask pMsg) of
                 None \<Rightarrow> reply E pMsg (''Couldn'' @ [AP] @ ''t found you account.'') [] b
               | Some pLogin \<Rightarrow>
                   whois E (Some pKicknick)
                     (add_callback pKicknick KickCb_F (pLogin @ SP # ch @ SP # pReason) b)))))"

section \<open>Account modes\<close>

text \<open>The second half of \<open>accountmode\<close>: the rights in the database.\<close>

definition accountmode_rights :: "'f env \<Rightarrow> string \<Rightarrow> string \<Rightarrow> string option \<Rightarrow> char \<Rightarrow> char \<Rightarrow> 'f bot
    \<Rightarrow> 'f bot c_result" where
  "accountmode_rights E ch pLogin oldmod m0 m1 b = do {
     old1 \<leftarrow> (case oldmod of None \<Rightarrow> Some None | Some m \<Rightarrow> map_option Some (char_at m 1));
     let b = (if m1 \<noteq> CHR ''m'' \<and> old1 = Some (CHR ''m'')
              then snd (db_del E ACCESS_DB (Some pLogin) b) else b);
     b \<leftarrow> (if m1 = CHR ''m'' \<and> old1 \<noteq> None \<and> old1 \<noteq> Some (CHR ''m'')
          then rmAccessRights E pLogin b else Some b);
     let pKey = (if m1 = CHR ''m'' then pLogin else pLogin @ ch);
     Some (if m0 = CHR ''+'' then
             (let (added, b) = db_add E ACCESS_DB (Some pKey) (Some [m0, m1]) b in
              if added then b else snd (db_replace E ACCESS_DB (Some pKey) (Some [m0, m1]) b))
           else snd (db_del E ACCESS_DB (Some pKey) b)) }"

text \<open>The modes of the user's nick on the channel.\<close>

definition accountmode_nick :: "'f env \<Rightarrow> string \<Rightarrow> string \<Rightarrow> string option \<Rightarrow> char \<Rightarrow> char \<Rightarrow> 'f bot
    \<Rightarrow> 'f bot c_result" where
  "accountmode_nick E ch pLogin oldmod m0 m1 b =
     (case getNickname (db_get E b USERTONICK_DB (Some pLogin)) of
        None \<Rightarrow> Some b
      | Some usernick \<Rightarrow>
          if m0 = CHR ''-'' then mode E (Some ch) (Some [m0, m1]) (Some usernick) b
          else do {
            b \<leftarrow> (case oldmod of None \<Rightarrow> Some b
                | Some m \<Rightarrow>
                    if strchr m (CHR ''v'') \<noteq> None then mode E (Some ch) (Some ''-v'') (Some usernick) b
                    else if m \<noteq> [] then mode E (Some ch) (Some ''-o'') (Some usernick) b
                    else Some b);
            if m1 = CHR ''v'' then mode E (Some ch) (Some ''+v'') (Some usernick) b
            else mode E (Some ch) (Some ''+o'') (Some usernick) b })"

text \<open>
  The checks of \<open>accountmode\<close>.  A user who is not a master and asks for \<open>m\<close> gets a message, and
  then \<open>mod[1]\<close> is read uninitialised.  An empty second character ends the message it is
  inserted in.
\<close>

definition accountmode :: "'f env \<Rightarrow> MsgItem_t \<Rightarrow> 'f bot \<Rightarrow> 'f bot c_result" where
  "accountmode E pMsg b = (case pAccessChannel pMsg of
     None \<Rightarrow> reply E pMsg no_channel [] b
   | Some ch \<Rightarrow> (case db_get E b NICKTOUSER_DB (pNetmask pMsg) of
     None \<Rightarrow> Some b
   | Some accesslogin \<Rightarrow>
     if \<not> db_exist E b CHANNEL_DB (Some ch)
     then reply E pMsg (''This channel isn'' @ [AP] @ ''t in the channel list.'') [] b
     else (case getParameters (Some (pRawLine pMsg)) of
     None \<Rightarrow> reply E pMsg no_parameter [] b
   | Some p \<Rightarrow> (case strchr p SP of
     None \<Rightarrow> reply E pMsg no_parameter [] b
   | Some rest \<Rightarrow>
     let pPos = drop 1 rest; pLogin = takeWhile (\<lambda>c. c \<noteq> SP) p in
     if \<not> db_exist E b USER_DB (Some pLogin)
     then reply E pMsg (''Couldn'' @ [AP] @ ''t find the account %s.'') [pLogin] b
     else if pLogin = accesslogin
     then reply E pMsg (''You can'' @ [AP] @ ''t modify yourself'') [] b
     else
     let right = db_get E b ACCESS_DB (Some (pLogin @ ch));
         master = db_get E b ACCESS_DB (Some pLogin);
         oldmod = (if right = None then master else right) in
     if right = None \<and> (case master of None \<Rightarrow> False | Some m \<Rightarrow> strchr m (CHR ''m'') \<noteq> None)
        \<and> UserLevel pMsg \<noteq> MasterLevel
     then reply E pMsg (''You'' @ [AP] @ ''re not a bot master.'') [] b
     else do {
       m0 \<leftarrow> char_at pPos 0;
       if m0 \<noteq> CHR ''+'' \<and> m0 \<noteq> CHR ''-'' then Some b else do {
       m1 \<leftarrow> char_at pPos 1;
       if m1 = CHR ''v'' \<or> m1 = CHR ''o'' \<or> m1 = CHR ''m'' \<and> UserLevel pMsg = MasterLevel then do {
         b \<leftarrow> accountmode_rights E ch pLogin oldmod m0 m1 b;
         b \<leftarrow> accountmode_nick E ch pLogin oldmod m0 m1 b;
         reply E pMsg ''The user mode of the account %s is changed.'' [pLogin] b }
       else if m1 = CHR ''m'' then None
       else if m1 = CHR 0x00 then reply E pMsg ''The mode '' [] b
       else reply E pMsg ''The mode %c is invalid.'' [[m1]] b } }))))"

section \<open>Account lists\<close>

text \<open>\<open>iLoginTab\<close>, and the login with the spaces that fill the column.\<close>

definition login_tab :: "string \<Rightarrow> nat" where
  "login_tab l = (let iLoginLen = length l + 1 in if iLoginLen < ACCOUNT_LIST_TAB then ACCOUNT_LIST_TAB else iLoginLen)"

definition login_column :: "string \<Rightarrow> string" where
  "login_column l = l @ replicate (login_tab l - (length l + 1)) SP"

definition online_text :: "'f env \<Rightarrow> string \<Rightarrow> string \<Rightarrow> string \<Rightarrow> 'f bot \<Rightarrow> string" where
  "online_text E on off l b = (if db_exist E b USERTONICK_DB (Some l) then on else off)"

text \<open>One channel of one account in the list for a master, and one account in the list of a channel.\<close>

definition accountlist_channel :: "'f env \<Rightarrow> MsgItem_t \<Rightarrow> string \<Rightarrow> string \<Rightarrow> 'f bot \<Rightarrow> 'f bot c_result" where
  "accountlist_channel E pMsg l pChannel b = do {
     role \<leftarrow> (case db_get E b ACCESS_DB (Some (l @ pChannel)) of
         None \<Rightarrow> Some []
       | Some m \<Rightarrow> do {
           m1 \<leftarrow> char_at m 1;
           Some (if m1 = CHR ''o'' then '' Owner of '' @ pChannel
                 else if m1 = CHR ''v'' then '' Friend of '' @ pChannel else []) });
     line \<leftarrow> sprintf E (login_tab l + (length pChannel + 1) + 26)
       (login_column l @ role @ ''   Status: '' @ online_text E ''ON '' ''OFF'' l b);
     if role \<noteq> [] then reply E pMsg line [] b else Some b }"

definition accountlist_account :: "'f env \<Rightarrow> MsgItem_t \<Rightarrow> string list \<Rightarrow> string \<Rightarrow> 'f bot \<Rightarrow> 'f bot c_result" where
  "accountlist_account E pMsg channels l b =
     (if db_exist E b ACCESS_DB (Some l) then do {
        line \<leftarrow> sprintf E (login_tab l + 22)
          (login_column l @ '' Master   Status:'' @ online_text E '' ON '' '' OFF'' l b);
        reply E pMsg line [] b }
      else for_each (accountlist_channel E pMsg l) channels b)"

definition accountlist_owner :: "'f env \<Rightarrow> MsgItem_t \<Rightarrow> string \<Rightarrow> string \<Rightarrow> 'f bot \<Rightarrow> 'f bot c_result" where
  "accountlist_owner E pMsg ch l b = (case db_get E b ACCESS_DB (Some (l @ ch)) of
       None \<Rightarrow> Some b
     | Some m \<Rightarrow> do {
         m1 \<leftarrow> char_at m 1;
         let role = (if m1 = CHR ''o'' then ''Owner '' else if m1 = CHR ''v'' then ''Friend'' else []);
         line \<leftarrow> sprintf E (login_tab l + 30)
           (login_column l @ role @ ''   Status: '' @ online_text E ''ON '' ''OFF'' l b);
         if role \<noteq> [] then reply E pMsg line [] b else Some b })"

text \<open>The iterator of the channel queue goes from the newest element to the oldest.\<close>

definition accountlist :: "'f env \<Rightarrow> MsgItem_t \<Rightarrow> 'f bot \<Rightarrow> 'f bot c_result" where
  "accountlist E pMsg b = do {
     let pArgv = getArgument (Some (pRawLine pMsg));
     pLoginQueue \<leftarrow> list_db (gdbm E) (dbs b) USER_DB;
     if UserLevel pMsg = MasterLevel \<and> pArgv = None then do {
       b \<leftarrow> reply E pMsg ''Account list:'' [] b;
       pChannelQueue \<leftarrow> list_db (gdbm E) (dbs b) CHANNEL_DB;
       b \<leftarrow> for_each (accountlist_account E pMsg (rev pChannelQueue)) pLoginQueue b;
       reply E pMsg ''End of the account list.'' [] b }
     else (case pAccessChannel pMsg of
         None \<Rightarrow> reply E pMsg no_channel [] b
       | Some ch \<Rightarrow> do {
           b \<leftarrow> reply E pMsg ''Account list:'' [] b;
           b \<leftarrow> for_each (accountlist_owner E pMsg ch) pLoginQueue b;
           reply E pMsg ''End of the account list.'' [] b }) }"

section \<open>Commands of the masters\<close>

text \<open>\<open>rmaccount\<close> looks for the nick of the account after it has been logged off.\<close>

definition rmaccount :: "'f env \<Rightarrow> MsgItem_t \<Rightarrow> 'f bot \<Rightarrow> 'f bot c_result" where
  "rmaccount E pMsg b = (case getParameters (Some (pRawLine pMsg)) of
       None \<Rightarrow> reply E pMsg no_parameter [] b
     | Some p \<Rightarrow>
        (let pLogin = strtok_cut SP p in
         if db_exist E b USER_DB (Some pLogin) then do {
           b \<leftarrow> rmAccount E pLogin b;
           b \<leftarrow> (case getNickname (db_get E b USERTONICK_DB (Some pLogin)) of
               None \<Rightarrow> Some b
             | Some rmnick \<Rightarrow> do {
                 pChannelQueue \<leftarrow> list_db (gdbm E) (dbs b) CHANNEL_DB;
                 for_each (\<lambda>pChannel b. do {
                     b \<leftarrow> mode E (Some pChannel) (Some ''-o'') (Some rmnick) b;
                     mode E (Some pChannel) (Some ''-v'') (Some rmnick) b }) pChannelQueue b });
           reply E pMsg ''The account is removed'' [] b }
         else reply E pMsg (''Couldn'' @ [AP] @ ''t fount the account %s.'') [pLogin] b))"

definition setNick :: "'f env \<Rightarrow> MsgItem_t \<Rightarrow> 'f bot \<Rightarrow> 'f bot c_result" where
  "setNick E pMsg b = (case getParameters (Some (pRawLine pMsg)) of
       None \<Rightarrow> reply E pMsg no_parameter [] b
     | Some p \<Rightarrow>
        if \<not> NickStringCheck (Some p) then reply E pMsg ''The Nickname %s is invalid.'' [p] b
        else do {
          let b = nick E (Some p) b;
          b \<leftarrow> reply E pMsg ''The bot tries to change the nickname to %s.'' [p] b;
          Some (b\<lparr>pBotname := p\<rparr>) })"

definition die :: "'f env \<Rightarrow> MsgItem_t \<Rightarrow> 'f bot \<Rightarrow> 'f bot c_result" where
  "die E pMsg b = do { b \<leftarrow> reply E pMsg ''The bot is going down.'' [] b; Some (stopParser E b) }"

definition restart :: "'f env \<Rightarrow> MsgItem_t \<Rightarrow> 'f bot \<Rightarrow> 'f bot c_result" where
  "restart E pMsg b = do {
     b \<leftarrow> reply E pMsg ''The bot is going to restart.'' [] b;
     Some (stopParser E (b\<lparr>again := True\<rparr>)) }"

section \<open>Properties\<close>

lemma accountmode_nick_total:
  "env_ok E \<Longrightarrow> \<exists>b'. accountmode_nick E ch l old m0 m1 b = Some b' \<and> dbs b' = dbs b"
  by (auto simp: accountmode_nick_def split: option.splits)

lemma set_right_view:
  assumes "env_ok E"
  shows "V E (let (added, b) = db_add E ACCESS_DB (Some k) (Some v) b in
      if added then b else snd (db_replace E ACCESS_DB (Some k) (Some v) b))
    = (V E b)(ACCESS_DB := (V E b ACCESS_DB)(StrToLower k \<mapsto> v))"
proof -
  obtain r b1 where r: "db_add E ACCESS_DB (Some k) (Some v) b = (r, b1)" by (cases "db_add E ACCESS_DB (Some k) (Some v) b")
  then show ?thesis
    using V_add[OF assms, of ACCESS_DB k v b] V_replace[OF assms, of ACCESS_DB k v b1] by auto
qed

lemma accountmode_rights_view:
  assumes "env_ok E" "m1 \<noteq> CHR ''m''" "old = None \<or> (\<exists>x y r. old = Some (x # y # r) \<and> y \<noteq> CHR ''m'')"
  obtains b1 where "accountmode_rights E ch l old m0 m1 b = Some b1"
    "V E b1 = (V E b)(ACCESS_DB := (V E b ACCESS_DB)(StrToLower (l @ ch) := if m0 = CHR ''+'' then Some [m0, m1] else None))"
proof -
  have "accountmode_rights E ch l old m0 m1 b = Some (if m0 = CHR ''+'' then
      (let (added, b) = db_add E ACCESS_DB (Some (l @ ch)) (Some [m0, m1]) b in
         if added then b else snd (db_replace E ACCESS_DB (Some (l @ ch)) (Some [m0, m1]) b))
      else snd (db_del E ACCESS_DB (Some (l @ ch)) b))" (is "_ = Some ?b")
    using assms(2,3) by (auto simp: accountmode_rights_def char_at_def Let_def)
  moreover have "V E ?b = (V E b)(ACCESS_DB := (V E b ACCESS_DB)(StrToLower (l @ ch) := if m0 = CHR ''+'' then Some [m0, m1] else None))"
    using set_right_view[OF assms(1), of "l @ ch" "[m0, m1]" b] assms(1) by (cases "m0 = CHR ''+''") simp_all
  ultimately show thesis by (rule that)
qed

text \<open>The request of an owner up to the two refusals, and the change of a right that is not refused.\<close>

lemma accountmode_refused:
  assumes "env_ok E" "pAccessChannel pMsg = Some ch" "db_get E b NICKTOUSER_DB (pNetmask pMsg) = Some me"
    and "db_exist E b CHANNEL_DB (Some ch)" "db_exist E b USER_DB (Some l)"
    and "getParameters (Some (pRawLine pMsg)) = Some (l @ SP # rest)" "SP \<notin> set l" "UserLevel pMsg \<noteq> MasterLevel"
  shows "l = me \<Longrightarrow> accountmode E pMsg b = Some (told E pMsg (''You can'' @ [AP] @ ''t modify yourself'') b)"
    and "l \<noteq> me \<Longrightarrow> db_get E b ACCESS_DB (Some (l @ ch)) = None \<Longrightarrow> db_get E b ACCESS_DB (Some l) = Some m \<Longrightarrow> CHR ''m'' \<in> set m \<Longrightarrow>
      accountmode E pMsg b = Some (told E pMsg (''You'' @ [AP] @ ''re not a bot master.'') b)"
proof -
  have p: "strchr (l @ SP # rest) SP = Some (SP # rest)" "takeWhile (\<lambda>c. c \<noteq> SP) (l @ SP # rest) = l"
    using assms(7) by (simp_all add: strchr_append takeWhile_upto)
  have r: "reply E pMsg (''You can'' @ [AP] @ ''t modify yourself'') [] b = Some (told E pMsg (''You can'' @ [AP] @ ''t modify yourself'') b)"
    "reply E pMsg (''You'' @ [AP] @ ''re not a bot master.'') [] b = Some (told E pMsg (''You'' @ [AP] @ ''re not a bot master.'') b)"
    by (rule reply_plain; simp)+
  note unf = accountmode_def assms(2,3,6) option.case p Let_def
  show "accountmode E pMsg b = Some (told E pMsg (''You can'' @ [AP] @ ''t modify yourself'') b)" if "l = me"
    unfolding unf using assms(4,5) that r(1) by simp
  show "accountmode E pMsg b = Some (told E pMsg (''You'' @ [AP] @ ''re not a bot master.'') b)"
    if "l \<noteq> me" "db_get E b ACCESS_DB (Some (l @ ch)) = None" "db_get E b ACCESS_DB (Some l) = Some m" "CHR ''m'' \<in> set m"
    unfolding unf using assms(4,5,8) that r(2) by (simp add: strchr_None del: V_get)
qed

lemma accountmode_sets:
  assumes "env_ok E" "pAccessChannel pMsg = Some ch" "db_get E b NICKTOUSER_DB (pNetmask pMsg) = Some me" "l \<noteq> me"
    and ex: "db_exist E b CHANNEL_DB (Some ch)" "db_exist E b USER_DB (Some l)"
    and "getParameters (Some (pRawLine pMsg)) = Some (l @ SP # m0 # m1 # rest)" "SP \<notin> set l" "length l < 900"
    and "m0 \<in> {CHR ''+'', CHR ''-''}" "m1 \<in> {CHR ''o'', CHR ''v''}"
    and old: "right = db_get E b ACCESS_DB (Some (l @ ch))" "master = db_get E b ACCESS_DB (Some l)"
      "right = None \<and> master = None \<or> (\<exists>x y r. right = Some (x # y # r) \<and> y \<noteq> CHR ''m'')"
  obtains b' where "accountmode E pMsg b = Some b'"
    "V E b' = (V E b)(ACCESS_DB := (V E b ACCESS_DB)(StrToLower (l @ ch) := if m0 = CHR ''+'' then Some [m0, m1] else None))"
proof -
  let ?old = "if right = None then master else right"
  have p: "strchr (l @ SP # m0 # m1 # rest) SP = Some (SP # m0 # m1 # rest)"
    "takeWhile (\<lambda>c. c \<noteq> SP) (l @ SP # m0 # m1 # rest) = l" "drop 1 (SP # m0 # m1 # rest) = m0 # m1 # rest"
    using assms(8) by (simp_all add: strchr_append takeWhile_upto)
  have r: "reply E pMsg ''The user mode of the account %s is changed.'' [l] b' =
      Some (told E pMsg (''The user mode of the account '' @ l @ '' is changed.'') b')" for b'
    using reply_one[of "''The user mode of the account ''" "'' is changed.''" l E pMsg b'] assms(9) by simp
  obtain b1 where b1: "accountmode_rights E ch l ?old m0 m1 b = Some b1"
    "V E b1 = (V E b)(ACCESS_DB := (V E b ACCESS_DB)(StrToLower (l @ ch) := if m0 = CHR ''+'' then Some [m0, m1] else None))"
    by (rule accountmode_rights_view[OF assms(1), of m1 ?old ch l m0 b]) (use old(3) assms(11) in auto)
  have c: "char_at (m0 # m1 # rest) 0 = Some m0" "char_at (m0 # m1 # rest) 1 = Some m1" by (simp_all add: char_at_def)
  have tests: "(right = None \<and> (case master of None \<Rightarrow> False | Some m \<Rightarrow> strchr m (CHR ''m'') \<noteq> None)
      \<and> UserLevel pMsg \<noteq> MasterLevel) = False" "(m0 \<noteq> CHR ''+'' \<and> m0 \<noteq> CHR ''-'') = False"
    "(m1 = CHR ''v'' \<or> m1 = CHR ''o'' \<or> m1 = CHR ''m'' \<and> UserLevel pMsg = MasterLevel) = True"
    using old(3) assms(10,11) by auto
  obtain b2 where b2: "accountmode_nick E ch l ?old m0 m1 b1 = Some b2" "dbs b2 = dbs b1"
    using accountmode_nick_total[OF assms(1)] by blast
  have "accountmode E pMsg b = Some (told E pMsg (''The user mode of the account '' @ l @ '' is changed.'') b2)"
    unfolding accountmode_def assms(2,3,7) option.case p(1,2) Let_def
    by (simp only: old(1,2)[symmetric] ex assms(4) p(3) tests c if_False if_True
      not_True_eq_False Option.bind.bind_lunit b1(1) b2(1) r)
  from that[OF this] show thesis using b1(2) b2(2) by simp
qed

text \<open>The two refusals do not protect what they mean to protect.  The login is compared with regard to case, the keys of the rights
  are not: \<open>Bob\<close> takes his own right away when he names himself \<open>bob\<close>.  And a master who also has a right in the
  channel loses it like everybody else.\<close>

lemma own_right_removed:
  "(getParameters (Some (pRawLine (owner_request ''accountmode bob -o''))), db_get exact_env logged_bot NICKTOUSER_DB (pNetmask (owner_request ''accountmode bob -o'')),
    db_get exact_env logged_bot ACCESS_DB (Some ''Bob#c''),
    map_option (\<lambda>b. db_get exact_env b ACCESS_DB (Some ''Bob#c'')) (accountmode exact_env (owner_request ''accountmode bob -o'') logged_bot))
   = (Some ''bob -o'', Some ''Bob'', Some ''+o'', Some None)"
  by code_simp

lemma master_right_removed:
  "map_option (\<lambda>b. (db_get exact_env b ACCESS_DB (Some ''al''), db_get exact_env b ACCESS_DB (Some ''al#c'')))
     (accountmode exact_env (owner_request ''accountmode al -o'')
       (snd (db_add exact_env ACCESS_DB (Some ''al#c'') (Some ''+o'') (snd (db_add exact_env ACCESS_DB (Some ''al'') (Some ''+m'')
         (snd (db_add exact_env USER_DB (Some ''al'') (Some []) logged_bot)))))))
   = Some (Some ''+m'', None)"
  by code_simp

text \<open>C20: \<open>!accountmode\<close> by somebody who acts as a channel owner, not as a master.  If the named login is spelt exactly as the one the
  caller is logged on to, the command is refused, and so it is for an account that is a master and has no right in this
  channel.  For any other spelling, which may be the caller's own login in other letters, and an account with neither
  right, or with a right in the channel that does not say \<open>m\<close>, giving or taking \<open>o\<close> or \<open>v\<close> changes exactly the right of this account
  in this channel and no other entry of any database.\<close>

theorem accountmode_owner:
  assumes "env_ok E" "pAccessChannel pMsg = Some ch" "db_get E b NICKTOUSER_DB (pNetmask pMsg) = Some me"
    and "db_get E b CHANNEL_DB (Some ch) \<noteq> None" "db_get E b USER_DB (Some l) \<noteq> None"
    and "getParameters (Some (pRawLine pMsg)) = Some (l @ SP # m0 # m1 # rest)" "SP \<notin> set l" "length l < 900"
    and "UserLevel pMsg \<noteq> MasterLevel" "m0 \<in> {CHR ''+'', CHR ''-''}" "m1 \<in> {CHR ''o'', CHR ''v''}"
    and "right = db_get E b ACCESS_DB (Some (l @ ch))" "master = db_get E b ACCESS_DB (Some l)"
  shows "(l = me \<longrightarrow> accountmode E pMsg b = Some (told E pMsg (''You can'' @ [AP] @ ''t modify yourself'') b))
    \<and> (l \<noteq> me \<longrightarrow> right = None \<longrightarrow> master = Some m \<longrightarrow> CHR ''m'' \<in> set m \<longrightarrow>
        accountmode E pMsg b = Some (told E pMsg (''You'' @ [AP] @ ''re not a bot master.'') b))
    \<and> (l \<noteq> me \<longrightarrow> right = None \<and> master = None \<or> (\<exists>x y r. right = Some (x # y # r) \<and> y \<noteq> CHR ''m'') \<longrightarrow>
        (\<exists>b'. accountmode E pMsg b = Some b' \<and> (\<forall>db k. db_get E b' db (Some k) =
          (if db = ACCESS_DB \<and> StrToLower k = StrToLower (l @ ch)
           then if m0 = CHR ''+'' then Some [m0, m1] else None else db_get E b db (Some k)))))"
proof (intro conjI impI)
  have ex: "db_exist E b CHANNEL_DB (Some ch)" "db_exist E b USER_DB (Some l)" using assms(1,4,5) by simp_all
  note refused = accountmode_refused[OF assms(1-3) ex assms(6,7,9)]
  show "accountmode E pMsg b = Some (told E pMsg (''You can'' @ [AP] @ ''t modify yourself'') b)" if "l = me"
    by (rule refused(1)[OF that])
  show "accountmode E pMsg b = Some (told E pMsg (''You'' @ [AP] @ ''re not a bot master.'') b)"
    if "l \<noteq> me" "right = None" "master = Some m" "CHR ''m'' \<in> set m"
    using refused(2)[OF that(1) _ _ that(4)] that(2,3) assms(12,13) by simp
  assume a: "l \<noteq> me" "right = None \<and> master = None \<or> (\<exists>x y r. right = Some (x # y # r) \<and> y \<noteq> CHR ''m'')"
  obtain b' where "accountmode E pMsg b = Some b'"
    "V E b' = (V E b)(ACCESS_DB := (V E b ACCESS_DB)(StrToLower (l @ ch) := if m0 = CHR ''+'' then Some [m0, m1] else None))"
    by (rule accountmode_sets[OF assms(1-3) a(1) ex assms(6-8,10-13) a(2)])
  then show "\<exists>b'. accountmode E pMsg b = Some b' \<and> (\<forall>db k. db_get E b' db (Some k) =
          (if db = ACCESS_DB \<and> StrToLower k = StrToLower (l @ ch)
           then if m0 = CHR ''+'' then Some [m0, m1] else None else db_get E b db (Some k)))"
    by auto
qed

lemma accountmode_owner_witness:
  "\<exists>b'. accountmode exact_env (owner_request ''accountmode al +v'')
      (snd (db_add exact_env USER_DB (Some ''al'') (Some []) logged_bot)) = Some b'
    \<and> db_get exact_env b' ACCESS_DB (Some ''al#c'') = Some ''+v''"
proof -
  let ?b = "snd (db_add exact_env USER_DB (Some ''al'') (Some []) logged_bot)"
  let ?m = "owner_request ''accountmode al +v''"
  have h: "pAccessChannel ?m = Some ''#c''" "db_get exact_env ?b NICKTOUSER_DB (pNetmask ?m) = Some ''Bob''"
    "db_get exact_env ?b CHANNEL_DB (Some ''#c'') \<noteq> None" "db_get exact_env ?b USER_DB (Some ''al'') \<noteq> None"
    "getParameters (Some (pRawLine ?m)) = Some (''al'' @ SP # CHR ''+'' # CHR ''v'' # [])" "SP \<notin> set ''al''" "length ''al'' < 900"
    "UserLevel ?m \<noteq> MasterLevel" "CHR ''+'' \<in> {CHR ''+'', CHR ''-''}" "CHR ''v'' \<in> {CHR ''o'', CHR ''v''}"
    "''al'' \<noteq> ''Bob''" "db_get exact_env ?b ACCESS_DB (Some (''al'' @ ''#c'')) = None"
    "db_get exact_env ?b ACCESS_DB (Some ''al'') = None" by code_simp+
  from accountmode_owner[OF exact_env_ok h(1-10) refl refl, of undefined, THEN conjunct2, THEN conjunct2, rule_format, OF h(11)]
    h(12,13)
  obtain b' where b': "accountmode exact_env ?m ?b = Some b'"
    "db_get exact_env b' ACCESS_DB (Some (''al'' @ ''#c'')) = Some [CHR ''+'', CHR ''v'']"
    by (auto simp del: V_get)
  then show ?thesis by auto
qed

end
