(* ===== verification/Parser.thy ===== *)
theory Parser
  imports OwnerCommands
begin

text \<open>
  The parser of \<open>parser.c\<close>: \<open>preParser\<close> recognises the events and commands in the lines of the
  server, and the command threads take the recognised lines from the message queue, check the
  access level of the user and call the handler of the table \<open>CmdHandleField\<close>.
\<close>

section \<open>Recognising a line\<close>

record MsgBuf_t =
  identify :: Cmd_t
  pMsgLine :: "string option"

definition is_cmd :: "string \<Rightarrow> Cmd_t \<Rightarrow> bool" where
  "is_cmd pPos c = starts_with pPos (pCmdString (CmdHandleField ! cmd_id c))"

text \<open>The loop over the bot commands; the first prefix wins.\<close>

definition find_prefix :: "string \<Rightarrow> Cmd_t" where
  "find_prefix pStr = (case dropWhile (\<lambda>i. \<not> starts_with pStr (pCmdString (CmdHandleField ! i)))
       [CMD_FIRST..<cmd_id CMD_COUNT] of
     [] \<Rightarrow> CMD_NONE | i # _ \<Rightarrow> CmdId (CmdHandleField ! i))"

definition identify_message :: "string \<Rightarrow> Cmd_t" where
  "identify_message pLine = (case strstr pLine '' :!'' of
       Some pStr \<Rightarrow> find_prefix (drop 3 pStr)
     | None \<Rightarrow>
        (case strstr pLine ('' :'' @ [SOH]) of None \<Rightarrow> CMD_NONE
         | Some pStr \<Rightarrow>
            (let pStr = drop 2 pStr in
             if is_cmd pStr CMD_CTCPPING then CMD_CTCPPING
             else if is_cmd pStr CMD_CTCPVERSION then CMD_CTCPVERSION
             else if is_cmd pStr CMD_CTCPTIME then CMD_CTCPTIME
             else CMD_NONE)))"

definition identify_line :: "string \<Rightarrow> string \<Rightarrow> Cmd_t" where
  "identify_line pLine pPos =
     (if is_cmd pPos CMD_ONQUIT then CMD_ONQUIT
      else if is_cmd pPos CMD_ONJOIN then CMD_ONJOIN
      else if is_cmd pPos CMD_ONNICKCHG then CMD_ONNICKCHG
      else if is_cmd pPos CMD_ONMODE then CMD_ONMODE
      else if is_cmd pPos CMD_ONKICK then CMD_ONKICK
      else if is_cmd pPos CMD_ONTOPIC then CMD_ONTOPIC
      else if is_cmd pPos CMD_ONNAMES then CMD_ONNAMES
      else if is_cmd pPos CMD_ONWHOIS then CMD_ONWHOIS
      else if is_cmd pPos CMD_ONNONICK then CMD_ONNONICK
      else if starts_with pPos ''PRIVMSG'' \<or> starts_with pPos ''NOTICE'' then identify_message pLine
      else CMD_NONE)"

text \<open>A ping is answered at once; everything else is only recognised.\<close>

definition preParser :: "'f env \<Rightarrow> string \<Rightarrow> 'f bot \<Rightarrow> (MsgBuf_t \<times> 'f bot) c_result" where
  "preParser E pLine b =
     (let nothing = \<lparr>identify = CMD_NONE, pMsgLine = None\<rparr>;
          pPos = (case getCommand (Some pLine) of
              Some pPreamble \<Rightarrow> map_option (drop 1) (strchr pPreamble SP)
            | None \<Rightarrow> Some pLine) in
      case pPos of None \<Rightarrow> Some (nothing, b)
      | Some pPos \<Rightarrow>
         if is_cmd pPos CMD_ONPING then
           (case strstr pPos '' '' of
              None \<Rightarrow> do { b \<leftarrow> pong E None b; Some (nothing, b) }
            | Some pStr \<Rightarrow> do { b \<leftarrow> pong E (Some (drop 1 pStr)) b; Some (nothing, b) })
         else
           (let c = identify_line pLine pPos in
            Some (if c \<noteq> CMD_NONE then \<lparr>identify = c, pMsgLine = Some pLine\<rparr> else nothing, b)))"

section \<open>Executing a command\<close>

definition AccessRight :: "UserLevel_t \<Rightarrow> Cmd_t \<Rightarrow> bool" where
  "AccessRight Level c =
     (let ret = False; cmd = cmd_id c in
      if cmd \<ge> CMD_EVENT then
        (let ret = (if (c = CMD_ONNICKCHG \<or> c = CMD_ONQUIT) \<and> Level \<ge> LoggedLevel then True
                    else if c \<noteq> CMD_ONNICKCHG \<and> c \<noteq> CMD_ONQUIT then True
                    else ret) in
         if cmd \<ge> CMD_OTHERS then
           (let ret = True in
            if cmd \<ge> CMD_LOGGED then
              (if Level \<ge> LoggedLevel then
                 (let ret = True in
                  if cmd \<ge> CMD_FRIEND then
                    (if Level \<ge> FriendLevel then
                       (let ret = True in
                        if cmd \<ge> CMD_OWNER then
                          (if Level \<ge> OwnerLevel then
                             (let ret = True in
                              if cmd \<ge> CMD_MASTER then (if Level = MasterLevel then True else False)
                              else ret)
                           else False)
                        else ret)
                     else False)
                  else ret)
               else False)
            else ret)
         else ret)
      else ret)"

text \<open>The handlers of \<open>CmdHandleField\<close>; a null function pointer is undefined to call.\<close>

primrec CommandHandler :: "Cmd_t \<Rightarrow> 'f env \<Rightarrow> MsgItem_t \<Rightarrow> 'f bot \<Rightarrow> 'f bot c_result" where
  "CommandHandler CMD_NONE = (\<lambda>E pMsg b. None)"
| "CommandHandler CMD_ONPING = hPong"
| "CommandHandler CMD_ONQUIT = logoff"
| "CommandHandler CMD_ONNICKCHG = hNickChange"
| "CommandHandler CMD_ONMODE = hResetModes"
| "CommandHandler CMD_ONKICK = hRejoinAfterKick"
| "CommandHandler CMD_ONJOIN = hUserJoin"
| "CommandHandler CMD_ONNAMES = hBotNeedOp"
| "CommandHandler CMD_ONTOPIC = hResetTopic"
| "CommandHandler CMD_ONWHOIS = hCallback"
| "CommandHandler CMD_ONNONICK = hWhoisFailed"
| "CommandHandler CMD_CTCPPING = ctcpping"
| "CommandHandler CMD_CTCPVERSION = ctcpversion"
| "CommandHandler CMD_CTCPTIME = ctcptime"
| "CommandHandler CMD_VIEWGREAT = greeting"
| "CommandHandler CMD_HELP = help_cmd"
| "CommandHandler CMD_VERSION = version"
| "CommandHandler CMD_HELLO = hello"
| "CommandHandler CMD_IDENT = ident"
| "CommandHandler CMD_LOGOFF = logoff"
| "CommandHandler CMD_PASS = password"
| "CommandHandler CMD_INVITE = inviteuser"
| "CommandHandler CMD_CHANMODE = chanmode"
| "CommandHandler CMD_ACCOUNTLIST = accountlist"
| "CommandHandler CMD_ACCOUNTMODE = accountmode"
| "CommandHandler CMD_SAY = say"
| "CommandHandler CMD_KICK = kickuser"
| "CommandHandler CMD_SET_TOPIC = setTopic"
| "CommandHandler CMD_SET_GREATING = setGreeting"
| "CommandHandler CMD_BAN = banuser"
| "CommandHandler CMD_DEBAN = debanuser"
| "CommandHandler CMD_RESTART = restart"
| "CommandHandler CMD_ALLSAY = allsay"
| "CommandHandler CMD_RMUSER = rmaccount"
| "CommandHandler CMD_NICK = setNick"
| "CommandHandler CMD_DIE = die"
| "CommandHandler CMD_CHANNELS = chanlist"
| "CommandHandler CMD_RMCHANNEL = rmChannel"
| "CommandHandler CMD_ADDCHANNEL = addChannel"
| "CommandHandler CMD_JOIN = joinChannel"
| "CommandHandler CMD_PART = partChannel"
| "CommandHandler CMD_COUNT = (\<lambda>E pMsg b. None)"

text \<open>
  The message record of \<open>CommandExecutionThread\<close>.  The extraction of the access channel and of the
  parameters write to the line, so the later fields and the handler see the line they leave.
\<close>

definition message_item :: "'f env \<Rightarrow> 'f bot \<Rightarrow> Cmd_t \<Rightarrow> string \<Rightarrow> MsgItem_t" where
  "message_item E b c line =
     (let nm = getNetmask (Some line);
          ch = getAccessChannel (Some line);
          line = getAccessChannel_buf line in
      \<lparr>UserLevel = getUserLevel E b ch nm,
       AnswerMode = getAnswerMode line,
       pAccessChannel = ch,
       pCallingNick = getNickname (Some line),
       pNetmask = nm,
       pRawLine = getArgument_buf line,
       bInteractiveMode = bIsCommand (CmdHandleField ! cmd_id c),
       pParameter = getParameters (Some line)\<rparr>)"

text \<open>The body of the loop of \<open>CommandExecutionThread\<close> for one message.\<close>

definition execute_message :: "'f env \<Rightarrow> MsgBuf_t \<Rightarrow> 'f bot \<Rightarrow> 'f bot c_result" where
  "execute_message E pMsg b = do {
     line \<leftarrow> pMsgLine pMsg;
     let c = identify pMsg;
     let item = message_item E b c line;
     if AccessRight (UserLevel item) c then
       (if CMD_NONE \<noteq> c \<and> cmd_id c < cmd_id CMD_COUNT then CommandHandler c E item b else Some b)
     else Some (notice E (pCallingNick item) (Some ''Access denied'') b) }"

text \<open>The loop over the messages that come out of the queue, until the stop flag is set.\<close>

fun CommandExecutionThread :: "'f env \<Rightarrow> MsgBuf_t list \<Rightarrow> 'f bot \<Rightarrow> 'f bot c_result" where
  "CommandExecutionThread E [] b = Some b"
| "CommandExecutionThread E (m # ms) b =
     (if stop b then Some b else do { b \<leftarrow> execute_message E m b; CommandExecutionThread E ms b })"

section \<open>Properties\<close>

text \<open>No bot command is a prefix of another one.\<close>

lemma commands_prefix_free:
  "\<forall>i \<in> set [CMD_FIRST..<cmd_id CMD_COUNT]. \<forall>j \<in> set [CMD_FIRST..<cmd_id CMD_COUNT].
     i \<noteq> j \<longrightarrow> \<not> starts_with (pCmdString (CmdHandleField ! i)) (pCmdString (CmdHandleField ! j))"
  by code_simp

lemma prefixes_comparable: "starts_with s p \<Longrightarrow> starts_with s q \<Longrightarrow> starts_with p q \<or> starts_with q p"
  by (auto simp: starts_with_iff append_eq_append_conv2)

lemma cmd_id_inj: "cmd_id c = cmd_id d \<Longrightarrow> c = d"
proof -
  have "\<forall>i < cmd_id CMD_COUNT. cmd_id (CmdId (CmdHandleField ! i)) = i" using table_ids by blast
  assume "cmd_id c = cmd_id d"
  then show ?thesis by (cases c) (cases d; simp)+
qed

lemma cmd_id_less: "c \<noteq> CMD_COUNT \<Longrightarrow> cmd_id c < cmd_id CMD_COUNT"
  by (cases c) simp_all

lemma dropWhile_unique:
  "x \<in> set r \<Longrightarrow> P x \<Longrightarrow> (\<And>y. y \<in> set r \<Longrightarrow> P y \<Longrightarrow> y = x) \<Longrightarrow> \<exists>js. dropWhile (\<lambda>i. \<not> P i) r = x # js"
proof (induction r)
  case (Cons a r)
  show ?case
  proof (cases "P a")
    case True
    then show ?thesis using Cons.prems(3)[of a] by simp
  next
    case False
    then have "x \<in> set r" using Cons.prems(1,2) by auto
    have "\<exists>js. dropWhile (\<lambda>i. \<not> P i) r = x # js"
      by (rule Cons.IH[OF \<open>x \<in> set r\<close> Cons.prems(2)]) (rule Cons.prems(3), simp_all)
    then show ?thesis using False by simp
  qed
qed simp

lemma find_prefix_cmd:
  assumes "CMD_FIRST \<le> cmd_id c" "c \<noteq> CMD_COUNT" "starts_with s (pCmdString (CmdHandleField ! cmd_id c))"
  shows "find_prefix s = c"
proof -
  have c: "cmd_id c \<in> set [CMD_FIRST..<cmd_id CMD_COUNT]"
    unfolding set_upt atLeastLessThan_iff using assms(1) cmd_id_less[OF assms(2)] by blast
  have "i = cmd_id c" if "i \<in> set [CMD_FIRST..<cmd_id CMD_COUNT]" "starts_with s (pCmdString (CmdHandleField ! i))" for i
    using prefixes_comparable[OF that(2) assms(3)] commands_prefix_free that(1) c by metis
  from dropWhile_unique[where P = "\<lambda>i. starts_with s (pCmdString (CmdHandleField ! i))", OF c assms(3) this]
  obtain js where d: "dropWhile (\<lambda>i. \<not> starts_with s (pCmdString (CmdHandleField ! i))) [CMD_FIRST..<cmd_id CMD_COUNT] = cmd_id c # js"
    by blast
  have "CmdId (CmdHandleField ! cmd_id c) = c"
    using table_ids[of "cmd_id c"] cmd_id_less[OF assms(2)] cmd_id_inj by blast
  then show ?thesis unfolding find_prefix_def d by simp
qed

text \<open>The level that a command needs; there is none for \<open>CMD_NONE\<close>, which nobody may execute.\<close>

definition required :: "Cmd_t \<Rightarrow> UserLevel_t option" where
  "required c = (if c = CMD_NONE then None
     else if c = CMD_ONNICKCHG \<or> c = CMD_ONQUIT then Some LoggedLevel
     else if cmd_id c < CMD_LOGGED then Some NoneLevel
     else if cmd_id c < CMD_FRIEND then Some LoggedLevel
     else if cmd_id c < CMD_OWNER then Some FriendLevel
     else if cmd_id c < CMD_MASTER then Some OwnerLevel
     else Some MasterLevel)"

lemma access_levels: "AccessRight lv c \<longleftrightarrow> (case required c of None \<Rightarrow> False | Some r \<Rightarrow> r \<le> lv)"
  by (cases c; cases lv) (simp_all add: AccessRight_def required_def less_eq_UserLevel_t_def less_UserLevel_t_def)

text \<open>The nested tests of \<open>AccessRight\<close> allow a command exactly if the level of the user is at least the level that the
  section of the command in the table requires, and a higher level never loses a right.\<close>

lemma access_right_levels:
  "(AccessRight lv c \<longleftrightarrow> (case required c of None \<Rightarrow> False | Some r \<Rightarrow> r \<le> lv))
   \<and> (AccessRight lv c \<longrightarrow> lv \<le> lv' \<longrightarrow> AccessRight lv' c)"
  by (auto simp: access_levels split: option.splits)

lemma identify_request:
  assumes "request_ok nk uh chan (pCmdString (CmdHandleField ! cmd_id c))" "CMD_FIRST \<le> cmd_id c" "c \<noteq> CMD_COUNT"
  shows "preParser E (asked nk uh chan (pCmdString (CmdHandleField ! cmd_id c)) tail) b
    = Some (\<lparr>identify = c, pMsgLine = Some (asked nk uh chan (pCmdString (CmdHandleField ! cmd_id c)) tail)\<rparr>, b)"
proof -
  let ?cmd = "pCmdString (CmdHandleField ! cmd_id c)"
  let ?line = "asked nk uh chan ?cmd tail"
  have "SP \<notin> set (CHR '':'' # nk @ ''!'' @ uh)"
    using assms(1) NickStringCheck_excludes(4)[of nk] by (auto simp: request_ok_def)
  from strchr_append[OF this] have pos: "map_option (drop 1) (strchr ((CHR '':'' # nk @ ''!'' @ uh) @ SP # ''PRIVMSG '' @ chan @ '' '') SP)
      = Some (''PRIVMSG '' @ chan @ '' '')" by simp
  have none: "\<not> is_cmd (''PRIVMSG '' @ r) d" if "d \<in> {CMD_ONPING, CMD_ONQUIT, CMD_ONJOIN, CMD_ONNICKCHG, CMD_ONMODE,
      CMD_ONKICK, CMD_ONTOPIC, CMD_ONNAMES, CMD_ONWHOIS, CMD_ONNONICK}" for d r
    using that by (elim insertE emptyE) (simp_all add: is_cmd_def CmdHandleField_def cmd_ref_def)
  have "identify_message ?line = c"
    using asked_text(1)[OF assms(1), of tail] find_prefix_cmd[OF assms(2,3), of "?cmd @ tail"]
    by (simp add: identify_message_def starts_with_append)
  moreover have "starts_with (''PRIVMSG '' @ chan @ '' '') ''PRIVMSG''" by simp
  ultimately have "identify_line ?line (''PRIVMSG '' @ chan @ '' '') = c"
    unfolding identify_line_def using none by simp
  moreover have "c \<noteq> CMD_NONE" using assms(2) by auto
  ultimately show ?thesis
    unfolding preParser_def Let_def asked_command[OF assms(1)] option.case pos
    using none[of CMD_ONPING] by simp
qed

text \<open>Whatever stands in the line, the handler runs exactly if the user has the level that the command requires in the
  channel that the line names.\<close>

lemma execute_levels:
  assumes "c \<noteq> CMD_COUNT"
  shows "execute_message E \<lparr>identify = c, pMsgLine = Some line\<rparr> b =
    (if (case required c of None \<Rightarrow> False | Some r \<Rightarrow> r \<le> getUserLevel E b (getAccessChannel (Some line)) (getNetmask (Some line)))
     then CommandHandler c E (message_item E b c line) b
     else Some (notice E (getNickname (Some (getAccessChannel_buf line))) (Some ''Access denied'') b))"
proof -
  have none: "required c = None" if "CMD_NONE = c" using that[symmetric] by (simp add: required_def)
  have less: "cmd_id c < cmd_id CMD_COUNT" using cmd_id_less[OF assms] .
  have item: "UserLevel (message_item E b c line) = getUserLevel E b (getAccessChannel (Some line)) (getNetmask (Some line))"
    "pCallingNick (message_item E b c line) = getNickname (Some (getAccessChannel_buf line))"
    by (simp_all add: message_item_def Let_def)
  show ?thesis
    unfolding execute_message_def MsgBuf_t.simps bind.bind_lunit Let_def access_levels item
    using none less by auto
qed

lemma asked_item:
  assumes "request_ok nk uh chan cmd" "take 1 tail \<in> {[], '' ''}" "CMD_FIRST \<le> cmd_id c" "c \<noteq> CMD_COUNT"
  shows "message_item E b c (asked nk uh chan cmd tail) =
    \<lparr>UserLevel = getUserLevel E b (channel_of chan tail) (Some (nk @ ''!'' @ uh)), AnswerMode = NoticeMode,
     pAccessChannel = channel_of chan tail, pCallingNick = Some nk, pNetmask = Some (nk @ ''!'' @ uh),
     pRawLine = asked nk uh chan cmd (left_behind tail), bInteractiveMode = True, pParameter = parameters_of tail\<rparr>"
proof -
  note first = asked_fields[OF assms(1,2)] and left = left_behind_fields[OF assms(2)]
  note rest = asked_fields[OF assms(1) left(1)] asked_argument(2)[OF assms(1) left(1)]
  have "left_behind (left_behind tail) = left_behind tail" using assms(2) left(2) by (auto simp: left_behind_def)
  moreover have "parameters_of (left_behind tail) = parameters_of tail" by (simp add: parameters_of_def left(2))
  moreover have "bIsCommand (CmdHandleField ! cmd_id c)"
    using assms(3,4) by (cases c) (simp_all add: CmdHandleField_def cmd_ref_def)
  ultimately show ?thesis unfolding message_item_def Let_def first rest by simp
qed



text \<open>A \<open>PING\<close> of the server is answered at once with a \<open>PONG\<close> that carries the same text; nothing is queued for the command
  threads and no stored data changes.\<close>

lemma ping_answered:
  "preParser E (''PING '' @ s) b = Some (\<lparr>identify = CMD_NONE, pMsgLine = None\<rparr>, SendLine E (''PONG '' @ s @ CRLF) b)"
proof -
  have "is_cmd (''PING '' @ s) CMD_ONPING" by (simp add: is_cmd_def CmdHandleField_def cmd_ref_def)
  moreover have "strstr (''PING '' @ s) '' '' = Some ('' '' @ s)"
    using strstr_append[of "'' ''" "''PING''" "'' '' @ s"] by simp
  moreover have "getCommand (Some (''PING '' @ s)) = None" by (simp add: getCommand_def)
  ultimately show ?thesis by (simp add: preParser_def Let_def)
qed

text \<open>After \<open>!die\<close> and \<open>!restart\<close> the stop flag is set, \<open>QUIT\<close> has been sent unless the bot was stopping already, and no command
  that is still in the queue is executed; only \<open>!restart\<close> asks for a new start of the bot.\<close>

lemma die_and_restart_stop:
  "(\<exists>b'. die E pMsg b = Some b' \<and> stop b' \<and> again b' = again b \<and> dbs b' = dbs b
      \<and> sent b' = sent (told E pMsg ''The bot is going down.'' b)
          @ (if stop (told E pMsg ''The bot is going down.'' b) then [] else [''QUIT'' @ CRLF])
      \<and> (\<forall>ms. CommandExecutionThread E ms b' = Some b'))
   \<and> (\<exists>b'. restart E pMsg b = Some b' \<and> stop b' \<and> again b' \<and> dbs b' = dbs b
      \<and> (\<forall>ms. CommandExecutionThread E ms b' = Some b'))"
proof -
  have thread: "stop b' \<Longrightarrow> CommandExecutionThread E ms b' = Some b'" for ms b' by (cases ms) simp_all
  have r: "reply E pMsg ''The bot is going down.'' [] b = Some (told E pMsg ''The bot is going down.'' b)"
    "reply E pMsg ''The bot is going to restart.'' [] b = Some (told E pMsg ''The bot is going to restart.'' b)"
    by (rule reply_plain; simp)+
  have a: "again (told E pMsg t b) = again b" for t using told_sends[of b E pMsg t] by (simp add: sends_def)
  let ?d = "stopParser E (told E pMsg ''The bot is going down.'' b)"
  let ?r = "stopParser E ((told E pMsg ''The bot is going to restart.'' b)\<lparr>again := True\<rparr>)"
  have "die E pMsg b = Some ?d" "restart E pMsg b = Some ?r" by (simp_all add: die_def restart_def r)
  moreover have "stop ?d" "again ?d = again b" "dbs ?d = dbs b" "stop ?r" "again ?r" "dbs ?r = dbs b"
    by (simp_all add: stopParser_def quit_def Let_def a)
  moreover have "sent ?d = sent (told E pMsg ''The bot is going down.'' b)
          @ (if stop (told E pMsg ''The bot is going down.'' b) then [] else [''QUIT'' @ CRLF])"
    by (simp add: stopParser_def quit_def Let_def)
  ultimately show ?thesis using thread by metis
qed

end
