(* ===== verification/Invariants.thy ===== *)
theory Invariants
  imports Parser
begin

text \<open>
  Invariants of the running bot.  The locale \<open>bot_invariant\<close> states what a property of the bot
  needs to survive the elementary steps of the handlers (sending, the database operations, the
  callback list), and proves once that every handler then keeps it.  It is interpreted for the
  well-formedness of the stored channel records and for the inverse login tables.
\<close>

section \<open>Partial correctness of optional results\<close>

definition ensures :: "('s \<Rightarrow> bool) \<Rightarrow> 's c_result \<Rightarrow> bool" where
  "ensures P m \<longleftrightarrow> (case m of None \<Rightarrow> True | Some s \<Rightarrow> P s)"

lemma ensures_simps [simp]: "ensures P None" "ensures P (Some s) \<longleftrightarrow> P s"
  by (simp_all add: ensures_def)

lemma ensuresD: "ensures P m \<Longrightarrow> m = Some s \<Longrightarrow> P s" by simp

lemma ensures_same: "ensures P m \<Longrightarrow> (\<And>s. P s \<Longrightarrow> ensures P (f s)) \<Longrightarrow> ensures P (m \<bind> f)"
  by (cases m) auto

lemma ensures_value: "(\<And>x. m = Some x \<Longrightarrow> ensures P (f x)) \<Longrightarrow> ensures P (m \<bind> f)"
  by (cases m) auto

lemma ensures_None: "ensures P None" by simp

lemma ensures_Some: "P s \<Longrightarrow> ensures P (Some s)" by simp

lemma ensures_if: "(c \<Longrightarrow> ensures P x) \<Longrightarrow> (\<not> c \<Longrightarrow> ensures P y) \<Longrightarrow> ensures P (if c then x else y)"
  by simp

lemma ensures_option:
  "(x = None \<Longrightarrow> ensures P n) \<Longrightarrow> (\<And>y. x = Some y \<Longrightarrow> ensures P (f y))
   \<Longrightarrow> ensures P (case x of None \<Rightarrow> n | Some y \<Rightarrow> f y)"
  by (cases x) auto

lemma ensures_list:
  "(x = [] \<Longrightarrow> ensures P n) \<Longrightarrow> (\<And>y ys. x = y # ys \<Longrightarrow> ensures P (f y ys))
   \<Longrightarrow> ensures P (case x of [] \<Rightarrow> n | y # ys \<Rightarrow> f y ys)"
  by (cases x) auto

lemma ensures_prod:
  "(\<And>y z. x = (y, z) \<Longrightarrow> ensures P (f y z)) \<Longrightarrow> ensures P (case x of (y, z) \<Rightarrow> f y z)"
  by (cases x) auto

lemma if_intro: "(c \<Longrightarrow> P x) \<Longrightarrow> (\<not> c \<Longrightarrow> P y) \<Longrightarrow> P (if c then x else y)" by simp

lemma option_intro:
  "(x = None \<Longrightarrow> P n) \<Longrightarrow> (\<And>y. x = Some y \<Longrightarrow> P (f y)) \<Longrightarrow> P (case x of None \<Rightarrow> n | Some y \<Rightarrow> f y)"
  by (cases x) auto

lemma ensures_for_each:
  "P s \<Longrightarrow> (\<And>x s. P s \<Longrightarrow> ensures P (f x s)) \<Longrightarrow> ensures P (for_each f xs s)"
proof (induction xs arbitrary: s)
  case (Cons x xs)
  have "ensures P (f x s)" using Cons.prems by blast
  then show ?case using Cons.IH Cons.prems(2) by (cases "f x s") auto
qed simp

section \<open>The netmask of a nick change\<close>

text \<open>The netmask that \<open>hNickChange\<close> logs the user on with.\<close>

definition new_netmask :: "string \<Rightarrow> string \<Rightarrow> string option" where
  "new_netmask raw nm = do {
     p \<leftarrow> strrchr raw SP;
     t \<leftarrow> strchr nm (CHR ''!'');
     if length p > 2 then Some (drop 2 p @ strtok_cut SP t) else None }"

definition nick_change :: "MsgBuf_t \<Rightarrow> string option" where
  "nick_change m = do {
     line \<leftarrow> pMsgLine m;
     nm \<leftarrow> getNetmask (Some line);
     new_netmask (getArgument_buf (getAccessChannel_buf line)) nm }"

lemma preParser_sends: "preParser E line b = Some (m, b') \<Longrightarrow> sends b b'"
  by (auto simp: preParser_def Let_def bind_eq_Some_conv split: option.splits if_splits dest: sends_partial(7))

section \<open>Who may change what\<close>

text \<open>
  The commands that write entries of a database and those that remove them, as the command table is meant: accounts are
  created by \<open>!hello\<close>, get a new password by \<open>!pass\<close> and are removed by \<open>!rmaccount\<close>, and so on.
\<close>

definition writers :: "int \<Rightarrow> Cmd_t set" where
  "writers db = (if db = USER_DB then {CMD_HELLO, CMD_PASS} else if db = ACCESS_DB then {CMD_HELLO, CMD_ACCOUNTMODE}
     else if db = CHANNEL_DB then {CMD_ADDCHANNEL, CMD_CHANMODE, CMD_SET_TOPIC, CMD_SET_GREATING} else {})"

definition removers :: "int \<Rightarrow> Cmd_t set" where
  "removers db = (if db = USER_DB \<or> db = TIMELOG_DB then {CMD_RMUSER} else if db = ACCESS_DB then {CMD_ACCOUNTMODE, CMD_RMUSER}
     else if db = CHANNEL_DB then {CMD_RMCHANNEL} else {})"

lemma writers_removers:
  "c \<in> writers db \<Longrightarrow> db \<in> {USER_DB, ACCESS_DB, TIMELOG_DB, CHANNEL_DB}"
  "c \<in> removers db \<Longrightarrow> db \<in> - {NICKTOUSER_DB, USERTONICK_DB}"
  by (auto simp: writers_def removers_def split: if_splits)

section \<open>The contract of an invariant\<close>

locale bot_invariant =
  fixes E :: "'f env" and P :: "'f bot \<Rightarrow> bool" and may_log_on :: "'f bot \<Rightarrow> string option \<Rightarrow> bool"
    and writes removes :: "int set" and restarts :: bool
  assumes P_sends: "P b \<Longrightarrow> sends b b' \<Longrightarrow> P b'"
    and P_fields: "P b \<Longrightarrow> P (b\<lparr>callbacks := cs\<rparr>)" "P b \<Longrightarrow> P (b\<lparr>pBotname := nk\<rparr>)"
      "P b \<Longrightarrow> P (b\<lparr>stop := w\<rparr>)" "restarts \<Longrightarrow> P b \<Longrightarrow> P (b\<lparr>again := w\<rparr>)"
    and P_del: "P b \<Longrightarrow> db \<noteq> NICKTOUSER_DB \<Longrightarrow> db \<noteq> USERTONICK_DB \<Longrightarrow> db \<in> removes \<Longrightarrow> P (snd (db_del E db (Some k) b))"
    and P_add: "P b \<Longrightarrow> db \<in> {USER_DB, ACCESS_DB, TIMELOG_DB} \<Longrightarrow> db \<in> writes \<Longrightarrow> P (snd (db_add E db (Some k) (Some v) b))"
    and P_replace: "P b \<Longrightarrow> db \<in> {USER_DB, ACCESS_DB, TIMELOG_DB} \<Longrightarrow> db \<in> writes \<Longrightarrow> P (snd (db_replace E db (Some k) (Some v) b))"
    and P_new_channel: "P b \<Longrightarrow> CHANNEL_DB \<in> writes \<Longrightarrow> P (snd (db_add E CHANNEL_DB (Some k) (Some [TAB, TAB]) b))"
    and P_channel: "P b \<Longrightarrow> CHANNEL_DB \<in> writes \<Longrightarrow> db_get E b CHANNEL_DB (Some k) = Some s \<Longrightarrow> StrToChannelData s = Some d \<Longrightarrow>
      (wf_data d \<longrightarrow> wf_data d') \<Longrightarrow> P (snd (db_replace E CHANNEL_DB (Some k) (Some (ChannelDataToStr d')) b))"
    and P_log_out: "P b \<Longrightarrow> P (log_out E l b)"
    and P_log_on: "P b \<Longrightarrow> may_log_on b n \<Longrightarrow> P (log_on E n l b)"
    and may_sends: "may_log_on b n \<Longrightarrow> sends b b' \<Longrightarrow> may_log_on b' n"
    and may_add: "may_log_on b n \<Longrightarrow> may_log_on (snd (db_add E USER_DB (Some k) (Some v) b)) n"
begin

lemma P_opt:
  "P b \<Longrightarrow> db \<in> {USER_DB, ACCESS_DB, TIMELOG_DB} \<Longrightarrow> db \<in> writes \<Longrightarrow> P (snd (db_add E db k v b))"
  "P b \<Longrightarrow> db \<in> {USER_DB, ACCESS_DB, TIMELOG_DB} \<Longrightarrow> db \<in> writes \<Longrightarrow> P (snd (db_replace E db k v b))"
  "P b \<Longrightarrow> db \<noteq> NICKTOUSER_DB \<Longrightarrow> db \<noteq> USERTONICK_DB \<Longrightarrow> db \<in> removes \<Longrightarrow> P (snd (db_del E db k b))"
proof -
  have *: "snd (db_add E db None v b) = b" "snd (db_add E db k None b) = b"
    "snd (db_replace E db None v b) = b" "snd (db_replace E db k None b) = b"
    "snd (db_del E db None b) = b" for db k v b
    by (auto simp: db_add_def db_replace_def db_del_def add_db_def replace_db_def del_db_def
      split: option.splits)
  show "P b \<Longrightarrow> db \<in> {USER_DB, ACCESS_DB, TIMELOG_DB} \<Longrightarrow> db \<in> writes \<Longrightarrow> P (snd (db_add E db k v b))"
    by (cases k; cases v) (auto simp: * intro: P_add)
  show "P b \<Longrightarrow> db \<in> {USER_DB, ACCESS_DB, TIMELOG_DB} \<Longrightarrow> db \<in> writes \<Longrightarrow> P (snd (db_replace E db k v b))"
    by (cases k; cases v) (auto simp: * intro: P_replace)
  show "P b \<Longrightarrow> db \<noteq> NICKTOUSER_DB \<Longrightarrow> db \<noteq> USERTONICK_DB \<Longrightarrow> db \<in> removes \<Longrightarrow> P (snd (db_del E db k b))"
    by (cases k) (auto simp: * intro: P_del)
qed

lemma total_sends:
  "P b \<Longrightarrow> P (privmsg E t m b)" "P b \<Longrightarrow> P (notice E t m b)" "P b \<Longrightarrow> P (join E t b)"
  "P b \<Longrightarrow> P (part E t b)" "P b \<Longrightarrow> P (invite E t m b)" "P b \<Longrightarrow> P (nick E t b)"
  "P b \<Longrightarrow> P (topic E t m b)" "P b \<Longrightarrow> P (action E t m b)" "P b \<Longrightarrow> P (SendLine E l b)"
  by (erule P_sends, rule frames)+

lemma partial_sends:
  "P b \<Longrightarrow> ensures P (kick E c n m b)" "P b \<Longrightarrow> ensures P (ban E c m b)" "P b \<Longrightarrow> ensures P (deban E c m b)"
  "P b \<Longrightarrow> ensures P (mode E c m p b)" "P b \<Longrightarrow> ensures P (whois E n b)"
  "P b \<Longrightarrow> ensures P (sendMsg E a n f args b)" "P b \<Longrightarrow> ensures P (pong E n b)"
  "P b \<Longrightarrow> ensures P (run_callback E i nm b)"
  by (auto simp: ensures_def split: option.splits intro: P_sends frames)

lemma P_callback: "P b \<Longrightarrow> P (add_callback n f d b)"
  by (simp add: add_callback_def P_fields)

lemma P_quit: "P b \<Longrightarrow> P (stopParser E b)"
  by (simp add: stopParser_def quit_def Let_def P_fields total_sends)

lemma P_pair:
  "db_add E db k v b = (r, b') \<Longrightarrow> P b \<Longrightarrow> db \<in> {USER_DB, ACCESS_DB, TIMELOG_DB} \<Longrightarrow> db \<in> writes \<Longrightarrow> P b'"
  "db_replace E db k v b = (r, b') \<Longrightarrow> P b \<Longrightarrow> db \<in> {USER_DB, ACCESS_DB, TIMELOG_DB} \<Longrightarrow> db \<in> writes \<Longrightarrow> P b'"
  "db_del E db k b = (r, b') \<Longrightarrow> P b \<Longrightarrow> db \<noteq> NICKTOUSER_DB \<Longrightarrow> db \<noteq> USERTONICK_DB \<Longrightarrow> db \<in> removes \<Longrightarrow> P b'"
  using P_opt by (metis snd_conv)+

lemma may_add_pair: "db_add E USER_DB k (Some v) b = (r, b') \<Longrightarrow> k = Some k' \<Longrightarrow> may_log_on b n \<Longrightarrow> may_log_on b' n"
  using may_add by (metis snd_conv)

lemmas wp = ensures_if ensures_option ensures_list ensures_prod ensures_same ensures_value ensures_Some
  ensures_for_each ensures_None

lemmas bot_cases = if_intro[of _ P] option_intro[of _ P]

lemmas steps = P_fields P_opt total_sends partial_sends P_callback P_quit P_log_out

lemma P_rights: "P b \<Longrightarrow> ACCESS_DB \<in> removes \<Longrightarrow> ensures P (rmAccessRights E l b)"
  unfolding rmAccessRights_def Let_def by (intro wp steps) simp_all

lemma P_rmAccount: "P b \<Longrightarrow> {ACCESS_DB, USER_DB, TIMELOG_DB} \<subseteq> removes \<Longrightarrow> ensures P (rmAccount E l b)"
  unfolding rmAccount_def Let_def by (intro wp steps P_rights) simp_all

section \<open>The handlers of events\<close>

lemma P_hSetModUser: "P b \<Longrightarrow> ensures P (hSetModUser E pMsg b)"
  unfolding hSetModUser_def by (intro wp steps)

lemma P_hNickChange:
  assumes "P b" "\<And>nm l n. pNetmask pMsg = Some nm \<Longrightarrow> new_netmask (pRawLine pMsg) nm = Some n
      \<Longrightarrow> may_log_on (log_out E l b) (Some n)"
  shows "ensures P (hNickChange E pMsg b)"
  unfolding hNickChange_def Let_def
  by (intro wp steps P_log_on assms) (auto simp: new_netmask_def)

lemma P_channelInit: "P b \<Longrightarrow> ensures P (channelInit E c b)"
  unfolding channelInit_def Let_def by (intro wp steps bot_cases)

lemma P_hBotNeedOp: "P b \<Longrightarrow> ensures P (hBotNeedOp E pMsg b)"
  unfolding hBotNeedOp_def by (intro wp steps P_channelInit)

lemma P_reset_modes: "P b \<Longrightarrow> ensures P (reset_modes E c ms sg r b)"
proof (induction ms arbitrary: sg r b)
  case (Cons m ms)
  show ?case unfolding reset_modes.simps Let_def
    by (intro wp Cons.IH steps P_channelInit Cons.prems)
qed simp

lemma P_hResetModes: "P b \<Longrightarrow> ensures P (hResetModes E pMsg b)"
  unfolding hResetModes_def Let_def by (intro wp P_reset_modes)

lemma P_hResetTopic: "P b \<Longrightarrow> ensures P (hResetTopic E pMsg b)"
  unfolding hResetTopic_def by (intro wp steps bot_cases)

lemma P_hRejoinAfterKick: "P b \<Longrightarrow> ensures P (hRejoinAfterKick E pMsg b)"
  unfolding hRejoinAfterKick_def Let_def by (intro wp steps bot_cases)

lemma fetch_callback_P: "P b \<Longrightarrow> fetch_callback n b = Some (i, b') \<Longrightarrow> P b'"
  by (cases n; cases "take_first (the n) (callbacks b)")
    (auto simp: fetch_callback_def P_fields split: if_splits)

lemma P_hCallback: "P b \<Longrightarrow> ensures P (hCallback E pMsg b)"
  unfolding hCallback_def Let_def by (intro wp steps) (simp_all add: fetch_callback_P)

lemma P_hWhoisFailed: "P b \<Longrightarrow> ensures P (hWhoisFailed E pMsg b)"
  unfolding hWhoisFailed_def Let_def by (intro wp steps) (simp_all add: fetch_callback_P)

section \<open>The commands\<close>

lemma P_ctcp: "P b \<Longrightarrow> ensures P (ctcpping E pMsg b)" "P b \<Longrightarrow> ensures P (ctcpversion E pMsg b)"
  "P b \<Longrightarrow> ensures P (ctcptime E pMsg b)"
  by (auto simp: ctcpping_def ctcpversion_def ctcptime_def intro!: steps split: option.splits)

lemma P_help: "P b \<Longrightarrow> ensures P (help_cmd E pMsg b)"
  unfolding help_cmd_def help_list_def help_entry_def Let_def by (intro wp steps)

lemma P_hello_master: "P b \<Longrightarrow> ACCESS_DB \<in> writes \<Longrightarrow> ensures P (hello_master E pMsg b)"
  unfolding hello_master_def Let_def
  by (intro wp steps) (auto split: if_splits intro: P_pair)

lemma P_hello_new:
  assumes "P b" "may_log_on b (pNetmask pMsg)" "P (snd (db_add E USER_DB (pCallingNick pMsg) (Some []) b))"
    and "list_db (gdbm E) (dbs b) USER_DB = Some [] \<Longrightarrow> ACCESS_DB \<in> writes"
  shows "ensures P (hello E pMsg b)"
  unfolding hello_def Let_def
  by (intro wp steps P_hello_master P_log_on assms(1)) (use assms in \<open>auto dest: may_add_pair\<close>)

lemma P_hello:
  assumes "P b" "may_log_on b (pNetmask pMsg)" "USER_DB \<in> writes" "ACCESS_DB \<in> writes"
  shows "ensures P (hello E pMsg b)"
  by (rule P_hello_new[OF assms(1,2)]) (simp_all add: P_opt assms)

lemma P_password: "P b \<Longrightarrow> USER_DB \<in> writes \<Longrightarrow> ensures P (password E pMsg b)"
  unfolding password_def Let_def by (intro wp steps) simp_all

lemma P_logoff: "P b \<Longrightarrow> ensures P (logoff E pMsg b)"
  unfolding logoff_def logoff_channel_def Let_def by (intro wp steps)

lemma P_chan_add_rm:
  "P b \<Longrightarrow> CHANNEL_DB \<in> writes \<Longrightarrow> ensures P (addChannel E pMsg b)"
  "P b \<Longrightarrow> CHANNEL_DB \<in> removes \<Longrightarrow> ensures P (rmChannel E pMsg b)"
  "P b \<Longrightarrow> ensures P (joinChannel E pMsg b)" "P b \<Longrightarrow> ensures P (partChannel E pMsg b)"
  "P b \<Longrightarrow> ensures P (chanlist E pMsg b)"
  subgoal unfolding addChannel_def Let_def by (intro wp P_new_channel steps)
  subgoal unfolding rmChannel_def Let_def by (intro wp steps) (auto intro: P_pair)
  subgoal unfolding joinChannel_def by (intro wp steps)
  subgoal unfolding partChannel_def by (intro wp steps)
  subgoal unfolding chanlist_def chanlist_channel_def Let_def by (intro wp steps)
  done

lemma P_ident_login:
  "P b \<Longrightarrow> may_log_on b (pNetmask pMsg) \<Longrightarrow> ensures P (ident_login E pMsg l pw b)"
  unfolding ident_login_def ident_channel_def Let_def by (intro wp steps P_log_on)

lemma P_ident:
  assumes "P b" "\<not> db_exist E b NICKTOUSER_DB (pNetmask pMsg) \<Longrightarrow> may_log_on b (pNetmask pMsg)"
  shows "ensures P (ident E pMsg b)"
proof (cases "db_exist E b NICKTOUSER_DB (pNetmask pMsg)")
  case False
  with assms(2) have may: "may_log_on b (pNetmask pMsg)" by blast
  show ?thesis
    unfolding ident_def
    by (intro ensures_if ensures_option ensures_value steps P_ident_login assms(1) may)
      (auto intro: P_sends[OF assms(1)] may_sends[OF may] sends_partial)
qed (simp add: ident_def steps assms(1))

lemma P_version: "P b \<Longrightarrow> ensures P (version E pMsg b)"
  unfolding version_def Let_def by (intro wp steps)

lemma P_setGreeting: "P b \<Longrightarrow> CHANNEL_DB \<in> writes \<Longrightarrow> ensures P (setGreeting E pMsg b)"
  unfolding setGreeting_def Let_def
  by (intro wp P_channel steps) (auto simp: wf_data_def intro: wf_parameters)

lemma P_setTopic: "P b \<Longrightarrow> CHANNEL_DB \<in> writes \<Longrightarrow> ensures P (setTopic E pMsg b)"
  unfolding setTopic_def Let_def
  by (intro wp P_channel steps bot_cases) (auto simp: wf_data_def intro: wf_parameters)

lemma P_chanmode: "P b \<Longrightarrow> CHANNEL_DB \<in> writes \<Longrightarrow> ensures P (chanmode E pMsg b)"
  unfolding chanmode_def Let_def
  by (intro wp P_channel steps)
    (auto simp: wf_data_def intro!: wf_merge_modes dest!: StrToChannelMode_wf[rotated] getParameters_trimmed)

lemma P_speak:
  "P b \<Longrightarrow> ensures P (greeting E pMsg b)" "P b \<Longrightarrow> ensures P (say E pMsg b)"
  "P b \<Longrightarrow> ensures P (allsay E pMsg b)" "P b \<Longrightarrow> ensures P (inviteuser E pMsg b)"
  subgoal unfolding greeting_def by (intro wp steps)
  subgoal unfolding say_def by (intro wp steps)
  subgoal unfolding allsay_def by (intro wp steps)
  subgoal unfolding inviteuser_def Let_def by (intro wp steps)
  done

lemma P_ban_kick:
  "P b \<Longrightarrow> ensures P (banuser E pMsg b)" "P b \<Longrightarrow> ensures P (debanuser E pMsg b)"
  "P b \<Longrightarrow> ensures P (kickuser E pMsg b)"
  subgoal unfolding banuser_def Let_def by (intro wp steps)
  subgoal unfolding debanuser_def by (intro wp steps)
  subgoal unfolding kickuser_def Let_def by (intro wp steps)
  done

lemma P_accountmode_rights: "P b \<Longrightarrow> ACCESS_DB \<in> writes \<Longrightarrow> ACCESS_DB \<in> removes \<Longrightarrow> ensures P (accountmode_rights E ch l old m0 m1 b)"
  unfolding accountmode_rights_def Let_def
  by (intro wp steps P_rights bot_cases) (auto split: prod.splits intro: P_pair steps)

lemma P_accountmode_nick: "P b \<Longrightarrow> ensures P (accountmode_nick E ch l old m0 m1 b)"
  unfolding accountmode_nick_def by (intro wp steps)

lemma P_accountmode: "P b \<Longrightarrow> ACCESS_DB \<in> writes \<Longrightarrow> ACCESS_DB \<in> removes \<Longrightarrow> ensures P (accountmode E pMsg b)"
  unfolding accountmode_def Let_def
  by (intro wp steps P_accountmode_rights P_accountmode_nick)

lemma P_accountlist: "P b \<Longrightarrow> ensures P (accountlist E pMsg b)"
  unfolding accountlist_def accountlist_account_def accountlist_channel_def accountlist_owner_def Let_def
  by (intro wp steps)

lemma P_masters:
  "P b \<Longrightarrow> {ACCESS_DB, USER_DB, TIMELOG_DB} \<subseteq> removes \<Longrightarrow> ensures P (rmaccount E pMsg b)" "P b \<Longrightarrow> ensures P (setNick E pMsg b)"
  "P b \<Longrightarrow> ensures P (die E pMsg b)" "P b \<Longrightarrow> restarts \<Longrightarrow> ensures P (restart E pMsg b)"
  subgoal unfolding rmaccount_def Let_def by (intro wp steps P_rmAccount)
  subgoal unfolding setNick_def Let_def by (intro wp steps)
  subgoal unfolding die_def by (intro wp steps)
  subgoal unfolding restart_def by (intro wp steps)
  done

section \<open>The timing thread and the parser\<close>

lemma P_rmDead: "P b \<Longrightarrow> ensures P (rmDeadLogins E t b)"
  "P b \<Longrightarrow> {ACCESS_DB, USER_DB, TIMELOG_DB} \<subseteq> removes \<Longrightarrow> ensures P (rmDeadAccounts E t b)"
  subgoal unfolding rmDeadLogins_def by (intro wp bot_cases steps if_intro[of _ P])
  subgoal unfolding rmDeadAccounts_def by (intro wp steps P_rmAccount)
  done

lemma P_preParser: "P b \<Longrightarrow> preParser E line b = Some (m, b') \<Longrightarrow> P b'"
  by (rule P_sends[OF _ preParser_sends])

section \<open>All handlers\<close>

text \<open>
  The commands that log somebody on need the permission: \<open>hello\<close> and \<open>ident\<close> for the netmask of the
  message, a nick change for the new netmask.
\<close>

lemma P_CommandHandler:
  assumes "P b" "c = CMD_HELLO \<Longrightarrow> may_log_on b (pNetmask pMsg)"
    and "c = CMD_IDENT \<Longrightarrow> \<not> db_exist E b NICKTOUSER_DB (pNetmask pMsg) \<Longrightarrow> may_log_on b (pNetmask pMsg)"
    and "\<And>nm l n. c = CMD_ONNICKCHG \<Longrightarrow> pNetmask pMsg = Some nm \<Longrightarrow> new_netmask (pRawLine pMsg) nm = Some n
      \<Longrightarrow> may_log_on (log_out E l b) (Some n)"
    and "\<And>db. c \<in> writers db \<Longrightarrow> db \<in> writes" "\<And>db. c \<in> removers db \<Longrightarrow> db \<in> removes" "c = CMD_RESTART \<Longrightarrow> restarts"
  shows "ensures P (CommandHandler c E pMsg b)"
  using assms(1-4,7) assms(5)[of USER_DB] assms(5)[of ACCESS_DB] assms(5)[of CHANNEL_DB]
    assms(6)[of USER_DB] assms(6)[of ACCESS_DB] assms(6)[of CHANNEL_DB] assms(6)[of TIMELOG_DB]
  by (cases c)
    (simp_all add: writers_def removers_def steps P_hSetModUser P_hNickChange P_hBotNeedOp P_hResetModes P_hResetTopic
      P_hRejoinAfterKick P_hCallback P_hWhoisFailed P_ctcp P_help P_hello P_password P_logoff P_chan_add_rm
      P_ident P_version P_setGreeting P_setTopic P_chanmode P_speak P_ban_kick P_accountmode
      P_accountlist P_masters hPong_def hUserJoin_def hSendGreeting_def ensures_same)

lemma P_execute_message:
  assumes "P b" "\<And>line. pMsgLine m = Some line \<Longrightarrow>
      (identify m = CMD_HELLO \<longrightarrow> may_log_on b (getNetmask (Some line)))
    \<and> (identify m = CMD_IDENT \<longrightarrow> \<not> db_exist E b NICKTOUSER_DB (getNetmask (Some line))
         \<longrightarrow> may_log_on b (getNetmask (Some line)))
    \<and> (identify m = CMD_ONNICKCHG \<longrightarrow> (\<forall>l n. nick_change m = Some n \<longrightarrow> may_log_on (log_out E l b) (Some n)))"
    and "\<And>line. pMsgLine m = Some line \<Longrightarrow> AccessRight (UserLevel (message_item E b (identify m) line)) (identify m) \<Longrightarrow>
      (\<forall>db. (identify m \<in> writers db \<longrightarrow> db \<in> writes) \<and> (identify m \<in> removers db \<longrightarrow> db \<in> removes))
      \<and> (identify m = CMD_RESTART \<longrightarrow> restarts)"
  shows "ensures P (execute_message E m b)"
  unfolding execute_message_def Let_def
  by (intro wp P_CommandHandler steps assms(1))
    (use assms(2,3) in \<open>auto simp: message_item_def Let_def nick_change_def\<close>)

end

section \<open>Stored records\<close>

text \<open>All keys are in lower case and every channel record is one that the bot writes.\<close>

definition stored_ok :: "'f env \<Rightarrow> 'f bot \<Rightarrow> bool" where
  "stored_ok E b \<longleftrightarrow> keys_lower E b
     \<and> (\<forall>k s. V E b CHANNEL_DB k = Some s \<longrightarrow> (\<exists>d. wf_data d \<and> s = ChannelDataToStr d))"

lemma stored_cong: "dbs b' = dbs b \<Longrightarrow> stored_ok E b' = stored_ok E b"
  by (simp add: stored_ok_def keys_lower_def)

lemma invalid_db [simp]:
  assumes "\<not> valid_db db"
  shows "snd (db_del E db k b) = b" "snd (db_add E db k v b) = b" "snd (db_replace E db k v b) = b"
  using assms by (auto simp: db_del_def db_add_def db_replace_def del_db_def add_db_def replace_db_def
    get_dbf_def Let_def split: option.splits)

lemma null_db [simp]: "snd (db_add E db None v b) = b" "snd (db_add E db k None b) = b"
    "snd (db_replace E db None v b) = b" "snd (db_replace E db k None b) = b"
    "snd (db_del E db None b) = b"
  by (auto simp: db_add_def db_replace_def db_del_def add_db_def replace_db_def del_db_def
    split: option.splits)

lemma stored_del: "env_ok E \<Longrightarrow> stored_ok E b \<Longrightarrow> stored_ok E (snd (db_del E db (Some k) b))"
  by (cases "valid_db db") (auto simp: stored_ok_def keys_lower_def)

lemma stored_add:
  "env_ok E \<Longrightarrow> stored_ok E b \<Longrightarrow> db \<noteq> CHANNEL_DB \<Longrightarrow> stored_ok E (snd (db_add E db (Some k) v b))"
  by (cases "valid_db db"; cases v) (auto simp: stored_ok_def keys_lower_def)

lemma stored_replace:
  "env_ok E \<Longrightarrow> stored_ok E b \<Longrightarrow> db \<noteq> CHANNEL_DB \<Longrightarrow> stored_ok E (snd (db_replace E db (Some k) v b))"
  by (cases "valid_db db"; cases v) (auto simp: stored_ok_def keys_lower_def)

lemma stored_add_any:
  "env_ok E \<Longrightarrow> stored_ok E b \<Longrightarrow> db \<noteq> CHANNEL_DB \<Longrightarrow> stored_ok E (snd (db_add E db k v b))"
  by (cases k) (auto intro: stored_add)

lemma stored_channel:
  assumes "env_ok E" "stored_ok E b" "wf_data d"
  shows "stored_ok E (snd (db_add E CHANNEL_DB (Some k) (Some (ChannelDataToStr d)) b))"
    and "stored_ok E (snd (db_replace E CHANNEL_DB (Some k) (Some (ChannelDataToStr d)) b))"
  using assms by (auto simp: stored_ok_def keys_lower_def)

lemma empty_record: "[TAB, TAB] = ChannelDataToStr \<lparr>sModes = \<lparr>pModeStr = blank_modes, pKeyword = None, pLimit = None\<rparr>,
    pTopic = None, pGreeting = None\<rparr>"
  by code_simp

lemma stored_log_out: "env_ok E \<Longrightarrow> stored_ok E b \<Longrightarrow> stored_ok E (log_out E l b)"
  by (auto simp: log_out_def Let_def stored_del split: option.splits)

lemma stored_log_on: "env_ok E \<Longrightarrow> stored_ok E b \<Longrightarrow> stored_ok E (log_on E n l b)"
  unfolding log_on_def log_on_tables_def Let_def
  by (auto intro!: stored_add stored_replace stored_add_any stored_del split: option.splits)

lemma stored_decodes:
  assumes "stored_ok E b" "db_get E b CHANNEL_DB (Some k) = Some s"
  shows "\<exists>d. wf_data d \<and> StrToChannelData s = Some d \<and> s = ChannelDataToStr d"
proof -
  obtain d where "wf_data d" "s = ChannelDataToStr d" using assms by (auto simp: stored_ok_def)
  then show ?thesis using channel_records.dec_enc by blast
qed

interpretation records: bot_invariant E "\<lambda>b. env_ok E \<longrightarrow> stored_ok E b" "\<lambda>_ _. True"
  "{USER_DB, ACCESS_DB, TIMELOG_DB, CHANNEL_DB}" "- {NICKTOUSER_DB, USERTONICK_DB}" True for E :: "'f env"
proof unfold_locales
  fix b :: "'f bot" and k s d d'
  assume b: "env_ok E \<longrightarrow> stored_ok E b" and s: "db_get E b CHANNEL_DB (Some k) = Some s"
    "StrToChannelData s = Some d" "wf_data d \<longrightarrow> wf_data d'"
  show "env_ok E \<longrightarrow> stored_ok E (snd (db_replace E CHANNEL_DB (Some k) (Some (ChannelDataToStr d')) b))"
  proof
    assume E: "env_ok E"
    from stored_decodes[OF b[rule_format, OF E] s(1)] s(2,3) have "wf_data d'" by auto
    with stored_channel(2)[OF E] b E show "stored_ok E (snd (db_replace E CHANNEL_DB (Some k)
        (Some (ChannelDataToStr d')) b))" by blast
  qed
next
  fix b :: "'f bot" and k
  assume "env_ok E \<longrightarrow> stored_ok E b"
  moreover have "wf_data \<lparr>sModes = \<lparr>pModeStr = blank_modes, pKeyword = None, pLimit = None\<rparr>,
    pTopic = None, pGreeting = None\<rparr>" by (simp add: wf_data_def wf_blank field_ok_def)
  ultimately show "env_ok E \<longrightarrow> stored_ok E (snd (db_add E CHANNEL_DB (Some k) (Some [TAB, TAB]) b))"
    using stored_channel(1) unfolding empty_record by blast
qed (auto simp: stored_del stored_add stored_replace stored_log_out stored_log_on
      dest: sends_fields stored_cong[THEN iffD1, rotated] intro: stored_cong[THEN iffD2, rotated])

section \<open>Login tables\<close>

definition free_netmask :: "'f env \<Rightarrow> 'f bot \<Rightarrow> string option \<Rightarrow> bool" where
  "free_netmask E b n \<longleftrightarrow> (case n of None \<Rightarrow> False | Some m \<Rightarrow> V E b NICKTOUSER_DB (StrToLower m) = None)"

lemma logins_other:
  assumes "env_ok E" "logins_ok E b" "db \<noteq> NICKTOUSER_DB" "db \<noteq> USERTONICK_DB"
  shows "logins_ok E (snd (db_del E db (Some k) b))" "logins_ok E (snd (db_add E db (Some k) (Some v) b))"
    "logins_ok E (snd (db_replace E db (Some k) (Some v) b))"
proof -
  have *: "logins_ok E b'" if "valid_db db \<Longrightarrow> \<forall>d. d \<noteq> db \<longrightarrow> V E b' d = V E b d" "\<not> valid_db db \<Longrightarrow> b' = b" for b'
    using that assms logins_ok_cong[of E b' b] by (cases "valid_db db") (metis, simp)
  show "logins_ok E (snd (db_del E db (Some k) b))" "logins_ok E (snd (db_add E db (Some k) (Some v) b))"
    "logins_ok E (snd (db_replace E db (Some k) (Some v) b))"
    by (rule *; use assms(1) in \<open>simp add: V_del V_add V_replace\<close>)+
qed

lemma logins_same: "dbs b' = dbs b \<Longrightarrow> logins_ok E b' = logins_ok E b"
  by (simp add: logins_ok_def)

lemma logins_fields: "logins_ok E (b\<lparr>callbacks := cs\<rparr>) = logins_ok E b" "logins_ok E (b\<lparr>pBotname := nk\<rparr>) = logins_ok E b"
    "logins_ok E (b\<lparr>stop := w\<rparr>) = logins_ok E b" "logins_ok E (b\<lparr>again := w\<rparr>) = logins_ok E b"
  by (rule logins_same; simp)+

lemma free_same: "dbs b' = dbs b \<Longrightarrow> free_netmask E b' n = free_netmask E b n"
  by (simp add: free_netmask_def split: option.splits)

lemma free_log_out: "env_ok E \<Longrightarrow> free_netmask E b n \<Longrightarrow> free_netmask E (log_out E l b) n"
  by (auto simp: free_netmask_def V_log_out split: option.splits)

interpretation logins: bot_invariant E "\<lambda>b. env_ok E \<longrightarrow> logins_ok E b" "\<lambda>b n. env_ok E \<longrightarrow> free_netmask E b n"
  "{USER_DB, ACCESS_DB, TIMELOG_DB, CHANNEL_DB}" "- {NICKTOUSER_DB, USERTONICK_DB}" True for E :: "'f env"
proof unfold_locales
  fix b b' :: "'f bot" and n
  assume s: "sends b b'"
  show "env_ok E \<longrightarrow> logins_ok E b \<Longrightarrow> env_ok E \<longrightarrow> logins_ok E b'"
    using logins_same sends_fields[OF s] by blast
  show "env_ok E \<longrightarrow> free_netmask E b n \<Longrightarrow> env_ok E \<longrightarrow> free_netmask E b' n"
    using free_same sends_fields[OF s] by blast
next
  fix b :: "'f bot" and n l
  show "env_ok E \<longrightarrow> logins_ok E b \<Longrightarrow> env_ok E \<longrightarrow> free_netmask E b n \<Longrightarrow> env_ok E \<longrightarrow> logins_ok E (log_on E n l b)"
    by (cases n) (auto simp: free_netmask_def intro: log_on_ok)
next
  fix b :: "'f bot" and n k v
  show "env_ok E \<longrightarrow> free_netmask E b n \<Longrightarrow> env_ok E \<longrightarrow> free_netmask E (snd (db_add E USER_DB (Some k) (Some v) b)) n"
    by (auto simp: free_netmask_def split: option.splits)
next
  fix b :: "'f bot" and cs nk w assume a: "env_ok E \<longrightarrow> logins_ok E b"
  show "env_ok E \<longrightarrow> logins_ok E (b\<lparr>callbacks := cs\<rparr>)" "env_ok E \<longrightarrow> logins_ok E (b\<lparr>pBotname := nk\<rparr>)"
    "env_ok E \<longrightarrow> logins_ok E (b\<lparr>stop := w\<rparr>)" "env_ok E \<longrightarrow> logins_ok E (b\<lparr>again := w\<rparr>)"
    using a by (simp_all add: logins_fields)
next
  fix b :: "'f bot" and db k v
  assume a: "env_ok E \<longrightarrow> logins_ok E b" "db \<in> {USER_DB, ACCESS_DB, TIMELOG_DB}"
  then have db: "db \<noteq> NICKTOUSER_DB" "db \<noteq> USERTONICK_DB" by auto
  show "env_ok E \<longrightarrow> logins_ok E (snd (db_add E db (Some k) (Some v) b))"
    "env_ok E \<longrightarrow> logins_ok E (snd (db_replace E db (Some k) (Some v) b))"
    using a(1) logins_other[OF _ _ db] by blast+
next
  fix b :: "'f bot" and db k and s d d' l
  assume a: "env_ok E \<longrightarrow> logins_ok E b"
  show "db \<noteq> NICKTOUSER_DB \<Longrightarrow> db \<noteq> USERTONICK_DB \<Longrightarrow> env_ok E \<longrightarrow> logins_ok E (snd (db_del E db (Some k) b))"
    using a logins_other by blast
  have "CHANNEL_DB \<noteq> NICKTOUSER_DB" "CHANNEL_DB \<noteq> USERTONICK_DB" by simp_all
  from logins_other[OF _ _ this] a
  show "env_ok E \<longrightarrow> logins_ok E (snd (db_add E CHANNEL_DB (Some k) (Some [TAB, TAB]) b))"
    "env_ok E \<longrightarrow> logins_ok E (snd (db_replace E CHANNEL_DB (Some k) (Some (ChannelDataToStr d')) b))"
    by blast+
  show "env_ok E \<longrightarrow> logins_ok E (log_out E l b)" using a log_out_ok by blast
qed

end
