(* ===== verification/Config.thy ===== *)
theory Config
  imports Utilities
begin

text \<open>
  The setup of the bot and its configuration file: the structure \<open>ConfigSetup_t\<close>, the checkers, the
  table of the settings and the reader of \<open>configparser.c\<close>, and the writer of \<open>baseconfig.c\<close>.  The
  table holds pointers into the structure; here they are the update functions of its fields, and
  writing through a pointer of another type is undefined.  The byte order of the machine, which
  matters where a \<open>short\<close> is stored into an \<open>unsigned int\<close>, is little endian.
\<close>

section \<open>The setup\<close>

text \<open>
  The fields \<open>pBotname\<close>, \<open>realname\<close> and \<open>sHostname\<close>, whose names the state of the running bot uses
  too, have the prefix \<open>cfg_\<close>.  Only \<open>sNickServIdent\<close> can be the null pointer when the bot runs.
\<close>

record ConfigSetup_t =
  cfg_pBotname :: string
  cfg_realname :: string
  cfg_sHostname :: string
  sPort :: string
  configfile :: string
  pDatabasePath :: string
  thread_limit :: int
  AccountLiveTime :: int
  AutoLoggoff :: int
  iSendDelay :: int
  nSlowSendDelay :: int
  nFastSendingCharLimit :: int
  iTimeout :: int
  newMaster :: bool
  sExeUser :: string
  sExeGroup :: string
  nSettling :: int
  nLogLevel :: int
  bLogLevelWasSet :: int
  sNickServIdent :: "string option"
  nEnableNickServIdent :: int
  nNickServIdentTimeout :: int

text \<open>
  The defaults that \<open>AppMain\<close> stores at every start, with the paths of the files and the log level of the build;
  the settings for the nick name service keep what they had.
\<close>

definition default_setup :: "string \<Rightarrow> string \<Rightarrow> int \<Rightarrow> ConfigSetup_t \<Rightarrow> ConfigSetup_t" where
  "default_setup databases config_path loglevel s = s\<lparr>pDatabasePath := databases, configfile := config_path,
     cfg_pBotname := ''Ebotula'', cfg_realname := ''I'' @ [CHR 0x27] @ ''m a stupid bot'',
     cfg_sHostname := ''irc.fh-lausitz.de'', sPort := ''6667'', sExeGroup := ''nobody'', sExeUser := ''nobody'',
     newMaster := False, AccountLiveTime := 90, AutoLoggoff := 3, iSendDelay := 1500, nSlowSendDelay := 2000,
     nFastSendingCharLimit := 500, iTimeout := 90, thread_limit := 3, nSettling := 10,
     nLogLevel := loglevel, bLogLevelWasSet := 0\<rparr>"

text \<open>A global structure starts with null pointers and zeros.\<close>

definition zero_setup :: ConfigSetup_t where
  "zero_setup = \<lparr>cfg_pBotname = [], cfg_realname = [], cfg_sHostname = [], sPort = [], configfile = [],
     pDatabasePath = [], thread_limit = 0, AccountLiveTime = 0, AutoLoggoff = 0, iSendDelay = 0, nSlowSendDelay = 0,
     nFastSendingCharLimit = 0, iTimeout = 0, newMaster = False, sExeUser = [], sExeGroup = [], nSettling = 0,
     nLogLevel = 0, bLogLevelWasSet = 0, sNickServIdent = None, nEnableNickServIdent = 0, nNickServIdentTimeout = 0\<rparr>"

abbreviation EINVAL :: int where "EINVAL \<equiv> 22"
abbreviation EDOM :: int where "EDOM \<equiv> 33"
abbreviation ENOSYS :: int where "ENOSYS \<equiv> 38"
abbreviation MAX_THREADS_LIMIT :: int where "MAX_THREADS_LIMIT \<equiv> 25"
abbreviation MAX_LOGLEVEL :: int where "MAX_LOGLEVEL \<equiv> 7"
abbreviation MAX_READ_BUFFER_SIZE :: nat where "MAX_READ_BUFFER_SIZE \<equiv> 256"
abbreviation COMMENT_CHAR :: char where "COMMENT_CHAR \<equiv> CHR ''#''"

text \<open>\<open>atoi\<close> is undefined for a number that does not fit an \<open>int\<close>.\<close>

definition atoi :: "string \<Rightarrow> int c_result" where
  "atoi s = (let v = atol s in if - (2 ^ 31) \<le> v \<and> v < 2 ^ 31 then Some v else None)"

definition SERVER_NOT_ALLOW_CHAR :: string where
  "SERVER_NOT_ALLOW_CHAR = '' :;<>*#/'' @ [DQ, CHR 0x27, CHR 0x5C] @ ''{}[]()=?'' @ [CHR 0xA7, CHR ''$'']"

section \<open>The checkers\<close>

text \<open>The second bound is a pointer, and the null pointer means that there is none.\<close>

definition key_uint_checker :: "string \<Rightarrow> int \<Rightarrow> int \<Rightarrow> int c_result" where
  "key_uint_checker v range1 range2 = do {
     n \<leftarrow> atoi v;
     let tmp = n mod 2 ^ 32;
     Some (if tmp < range1 mod 2 ^ 64 then EDOM
           else if range2 \<noteq> 0 \<and> tmp > range2 mod 2 ^ 64 then EDOM else 0) }"

definition key_int_checker :: "string \<Rightarrow> int \<Rightarrow> int \<Rightarrow> int c_result" where
  "key_int_checker v range1 range2 = do {
     tmp \<leftarrow> atoi v;
     Some (if tmp < range1 then EDOM else if range2 \<noteq> 0 \<and> tmp > range2 then EDOM else 0) }"

definition key_server_checker :: "string \<Rightarrow> int \<Rightarrow> int \<Rightarrow> int c_result" where
  "key_server_checker v range1 range2 = Some (if strpbrk v SERVER_NOT_ALLOW_CHAR then EINVAL else 0)"

definition key_nick_checker :: "string \<Rightarrow> int \<Rightarrow> int \<Rightarrow> int c_result" where
  "key_nick_checker v range1 range2 = Some (if \<not> NickStringCheck (Some v) then EINVAL else 0)"

section \<open>The table of the settings\<close>

datatype Input_t = PARAM_CHAR | PARAM_SHORT | PARAM_INT | PARAM_LONG | PARAM_HEX | PARAM_FLOAT
  | PARAM_DOUBLE | PARAM_STRING

datatype target =
    TextField "string \<Rightarrow> ConfigSetup_t \<Rightarrow> ConfigSetup_t"
  | IntField "(int \<Rightarrow> int) \<Rightarrow> ConfigSetup_t \<Rightarrow> ConfigSetup_t"
  | UnsignedField "(int \<Rightarrow> int) \<Rightarrow> ConfigSetup_t \<Rightarrow> ConfigSetup_t"

record InputValueStruct_t =
  sParamName :: string
  iParamType :: Input_t
  pParam :: target
  isFound :: bool
  check_param :: "(string \<Rightarrow> int \<Rightarrow> int \<Rightarrow> int c_result) option"
  pRange1 :: int
  pRange2 :: int

abbreviation setting :: "string \<Rightarrow> Input_t \<Rightarrow> target \<Rightarrow> (string \<Rightarrow> int \<Rightarrow> int \<Rightarrow> int c_result) option \<Rightarrow> int \<Rightarrow> int
    \<Rightarrow> InputValueStruct_t" where
  "setting nm ty p c r1 r2 \<equiv> \<lparr>sParamName = nm, iParamType = ty, pParam = p, isFound = False,
     check_param = c, pRange1 = r1, pRange2 = r2\<rparr>"

definition vsInputConfig :: "InputValueStruct_t list" where
  "vsInputConfig =
    [setting ''botname'' PARAM_STRING (TextField (\<lambda>v. cfg_pBotname_update (\<lambda>_. v))) (Some key_nick_checker) 0 0,
     setting ''realname'' PARAM_STRING (TextField (\<lambda>v. cfg_realname_update (\<lambda>_. v))) None 0 0,
     setting ''user'' PARAM_STRING (TextField (\<lambda>v. sExeUser_update (\<lambda>_. v))) None 0 0,
     setting ''group'' PARAM_STRING (TextField (\<lambda>v. sExeGroup_update (\<lambda>_. v))) None 0 0,
     setting ''threadlimit'' PARAM_SHORT (UnsignedField thread_limit_update) (Some key_int_checker) 1 MAX_THREADS_LIMIT,
     setting ''hostname'' PARAM_STRING (TextField (\<lambda>v. cfg_sHostname_update (\<lambda>_. v))) (Some key_server_checker) 0 0,
     setting ''port'' PARAM_STRING (TextField (\<lambda>v. sPort_update (\<lambda>_. v))) (Some key_int_checker) 1 65536,
     setting ''databasepath'' PARAM_STRING (TextField (\<lambda>v. pDatabasePath_update (\<lambda>_. v))) None 0 0,
     setting ''fastsenddelay'' PARAM_INT (IntField iSendDelay_update) (Some key_int_checker) 0 0,
     setting ''slowsenddelay'' PARAM_INT (IntField nSlowSendDelay_update) (Some key_int_checker) 0 0,
     setting ''fastsendlimit'' PARAM_INT (IntField nFastSendingCharLimit_update) (Some key_int_checker) 0 0,
     setting ''initdelay'' PARAM_INT (UnsignedField nSettling_update) (Some key_int_checker) 0 0,
     setting ''accountlivetime'' PARAM_INT (UnsignedField AccountLiveTime_update) (Some key_int_checker) 0 0,
     setting ''autologoff'' PARAM_INT (UnsignedField AutoLoggoff_update) (Some key_int_checker) 1 0,
     setting ''pingtimeout'' PARAM_INT (IntField iTimeout_update) (Some key_int_checker) 1 0,
     setting ''loglevel'' PARAM_INT (UnsignedField nLogLevel_update) (Some key_int_checker) 0 MAX_LOGLEVEL,
     setting ''nickserv_ident'' PARAM_STRING (TextField (\<lambda>v. sNickServIdent_update (\<lambda>_. Some v))) None 0 0,
     setting ''enable_nickserv_ident'' PARAM_INT (IntField nEnableNickServIdent_update) (Some key_int_checker) 0 1,
     setting ''nickserv_ident_timeout'' PARAM_INT (IntField nNickServIdentTimeout_update) (Some key_int_checker) 0 0]"

section \<open>Reading the file\<close>

text \<open>
  \<open>fgets\<close> with room for \<open>n\<close> characters: the text up to and including the next newline, but at most
  \<open>n\<close> characters, and the rest of the file.  The C string ends at the first null byte.
\<close>

fun fgets_take :: "nat \<Rightarrow> string \<Rightarrow> string \<times> string" where
  "fgets_take 0 s = ([], s)"
| "fgets_take (Suc n) [] = ([], [])"
| "fgets_take (Suc n) (c # cs) =
     (if c = NL then ([c], cs) else let (l, r) = fgets_take n cs in (c # l, r))"

lemma fgets_take_length: "length (snd (fgets_take n s)) \<le> length s"
  by (induction n s rule: fgets_take.induct) (auto split: prod.splits)

lemma fgets_take_shorter: "s \<noteq> [] \<Longrightarrow> 0 < n \<Longrightarrow> length (snd (fgets_take n s)) < length s"
  using fgets_take_length[of "n - 1" "tl s"] by (cases s; cases n) (auto split: prod.splits)

definition c_string :: "string \<Rightarrow> string" where
  "c_string s = takeWhile (\<lambda>c. c \<noteq> CHR 0x00) s"

function fgets_lines :: "string \<Rightarrow> string list" where
  "fgets_lines s = (if s = [] then []
     else let (l, r) = fgets_take (MAX_READ_BUFFER_SIZE - 1) s in c_string l # fgets_lines r)"
  by pat_completeness auto

termination
  by (relation "measure length") (auto, metis fgets_take_shorter snd_conv zero_less_numeral)

declare fgets_lines.simps [simp del]

text \<open>
  Key and value of a line, \<open>None\<close> inside for an empty line or a comment.  A line without an equals sign makes
  the code take the length of the null pointer; when the line starts with one, \<open>strtok\<close> skips it and the
  copy of the key does not fit its block.
\<close>

definition config_line :: "string \<Rightarrow> (string \<times> string) option c_result" where
  "config_line line = (let buffer = clearspace (trim line) in
     if buffer = [] \<or> hd buffer = COMMENT_CHAR then Some None
     else (case strchr buffer (CHR ''='') of
         None \<Rightarrow> None
       | Some c \<Rightarrow>
           let key = strtok_cut (CHR ''='') buffer in
           if length key \<le> length buffer - length c then Some (Some (key, drop 1 c)) else None))"

fun search_param :: "InputValueStruct_t list \<Rightarrow> string \<Rightarrow> nat option" where
  "search_param [] key = None"
| "search_param (e # es) key = (if sParamName e = key then Some 0 else map_option Suc (search_param es key))"

definition store_value :: "Input_t \<Rightarrow> target \<Rightarrow> string \<Rightarrow> ConfigSetup_t \<Rightarrow> ConfigSetup_t c_result" where
  "store_value ty p v s = (case (ty, p) of
       (PARAM_SHORT, UnsignedField f) \<Rightarrow> do { n \<leftarrow> atoi v; Some (f (\<lambda>old. old div 2 ^ 16 * 2 ^ 16 + n mod 2 ^ 16) s) }
     | (PARAM_INT, IntField f) \<Rightarrow> do { n \<leftarrow> atoi v; Some (f (\<lambda>_. n) s) }
     | (PARAM_INT, UnsignedField f) \<Rightarrow> do { n \<leftarrow> atoi v; Some (f (\<lambda>_. n mod 2 ^ 32) s) }
     | (PARAM_HEX, TextField f) \<Rightarrow> Some (f v s)
     | (PARAM_STRING, TextField f) \<Rightarrow> Some (f v s)
     | _ \<Rightarrow> None)"

text \<open>
  Checking and storing the value of an entry; \<open>Inl\<close> is a call of \<open>exit\<close> with the error.
\<close>

definition set_param :: "InputValueStruct_t \<Rightarrow> string \<Rightarrow> ConfigSetup_t \<Rightarrow> (int + ConfigSetup_t) c_result" where
  "set_param e v s = do {
     err \<leftarrow> (case check_param e of None \<Rightarrow> Some 0 | Some c \<Rightarrow> c v (pRange1 e) (pRange2 e));
     if err \<noteq> 0 then Some (Inl err)
     else do { s' \<leftarrow> store_value (iParamType e) (pParam e) v s; Some (Inr s') } }"

text \<open>
  One turn of the loop.  The flag \<open>elem\<close> keeps its value when a key is not found, so that an unknown
  key after a known one indexes the table at its end.
\<close>

type_synonym parser_state = "bool \<times> InputValueStruct_t list \<times> ConfigSetup_t"

definition config_step :: "string \<Rightarrow> parser_state \<Rightarrow> (int + parser_state) c_result" where
  "config_step line = (\<lambda>(elem, table, s). do {
     kv \<leftarrow> config_line line;
     (case kv of None \<Rightarrow> Some (Inr (elem, table, s))
      | Some (key, v) \<Rightarrow>
         (case search_param table key of
            None \<Rightarrow> if \<not> elem then Some (Inr (elem, table, s)) else None
          | Some counter \<Rightarrow>
              let e = table ! counter in
              if isFound e then Some (Inr (False, table, s))
              else do {
                r \<leftarrow> set_param e v s;
                Some (case r of Inl err \<Rightarrow> Inl err
                      | Inr s' \<Rightarrow> Inr (True, table[counter := e\<lparr>isFound := True\<rparr>], s')) })) })"

fun config_lines :: "string list \<Rightarrow> parser_state \<Rightarrow> (int + parser_state) c_result" where
  "config_lines [] st = Some (Inr st)"
| "config_lines (l # ls) st = do {
     r \<leftarrow> config_step l st;
     (case r of Inl err \<Rightarrow> Some (Inl err) | Inr st' \<Rightarrow> config_lines ls st') }"

text \<open>The file is \<open>None\<close> if it cannot be opened.  The table is a global variable.\<close>

definition ConfigFileParser :: "string option \<Rightarrow> InputValueStruct_t list \<Rightarrow> ConfigSetup_t
    \<Rightarrow> (int + InputValueStruct_t list \<times> ConfigSetup_t) c_result" where
  "ConfigFileParser file table s = (case file of
       None \<Rightarrow> Some (Inr (table, s))
     | Some content \<Rightarrow> do {
         r \<leftarrow> config_lines (fgets_lines content) (False, table, s);
         Some (case r of Inl err \<Rightarrow> Inl err | Inr (_, table', s') \<Rightarrow> Inr (table', s')) })"

section \<open>The default file\<close>

datatype Modefier_t = MOD_NONE | MOD_QUOTED

datatype source =
    OutText "ConfigSetup_t \<Rightarrow> string"
  | OutInt "ConfigSetup_t \<Rightarrow> int"
  | OutUnsigned "ConfigSetup_t \<Rightarrow> int"

record OutputValueStruct_t =
  sDescription :: "string list"
  oParamName :: string
  oParamType :: Input_t
  iModefier :: Modefier_t
  oParam :: source

abbreviation out_setting :: "string list \<Rightarrow> string \<Rightarrow> Input_t \<Rightarrow> Modefier_t \<Rightarrow> source \<Rightarrow> OutputValueStruct_t" where
  "out_setting d nm ty m p \<equiv> \<lparr>sDescription = d, oParamName = nm, oParamType = ty, iModefier = m, oParam = p\<rparr>"

definition vsConfig :: "OutputValueStruct_t list" where
  "vsConfig =
    [out_setting [''#'', ''# The name of the bot'', ''#''] ''botname'' PARAM_STRING MOD_NONE (OutText cfg_pBotname),
     out_setting [''#'', ''# String for the realname'', ''#''] ''realname'' PARAM_STRING MOD_QUOTED (OutText cfg_realname),
     out_setting [''#'', ''# Execute the bot as this user and this group'', ''#''] ''user'' PARAM_STRING MOD_NONE (OutText sExeUser),
     out_setting [] ''group'' PARAM_STRING MOD_NONE (OutText sExeGroup),
     out_setting [''#'', ''# Number of the created threads'', ''#''] ''threadlimit'' PARAM_INT MOD_NONE (OutUnsigned thread_limit),
     out_setting [''#'', ''# The hostname and the portnumber of the irc server for the connecting of the bot'', ''#'']
       ''hostname'' PARAM_STRING MOD_NONE (OutText cfg_sHostname),
     out_setting [] ''port'' PARAM_STRING MOD_NONE (OutText sPort),
     out_setting [''#'', ''# The location of the database for the bot'', ''#''] ''databasepath'' PARAM_STRING MOD_NONE (OutText pDatabasePath),
     out_setting [''#'', ''# The delay time in millisecond for seding'', ''# It is used for prevention of excess flooding'', ''#'']
       ''fastsenddelay'' PARAM_INT MOD_NONE (OutInt iSendDelay),
     out_setting [] ''slowsenddelay'' PARAM_INT MOD_NONE (OutInt nSlowSendDelay),
     out_setting [] ''fastsendlimit'' PARAM_INT MOD_NONE (OutInt nFastSendingCharLimit),
     out_setting [''#'', ''# The delay of the start from the startup initialization'', ''#''] ''initdelay'' PARAM_INT MOD_NONE (OutUnsigned nSettling),
     out_setting [''#'', ''# The time in days an account exists.'', ''# Unused accounts will be removed after this time.'', ''#'']
       ''accountlivetime'' PARAM_INT MOD_NONE (OutUnsigned AccountLiveTime),
     out_setting [''#'', ''# The time limit in days for maximum login time'', ''#''] ''autologoff'' PARAM_INT MOD_NONE (OutUnsigned AutoLoggoff),
     out_setting [''#'', ''# The time limit in seconds for ping timeout.'', ''#''] ''pingtimeout'' PARAM_INT MOD_NONE (OutInt iTimeout),
     out_setting [''#'', ''# The level of the output (0-7)'', ''#''] ''loglevel'' PARAM_INT MOD_NONE (OutUnsigned nLogLevel)]"

text \<open>The conversion \<open>%d\<close> reads the bits of an unsigned field as an \<open>int\<close>.\<close>

definition out_value :: "OutputValueStruct_t \<Rightarrow> ConfigSetup_t \<Rightarrow> string c_result" where
  "out_value e s = (case (oParamType e, oParam e) of
       (PARAM_INT, OutInt f) \<Rightarrow> Some (show_long (f s))
     | (PARAM_INT, OutUnsigned f) \<Rightarrow> Some (show_long (if f s < 2 ^ 31 then f s else f s - 2 ^ 32))
     | (PARAM_STRING, OutText f) \<Rightarrow> Some (case iModefier e of MOD_NONE \<Rightarrow> f s | MOD_QUOTED \<Rightarrow> DQ # f s @ [DQ])
     | _ \<Rightarrow> None)"

definition out_entry :: "OutputValueStruct_t \<Rightarrow> ConfigSetup_t \<Rightarrow> string c_result" where
  "out_entry e s = do {
     v \<leftarrow> out_value e s;
     Some (concat (map (\<lambda>d. d @ [NL]) (filter (\<lambda>d. d \<noteq> []) (sDescription e)))
           @ oParamName e @ CHR ''='' # v @ [NL]) }"

fun out_entries :: "OutputValueStruct_t option list \<Rightarrow> ConfigSetup_t \<Rightarrow> string c_result" where
  "out_entries [] s = Some []"
| "out_entries (None # es) s = None"
| "out_entries (Some e # es) s = do { l \<leftarrow> out_entry e s; r \<leftarrow> out_entries es s; Some (l @ r) }"

text \<open>
  The array has as many entries as there are settings that can be read, but only the first sixteen
  are initialised: the loop goes on to an entry whose name is the null pointer.  The result is the error number and
  the content of the file.
\<close>

definition vsConfig_array :: "OutputValueStruct_t option list" where
  "vsConfig_array = map Some vsConfig @ replicate (length vsInputConfig - length vsConfig) None"

definition write_baseconfig :: "int \<Rightarrow> ConfigSetup_t \<Rightarrow> (int \<times> string) c_result" where
  "write_baseconfig open_errno s =
     (if open_errno \<noteq> 0 then Some (open_errno, [])
      else do { t \<leftarrow> out_entries vsConfig_array s; Some (0, t) })"

section \<open>Lines and texts\<close>

lemma fgets_take_line: "NL \<notin> set l \<Longrightarrow> length l < n \<Longrightarrow> fgets_take n (l @ NL # rest) = (l @ [NL], rest)"
proof (induction l arbitrary: n)
  case Nil
  then show ?case by (cases n) auto
next
  case (Cons c l)
  then show ?case by (cases n) auto
qed

definition one_line :: "string \<Rightarrow> bool" where
  "one_line l \<longleftrightarrow> NL \<notin> set l \<and> CHR 0x00 \<notin> set l \<and> length l < MAX_READ_BUFFER_SIZE - 1"

lemma fgets_lines_line: "one_line l \<Longrightarrow> fgets_lines (l @ NL # rest) = (l @ [NL]) # fgets_lines rest"
proof -
  assume l: "one_line l"
  then have "c_string (l @ [NL]) = l @ [NL]"
    by (auto simp: c_string_def one_line_def takeWhile_eq_all_conv)
  with l show ?thesis
    by (subst fgets_lines.simps) (simp add: fgets_take_line one_line_def)
qed

lemma fgets_lines_concat:
  "list_all one_line ls \<Longrightarrow> fgets_lines (concat (map (\<lambda>l. l @ [NL]) ls) @ rest) = map (\<lambda>l. l @ [NL]) ls @ fgets_lines rest"
  by (induction ls) (simp_all add: fgets_lines_line)

lemma fgets_lines_Nil [simp]: "fgets_lines [] = []"
  by (simp add: fgets_lines.simps)

lemma trim_line: "trimmed l \<Longrightarrow> trim (l @ [NL]) = l"
proof -
  assume l: "trimmed l"
  have "trim_out al (l @ [NL]) = trim_out al l" for al
    by (induction l arbitrary: al) (auto simp: is_ws_def)
  with l show ?thesis using trim_id[of l] by (simp add: trim_eq)
qed

definition plain_text :: "string \<Rightarrow> bool" where
  "plain_text v \<longleftrightarrow> (\<forall>c \<in> set v. \<not> is_ws c \<and> c \<noteq> DQ \<and> c \<noteq> CHR 0x00)"

definition spaced_text :: "string \<Rightarrow> bool" where
  "spaced_text v \<longleftrightarrow> trimmed v \<and> DQ \<notin> set v \<and> CHR 0x00 \<notin> set v"

lemma single_spaced_plain:
  "\<forall>c \<in> set p. \<not> is_ws c \<Longrightarrow> single_spaced al (p @ x) \<longleftrightarrow> single_spaced (al \<or> p \<noteq> []) x"
  by (induction p arbitrary: al) (auto simp: is_ws_def)

lemma single_spaced_end: "single_spaced al v \<Longrightarrow> \<not> is_ws c \<Longrightarrow> single_spaced (al \<or> b) (v @ [c])"
proof (induction v arbitrary: al b)
  case (Cons a v)
  from Cons.prems Cons.IH[of False False] Cons.IH[of True False] show ?case by (auto split: if_splits)
qed (simp add: is_ws_def)

lemma clearspace_plain: "\<forall>c \<in> set p. \<not> is_ws c \<and> c \<noteq> DQ \<Longrightarrow> clearspace_out False (p @ x) = p @ clearspace_out False x"
  by (induction p) (auto simp: is_ws_def)

lemma clearspace_quoted: "DQ \<notin> set v \<Longrightarrow> clearspace_out True (v @ x) = v @ clearspace_out True x"
  by (induction v) auto

text \<open>The line of a setting, with a plain or a quoted value.\<close>

lemma config_line_key:
  assumes "clearspace (trim l) = k @ CHR ''='' # v" "k \<noteq> []" "hd k \<noteq> COMMENT_CHAR" "CHR ''='' \<notin> set k"
  shows "config_line l = Some (Some (k, v))"
proof -
  have "strtok_cut (CHR ''='') (k @ CHR ''='' # v) = k"
    using assms(2,4) by (subst strtok_cut_simple) (auto simp: takeWhile_upto, metis list.set_sel(1))
  then show ?thesis using assms by (simp add: config_line_def strchr_append)
qed

lemma config_line_plain:
  assumes "plain_text k" "plain_text v" "k \<noteq> []" "hd k \<noteq> COMMENT_CHAR" "CHR ''='' \<notin> set k"
  shows "config_line (k @ CHR ''='' # v @ [NL]) = Some (Some (k, v))"
proof (rule config_line_key[OF _ assms(3-5)])
  let ?l = "k @ CHR ''='' # v"
  have p: "\<forall>c \<in> set ?l. \<not> is_ws c \<and> c \<noteq> DQ" using assms(1,2) by (auto simp: plain_text_def is_ws_def)
  then have "trimmed ?l" using single_spaced_plain[of ?l False "[]"] by (simp add: trimmed_def)
  then have "trim (?l @ [NL]) = ?l" by (rule trim_line)
  then show "clearspace (trim (k @ CHR ''='' # v @ [NL])) = ?l"
    using clearspace_plain[OF p, of "[]"] by (simp add: clearspace_eq)
qed

lemma config_line_quoted:
  assumes "plain_text k" "spaced_text v" "k \<noteq> []" "hd k \<noteq> COMMENT_CHAR" "CHR ''='' \<notin> set k"
  shows "config_line (k @ CHR ''='' # (DQ # v @ [DQ]) @ [NL]) = Some (Some (k, v))"
proof (rule config_line_key[OF _ assms(3-5)])
  let ?p = "k @ [CHR ''='']"
  have p: "\<forall>c \<in> set ?p. \<not> is_ws c \<and> c \<noteq> DQ" using assms(1) by (auto simp: plain_text_def is_ws_def)
  have dq: "\<not> is_ws DQ" by (simp add: is_ws_def)
  have "\<forall>c \<in> set (?p @ [DQ]). \<not> is_ws c" using p dq by auto
  moreover have "single_spaced True (v @ [DQ])"
    using assms(2) single_spaced_end[of False v DQ True] dq by (simp add: spaced_text_def trimmed_def)
  ultimately have "trimmed (?p @ DQ # v @ [DQ])"
    using single_spaced_plain[of "?p @ [DQ]" False "v @ [DQ]"] by (simp add: trimmed_def)
  then have "trim ((?p @ DQ # v @ [DQ]) @ [NL]) = ?p @ DQ # v @ [DQ]" by (rule trim_line)
  moreover have "clearspace (?p @ DQ # v @ [DQ]) = ?p @ v"
    using clearspace_plain[OF p] clearspace_quoted[of v "[DQ]"] assms(2) by (simp add: clearspace_eq spaced_text_def)
  ultimately show "clearspace (trim (k @ CHR ''='' # (DQ # v @ [DQ]) @ [NL])) = k @ CHR ''='' # v" by simp
qed

lemma config_line_comment: "config_line (COMMENT_CHAR # d @ [NL]) = Some None"
proof -
  have "clearspace (trim (COMMENT_CHAR # d @ [NL])) \<noteq> [] \<and> hd (clearspace (trim (COMMENT_CHAR # d @ [NL]))) = COMMENT_CHAR"
  proof -
    obtain r where r: "trim_out True (d @ [NL]) = r" by blast
    then have "trim (COMMENT_CHAR # d @ [NL]) = COMMENT_CHAR # drop_last_space r"
      by (simp add: trim_eq is_ws_def drop_last_space_Cons) (simp add: drop_last_space_def)
    then show ?thesis by (simp add: clearspace_eq)
  qed
  then show ?thesis by (simp add: config_line_def Let_def)
qed

section \<open>Settings within their bounds\<close>

text \<open>What the reader of the file and of the command line keep of the setup.\<close>

definition port_ok :: "string \<Rightarrow> bool" where
  "port_ok p \<longleftrightarrow> (case atoi p of None \<Rightarrow> False | Some n \<Rightarrow> 1 \<le> n \<and> n \<le> 65536)"

definition days_ok :: "int \<Rightarrow> bool" where
  "days_ok n \<longleftrightarrow> 0 \<le> n \<and> n < 2 ^ 31"

definition setup_ok :: "ConfigSetup_t \<Rightarrow> bool" where
  "setup_ok s \<longleftrightarrow> 1 \<le> thread_limit s \<and> thread_limit s \<le> MAX_THREADS_LIMIT
     \<and> days_ok (AccountLiveTime s) \<and> days_ok (AutoLoggoff s) \<and> days_ok (iSendDelay s)
     \<and> days_ok (nSlowSendDelay s) \<and> days_ok (nFastSendingCharLimit s) \<and> days_ok (nSettling s)
     \<and> 1 \<le> iTimeout s \<and> days_ok (iTimeout s) \<and> 0 \<le> nLogLevel s \<and> nLogLevel s \<le> MAX_LOGLEVEL
     \<and> 0 \<le> nEnableNickServIdent s \<and> nEnableNickServIdent s \<le> 1 \<and> days_ok (nNickServIdentTimeout s)
     \<and> NickStringCheck (Some (cfg_pBotname s)) \<and> \<not> strpbrk (cfg_sHostname s) SERVER_NOT_ALLOW_CHAR
     \<and> port_ok (sPort s)"

lemma atoi_bounds: "atoi v = Some n \<Longrightarrow> - (2 ^ 31) \<le> n \<and> n < 2 ^ 31"
  by (auto simp: atoi_def Let_def split: if_splits)

lemma int_checker_ok:
  "key_int_checker v r1 r2 = Some 0 \<longleftrightarrow> (\<exists>n. atoi v = Some n \<and> r1 \<le> n \<and> (r2 \<noteq> 0 \<longrightarrow> n \<le> r2) \<and> n < 2 ^ 31)"
  using atoi_bounds[of v] by (cases "atoi v") (auto simp: key_int_checker_def)

lemma set_param_Inr:
  "set_param e v s = Some (Inr s') \<longleftrightarrow>
     (case check_param e of None \<Rightarrow> True | Some c \<Rightarrow> c v (pRange1 e) (pRange2 e) = Some 0)
     \<and> store_value (iParamType e) (pParam e) v s = Some s'"
  by (auto simp: set_param_def bind_eq_Some_conv split: option.splits)

lemma set_param_ok:
  assumes "e \<in> set vsInputConfig" "setup_ok s" "set_param e v s = Some (Inr s')"
  shows "setup_ok s'"
  using assms(1) unfolding vsInputConfig_def list.set insert_iff empty_iff
  by (elim disjE FalseE; insert assms(2,3);
      clarsimp simp: set_param_Inr store_value_def int_checker_ok key_nick_checker_def key_server_checker_def
        bind_eq_Some_conv split: if_splits;
      simp add: setup_ok_def days_ok_def port_ok_def)

section \<open>The table and the reader\<close>

definition table_ok :: "InputValueStruct_t list \<Rightarrow> bool" where
  "table_ok t \<longleftrightarrow> map (isFound_update (\<lambda>_. False)) t = vsInputConfig"

definition found :: "InputValueStruct_t list \<Rightarrow> string set" where
  "found t = sParamName ` {e \<in> set t. isFound e}"

lemma foundI: "e \<in> set t \<Longrightarrow> isFound e \<Longrightarrow> sParamName e \<in> found t"
  by (auto simp: found_def)

lemma table_ok_init [simp]: "table_ok vsInputConfig"
  by (simp add: table_ok_def vsInputConfig_def)

lemma found_init [simp]: "found vsInputConfig = {}"
proof -
  have "list_all (\<lambda>e. \<not> isFound e) vsInputConfig" by (simp add: vsInputConfig_def)
  then show ?thesis by (auto simp: found_def list_all_iff)
qed

lemma names_distinct: "distinct (map sParamName vsInputConfig)"
  by (simp add: vsInputConfig_def)

lemma table_names: "table_ok t \<Longrightarrow> map sParamName t = map sParamName vsInputConfig"
  unfolding table_ok_def by (drule arg_cong[where f = "map sParamName"]) (simp add: comp_def)

lemma set_param_found: "set_param (e\<lparr>isFound := b\<rparr>) = set_param e"
  by (simp add: fun_eq_iff set_param_def cong: if_cong option.case_cong)

lemma table_entry:
  "table_ok t \<Longrightarrow> i < length t \<Longrightarrow> (t ! i)\<lparr>isFound := False\<rparr> \<in> set vsInputConfig"
  unfolding table_ok_def by (metis length_map nth_map nth_mem)

lemma search_param_Some: "search_param t k = Some i \<Longrightarrow> i < length t \<and> sParamName (t ! i) = k"
  by (induction t arbitrary: i) (auto split: if_splits)

lemma search_param_None: "search_param t k = None \<longleftrightarrow> k \<notin> sParamName ` set t"
  by (induction t) auto

lemma found_unique:
  "table_ok t \<Longrightarrow> search_param t k = Some i \<Longrightarrow> k \<in> found t \<longleftrightarrow> isFound (t ! i)"
proof -
  assume t: "table_ok t" and i: "search_param t k = Some i"
  have d: "distinct (map sParamName t)" using names_distinct table_names[OF t] by simp
  note s = search_param_Some[OF i]
  have "isFound (t ! i)" if "j < length t" "isFound (t ! j)" "sParamName (t ! j) = k" for j
    using that s d nth_eq_iff_index_eq[OF d, of i j] by simp
  then show ?thesis using s by (auto simp: found_def in_set_conv_nth)
qed

lemma table_mark:
  assumes "table_ok t" "i < length t"
  shows "table_ok (t[i := (t ! i)\<lparr>isFound := True\<rparr>])"
    and "found (t[i := (t ! i)\<lparr>isFound := True\<rparr>]) = insert (sParamName (t ! i)) (found t)"
proof -
  show "table_ok (t[i := (t ! i)\<lparr>isFound := True\<rparr>])"
    using assms unfolding table_ok_def by (simp add: map_update) (metis list_update_id nth_map)
  show "found (t[i := (t ! i)\<lparr>isFound := True\<rparr>]) = insert (sParamName (t ! i)) (found t)"
  proof (intro set_eqI iffI)
    fix x assume "x \<in> found (t[i := (t ! i)\<lparr>isFound := True\<rparr>])"
    then show "x \<in> insert (sParamName (t ! i)) (found t)"
      by (auto simp: found_def dest!: set_update_subset_insert[THEN subsetD])
  next
    fix x assume "x \<in> insert (sParamName (t ! i)) (found t)"
    then consider "x = sParamName (t ! i)"
      | j where "j < length t" "isFound (t ! j)" "x = sParamName (t ! j)" by (auto simp: found_def in_set_conv_nth)
    then show "x \<in> found (t[i := (t ! i)\<lparr>isFound := True\<rparr>])"
    proof cases
      case 1
      have "(t ! i)\<lparr>isFound := True\<rparr> \<in> set (t[i := (t ! i)\<lparr>isFound := True\<rparr>])"
        using assms(2) by (rule set_update_memI)
      from foundI[OF this] 1 show ?thesis by simp
    next
      case 2
      let ?e = "t[i := (t ! i)\<lparr>isFound := True\<rparr>] ! j"
      have "?e \<in> set (t[i := (t ! i)\<lparr>isFound := True\<rparr>])" using 2 by (simp add: nth_mem)
      moreover have "isFound ?e" "sParamName ?e = x" using 2 assms(2) by (auto simp: nth_list_update)
      ultimately show ?thesis using foundI by blast
    qed
  qed
qed

text \<open>The three ways in which a line with a setting can be read.\<close>

lemma config_step_cases:
  assumes "config_step l (el, t, s) = Some (Inr (el', t', s'))"
  obtains "config_line l = Some None" "el' = el" "t' = t" "s' = s"
  | k v where "config_line l = Some (Some (k, v))" "search_param t k = None" "\<not> el" "\<not> el'" "t' = t" "s' = s"
  | k v i where "config_line l = Some (Some (k, v))" "search_param t k = Some i" "isFound (t ! i)"
      "\<not> el'" "t' = t" "s' = s"
  | k v i where "config_line l = Some (Some (k, v))" "search_param t k = Some i" "\<not> isFound (t ! i)"
      "el'" "t' = t[i := (t ! i)\<lparr>isFound := True\<rparr>]" "set_param (t ! i) v s = Some (Inr s')"
proof -
  obtain kv where kv: "config_line l = Some kv" using assms by (cases "config_line l") (auto simp: config_step_def)
  note st = assms[unfolded config_step_def kv prod.case bind.bind_lunit]
  show thesis
  proof (cases kv)
    case None
    with st have "el' = el" "t' = t" "s' = s" by auto
    with kv None show thesis by (intro that(1)) auto
  next
    case (Some p)
    obtain k v where p: "p = (k, v)" by (cases p)
    note kv = kv[unfolded Some p] and st = st[unfolded Some p option.case prod.case]
    show thesis
    proof (cases "search_param t k")
      case None
      with st kv show thesis by (intro that(2)[OF kv None]) (auto split: if_splits)
    next
      case (Some i)
      note st = st[unfolded Some option.case Let_def]
      show thesis
      proof (cases "isFound (t ! i)")
        case True
        with st show thesis by (intro that(3)[OF kv Some True]) auto
      next
        case False
        obtain r where r: "set_param (t ! i) v s = Some r"
          using st False by (cases "set_param (t ! i) v s") auto
        with st False show thesis by (cases r) (auto intro: that(4)[OF kv Some False])
      qed
    qed
  qed
qed

lemma config_step_ok:
  assumes "config_step l (el, t, s) = Some (Inr (el', t', s'))" "table_ok t"
  shows "table_ok t' \<and> found t \<subseteq> found t' \<and> (setup_ok s \<longrightarrow> setup_ok s')
    \<and> (\<forall>k v. config_line l = Some (Some (k, v)) \<longrightarrow> k \<in> found t' \<or> k \<notin> sParamName ` set vsInputConfig)"
proof -
  have names: "sParamName ` set vsInputConfig = sParamName ` set t"
    using table_names[OF assms(2)] by (metis list.set_map)
  from assms(1) show ?thesis
  proof (cases rule: config_step_cases)
    case (4 k v i)
    note i = search_param_Some[OF 4(2)]
    have "set_param ((t ! i)\<lparr>isFound := False\<rparr>) v s = Some (Inr s')" using 4(6) by (simp add: set_param_found)
    then have "setup_ok s \<longrightarrow> setup_ok s'" using set_param_ok table_entry[OF assms(2)] i by blast
    with 4 i table_mark[OF assms(2), of i] show ?thesis by auto
  next
    case (3 k v i)
    then show ?thesis using assms(2) found_unique[OF assms(2) 3(2)] by auto
  qed (use assms(2) names search_param_None in auto)
qed

lemma config_lines_ok:
  assumes "config_lines ls (el, t, s) = Some (Inr (el', t', s'))" "table_ok t"
  shows "table_ok t' \<and> found t \<subseteq> found t' \<and> (setup_ok s \<longrightarrow> setup_ok s')
    \<and> (\<forall>l \<in> set ls. \<exists>kv. config_line l = Some kv
        \<and> (\<forall>k v. kv = Some (k, v) \<longrightarrow> k \<in> found t' \<or> k \<notin> sParamName ` set vsInputConfig))"
  using assms
proof (induction ls arbitrary: el t s)
  case (Cons l ls)
  then obtain el1 t1 s1 where st: "config_step l (el, t, s) = Some (Inr (el1, t1, s1))"
    "config_lines ls (el1, t1, s1) = Some (Inr (el', t', s'))"
    by (auto simp: bind_eq_Some_conv split: sum.splits) (metis obj_sumE prod_cases3)
  note 1 = config_step_ok[OF st(1) Cons.prems(2)]
  note 2 = Cons.IH[OF st(2) 1[THEN conjunct1]]
  obtain kv where "config_line l = Some kv" using st(1) by (cases "config_line l") (auto simp: config_step_def)
  with 1 2 show ?case by auto
qed simp

text \<open>A line whose key was found before, or is no setting, changes nothing.\<close>

lemma config_lines_again:
  assumes "table_ok t" "\<forall>l \<in> set ls. \<exists>kv. config_line l = Some kv
      \<and> (\<forall>k v. kv = Some (k, v) \<longrightarrow> k \<in> found t \<or> k \<notin> sParamName ` set vsInputConfig)"
  shows "config_lines ls (False, t, s) = Some (Inr (False, t, s))"
  using assms(2)
proof (induction ls)
  case (Cons l ls)
  then obtain kv where kv: "config_line l = Some kv"
    "\<forall>k v. kv = Some (k, v) \<longrightarrow> k \<in> found t \<or> k \<notin> sParamName ` set vsInputConfig" by auto
  have names: "sParamName ` set vsInputConfig = sParamName ` set t"
    using table_names[OF assms(1)] by (metis list.set_map)
  have "config_step l (False, t, s) = Some (Inr (False, t, s))"
  proof (cases kv)
    case (Some p)
    obtain k v where p: "p = (k, v)" by (cases p)
    show ?thesis
    proof (cases "search_param t k")
      case (Some i)
      then have "k \<in> sParamName ` set t" using search_param_Some[OF Some] by auto
      then have "isFound (t ! i)" using kv(2) \<open>kv = Some p\<close> p names found_unique[OF assms(1) Some] by auto
      with kv(1) \<open>kv = Some p\<close> p Some show ?thesis by (simp add: config_step_def)
    qed (use kv(1) \<open>kv = Some p\<close> p in \<open>simp add: config_step_def\<close>)
  qed (use kv(1) in \<open>simp add: config_step_def\<close>)
  with Cons show ?case by simp
qed simp

text \<open>The lines of settings without spaces are a text format for pairs of a key and a value.\<close>

definition setting_line_of :: "string \<times> string \<Rightarrow> string" where
  "setting_line_of = (\<lambda>(k, v). k @ CHR ''='' # v @ [NL])"

definition plain_setting :: "string \<times> string \<Rightarrow> bool" where
  "plain_setting = (\<lambda>(k, v). plain_text k \<and> plain_text v \<and> k \<noteq> [] \<and> hd k \<noteq> COMMENT_CHAR \<and> CHR ''='' \<notin> set k)"

interpretation setting_lines: text_format setting_line_of "\<lambda>l. Option.bind (config_line l) id" plain_setting
  by unfold_locales (auto simp: setting_line_of_def plain_setting_def config_line_plain)

section \<open>Reading back what was written\<close>

text \<open>The texts that survive the file format fit a line and keep their spaces, and the reader wants at
  least one day for the automatic logoff.\<close>

definition readable_setup :: "ConfigSetup_t \<Rightarrow> bool" where
  "readable_setup s \<longleftrightarrow> list_all (\<lambda>v. plain_text v \<and> length v \<le> 200)
       [cfg_pBotname s, sExeUser s, sExeGroup s, cfg_sHostname s, sPort s, pDatabasePath s]
     \<and> spaced_text (cfg_realname s) \<and> length (cfg_realname s) \<le> 200 \<and> 1 \<le> AutoLoggoff s"

definition copies :: "(ConfigSetup_t \<Rightarrow> ConfigSetup_t \<Rightarrow> ConfigSetup_t) list" where
  "copies = [\<lambda>s. cfg_pBotname_update (\<lambda>_. cfg_pBotname s), \<lambda>s. cfg_realname_update (\<lambda>_. cfg_realname s),
     \<lambda>s. sExeUser_update (\<lambda>_. sExeUser s), \<lambda>s. sExeGroup_update (\<lambda>_. sExeGroup s),
     \<lambda>s. thread_limit_update (\<lambda>_. thread_limit s), \<lambda>s. cfg_sHostname_update (\<lambda>_. cfg_sHostname s),
     \<lambda>s. sPort_update (\<lambda>_. sPort s), \<lambda>s. pDatabasePath_update (\<lambda>_. pDatabasePath s),
     \<lambda>s. iSendDelay_update (\<lambda>_. iSendDelay s), \<lambda>s. nSlowSendDelay_update (\<lambda>_. nSlowSendDelay s),
     \<lambda>s. nFastSendingCharLimit_update (\<lambda>_. nFastSendingCharLimit s), \<lambda>s. nSettling_update (\<lambda>_. nSettling s),
     \<lambda>s. AccountLiveTime_update (\<lambda>_. AccountLiveTime s), \<lambda>s. AutoLoggoff_update (\<lambda>_. AutoLoggoff s),
     \<lambda>s. iTimeout_update (\<lambda>_. iTimeout s), \<lambda>s. nLogLevel_update (\<lambda>_. nLogLevel s)]"

abbreviation small :: "ConfigSetup_t \<Rightarrow> bool" where
  "small s \<equiv> 0 \<le> thread_limit s \<and> thread_limit s < 2 ^ 16"

text \<open>
  The value that the writer prints for an entry \<open>w\<close> is one that the reader takes for the entry \<open>e\<close>, and
  storing it copies a field of \<open>s\<close>.
\<close>

definition stores :: "ConfigSetup_t \<Rightarrow> OutputValueStruct_t \<Rightarrow> InputValueStruct_t \<Rightarrow> (ConfigSetup_t \<Rightarrow> ConfigSetup_t \<Rightarrow> ConfigSetup_t)
    \<Rightarrow> bool" where
  "stores s w e c \<longleftrightarrow> (\<exists>u. (out_value w s = Some u \<and> plain_text u \<or> out_value w s = Some (DQ # u @ [DQ]) \<and> spaced_text u)
     \<and> length u \<le> 200
     \<and> (\<forall>s0. small s0 \<longrightarrow> set_param e u s0 = Some (Inr (c s s0)) \<and> small (c s s0)))"

lemma plain_digits: "plain_text (show_long n)"
proof -
  have d: "\<not> is_ws c \<and> c \<noteq> DQ \<and> c \<noteq> CHR 0x00" if "isdigit_c c" for c
    using that by (auto simp: isdigit_c_def is_ws_def)
  show ?thesis
    using d dec_digits_isdigit by (auto simp: plain_text_def show_long_def is_ws_def)
qed

lemma dec_digits_length: "n < 10 ^ Suc m \<Longrightarrow> length (dec_digits n) \<le> Suc m"
proof (induction m arbitrary: n)
  case 0
  then show ?case by (subst dec_digits.simps) simp
next
  case (Suc m)
  then show ?case by (subst dec_digits.simps) (simp add: less_mult_imp_div_less)
qed

lemma show_long_length: "days_ok n \<Longrightarrow> length (show_long n) \<le> 200"
proof -
  assume n: "days_ok n"
  then have "nat n < 10 ^ Suc 9" by (simp add: days_ok_def nat_less_iff)
  from dec_digits_length[OF this] n show ?thesis by (simp add: show_long_def days_ok_def)
qed

lemma atoi_show_long: "days_ok n \<Longrightarrow> atoi (show_long n) = Some n"
  by (simp add: atoi_def atol_show_long days_ok_def)

lemma one_line_setting:
  "plain_text k \<Longrightarrow> length k \<le> 30 \<Longrightarrow> (\<forall>c \<in> set v. c \<noteq> NL \<and> c \<noteq> CHR 0x00) \<Longrightarrow> length v \<le> 202 \<Longrightarrow> one_line (k @ CHR ''='' # v)"
  by (auto simp: one_line_def plain_text_def is_ws_def)

lemma plain_chars: "plain_text v \<Longrightarrow> \<forall>c \<in> set v. c \<noteq> NL \<and> c \<noteq> CHR 0x00"
  by (auto simp: plain_text_def is_ws_def)

lemma spaced_chars: "spaced_text v \<Longrightarrow> \<forall>c \<in> set v. c \<noteq> NL \<and> c \<noteq> CHR 0x00"
  using trimmed_ws[of v] by (auto simp: spaced_text_def is_ws_def)

lemma stores_text:
  assumes "out_value w s = Some v \<and> plain_text v \<or> out_value w s = Some (DQ # v @ [DQ]) \<and> spaced_text v" "length v \<le> 200"
    and "case check_param e of None \<Rightarrow> True | Some ch \<Rightarrow> ch v (pRange1 e) (pRange2 e) = Some 0"
    and "\<And>s0. store_value (iParamType e) (pParam e) v s0 = Some (c s s0) \<and> thread_limit (c s s0) = thread_limit s0"
  shows "stores s w e c"
  unfolding stores_def using assms by (intro exI[of _ v]) (auto simp: set_param_Inr)

lemma stores_number:
  assumes "out_value w s = Some (show_long n)" "days_ok n" "check_param e = Some key_int_checker"
    and "pRange1 e \<le> n" "pRange2 e \<noteq> 0 \<longrightarrow> n \<le> pRange2 e"
    and "\<And>s0. small s0 \<Longrightarrow> store_value (iParamType e) (pParam e) (show_long n) s0 = Some (c s s0) \<and> small (c s s0)"
  shows "stores s w e c"
  unfolding stores_def using assms plain_digits[of n] show_long_length[OF assms(2)]
  by (intro exI[of _ "show_long n"]) (auto simp: set_param_Inr int_checker_ok atoi_show_long days_ok_def)

lemma stores_table:
  assumes "setup_ok s" "readable_setup s"
  shows "list_all2 (\<lambda>w (e, c). stores s w e c) vsConfig (zip vsInputConfig copies)"
proof -
  have "days_ok (thread_limit s)" "days_ok (nLogLevel s)" using assms(1) by (auto simp: setup_ok_def days_ok_def)
  note ok = this assms(1)[unfolded setup_ok_def] assms(2)[unfolded readable_setup_def]
  have port: "key_int_checker (sPort s) 1 65536 = Some 0"
    using ok by (auto simp: int_checker_ok port_ok_def split: option.splits)
  show ?thesis
    unfolding vsConfig_def vsInputConfig_def copies_def zip_Cons_Cons zip.simps(1) list_all2_Cons list_all2_Nil prod.case
    apply (intro conjI TrueI refl)
    subgoal by (rule stores_text[where v = "cfg_pBotname s"]) (use ok port in \<open>simp_all add: out_value_def store_value_def key_nick_checker_def\<close>)
    subgoal by (rule stores_text[where v = "cfg_realname s"]) (use ok port in \<open>simp_all add: out_value_def store_value_def\<close>)
    subgoal by (rule stores_text[where v = "sExeUser s"]) (use ok port in \<open>simp_all add: out_value_def store_value_def\<close>)
    subgoal by (rule stores_text[where v = "sExeGroup s"]) (use ok port in \<open>simp_all add: out_value_def store_value_def\<close>)
    subgoal by (rule stores_number[where n = "thread_limit s"]) (use ok in \<open>simp_all add: out_value_def store_value_def atoi_show_long days_ok_def\<close>)
    subgoal by (rule stores_text[where v = "cfg_sHostname s"]) (use ok port in \<open>simp_all add: out_value_def store_value_def key_server_checker_def\<close>)
    subgoal by (rule stores_text[where v = "sPort s"]) (use ok port in \<open>simp_all add: out_value_def store_value_def\<close>)
    subgoal by (rule stores_text[where v = "pDatabasePath s"]) (use ok port in \<open>simp_all add: out_value_def store_value_def\<close>)
    subgoal by (rule stores_number[where n = "iSendDelay s"]) (use ok in \<open>simp_all add: out_value_def store_value_def atoi_show_long days_ok_def\<close>)
    subgoal by (rule stores_number[where n = "nSlowSendDelay s"]) (use ok in \<open>simp_all add: out_value_def store_value_def atoi_show_long days_ok_def\<close>)
    subgoal by (rule stores_number[where n = "nFastSendingCharLimit s"]) (use ok in \<open>simp_all add: out_value_def store_value_def atoi_show_long days_ok_def\<close>)
    subgoal by (rule stores_number[where n = "nSettling s"]) (use ok in \<open>simp_all add: out_value_def store_value_def atoi_show_long days_ok_def\<close>)
    subgoal by (rule stores_number[where n = "AccountLiveTime s"]) (use ok in \<open>simp_all add: out_value_def store_value_def atoi_show_long days_ok_def\<close>)
    subgoal by (rule stores_number[where n = "AutoLoggoff s"]) (use ok in \<open>simp_all add: out_value_def store_value_def atoi_show_long days_ok_def\<close>)
    subgoal by (rule stores_number[where n = "iTimeout s"]) (use ok in \<open>simp_all add: out_value_def store_value_def atoi_show_long days_ok_def\<close>)
    subgoal by (rule stores_number[where n = "nLogLevel s"]) (use ok in \<open>simp_all add: out_value_def store_value_def atoi_show_long days_ok_def\<close>)
    done
qed

definition key_ok :: "string \<Rightarrow> bool" where
  "key_ok k \<longleftrightarrow> plain_text k \<and> length k \<le> 30 \<and> k \<noteq> [] \<and> hd k \<noteq> COMMENT_CHAR \<and> CHR ''='' \<notin> set k"

definition comment_ok :: "string \<Rightarrow> bool" where
  "comment_ok d \<longleftrightarrow> d \<noteq> [] \<and> hd d = COMMENT_CHAR \<and> one_line d"

definition entry_ok :: "OutputValueStruct_t \<Rightarrow> bool" where
  "entry_ok w \<longleftrightarrow> key_ok (oParamName w) \<and> list_all comment_ok (sDescription w)"

lemma entries_ok: "list_all entry_ok vsConfig"
  by code_simp

lemma entry_names: "map oParamName vsConfig = map sParamName (take 16 vsInputConfig)"
  by (simp add: vsConfig_def vsInputConfig_def)

lemma comments_skipped: "list_all comment_ok ds \<Longrightarrow> config_lines (map (\<lambda>l. l @ [NL]) ds @ ls) st = config_lines ls st"
proof (induction ds)
  case (Cons d ds)
  obtain el t s where st: "st = (el, t, s)" by (cases st)
  obtain d' where "d = COMMENT_CHAR # d'" using Cons.prems by (cases d) (auto simp: comment_ok_def)
  then have "config_step (d @ [NL]) st = Some (Inr st)"
    using config_line_comment[of d'] by (simp add: config_step_def st)
  with Cons show ?case by simp
qed simp

lemma setting_line:
  assumes "stores s w e c" "entry_ok w" "sParamName e = oParamName w"
  shows "\<exists>v u. out_entry w s = Some (concat (map (\<lambda>l. l @ [NL]) (sDescription w @ [oParamName w @ CHR ''='' # v])))
     \<and> list_all one_line (sDescription w @ [oParamName w @ CHR ''='' # v])
     \<and> config_line ((oParamName w @ CHR ''='' # v) @ [NL]) = Some (Some (sParamName e, u))
     \<and> (\<forall>s0. small s0 \<longrightarrow> set_param e u s0 = Some (Inr (c s s0)) \<and> small (c s s0))"
proof -
  let ?k = "oParamName w"
  obtain u where u: "out_value w s = Some u \<and> plain_text u \<or> out_value w s = Some (DQ # u @ [DQ]) \<and> spaced_text u"
    "length u \<le> 200" "\<forall>s0. small s0 \<longrightarrow> set_param e u s0 = Some (Inr (c s s0)) \<and> small (c s s0)"
    using assms(1) by (auto simp: stores_def)
  have k: "key_ok ?k" and ds: "list_all comment_ok (sDescription w)" using assms(2) by (auto simp: entry_ok_def)
  have "\<exists>v. out_value w s = Some v \<and> config_line (?k @ CHR ''='' # v @ [NL]) = Some (Some (?k, u))
    \<and> (\<forall>c \<in> set v. c \<noteq> NL \<and> c \<noteq> CHR 0x00) \<and> length v \<le> 202"
    using u(1)
  proof (elim disjE conjE)
    assume "out_value w s = Some u" "plain_text u"
    then show ?thesis using u(2) k config_line_plain[of ?k u] plain_chars[of u]
      unfolding key_ok_def by (intro exI[of _ u]) simp
  next
    assume q: "out_value w s = Some (DQ # u @ [DQ])" "spaced_text u"
    moreover have "\<forall>c \<in> set (DQ # u @ [DQ]). c \<noteq> NL \<and> c \<noteq> CHR 0x00" using spaced_chars[OF q(2)] by auto
    ultimately show ?thesis using u(2) k config_line_quoted[of ?k u]
      unfolding key_ok_def by (intro exI[of _ "DQ # u @ [DQ]"]) simp
  qed
  then obtain v where v: "out_value w s = Some v" "config_line (?k @ CHR ''='' # v @ [NL]) = Some (Some (?k, u))"
    "\<forall>c \<in> set v. c \<noteq> NL \<and> c \<noteq> CHR 0x00" "length v \<le> 202" by blast
  have "filter (\<lambda>d. d \<noteq> []) (sDescription w) = sDescription w"
    using ds by (auto simp: filter_id_conv list_all_iff comment_ok_def)
  moreover have "list_all one_line (sDescription w)" using ds by (auto simp: list_all_iff comment_ok_def)
  moreover have "one_line (?k @ CHR ''='' # v)" using k v(3,4) by (auto simp: key_ok_def intro: one_line_setting)
  ultimately show ?thesis using v u(3) assms(3) by (intro exI[of _ v] exI[of _ u]) (simp add: out_entry_def)
qed

lemma search_param_here:
  "sParamName e \<notin> sParamName ` set D \<Longrightarrow> search_param (D @ e # R) (sParamName e) = Some (length D)"
  by (induction D) auto

text \<open>Writing some entries and reading them back, with the table in between.\<close>

abbreviation marked :: "InputValueStruct_t \<Rightarrow> InputValueStruct_t" where
  "marked e \<equiv> e\<lparr>isFound := True\<rparr>"

lemma read_entries:
  assumes "list_all2 (\<lambda>w (e, c). stores s w e c) ws ecs" "list_all entry_ok ws"
    and "map oParamName ws = map (sParamName \<circ> fst) ecs"
    and "distinct (map sParamName (D @ map fst ecs @ R))" "\<forall>e \<in> fst ` set ecs. \<not> isFound e" "small s0"
  shows "\<exists>t. out_entries (map Some ws) s = Some t
     \<and> config_lines (fgets_lines t) (el, D @ map fst ecs @ R, s0)
        = Some (Inr (el \<or> ws \<noteq> [], D @ map (marked \<circ> fst) ecs @ R, fold (\<lambda>(e, c). c s) ecs s0))"
  using assms
proof (induction ws ecs arbitrary: D s0 el rule: list_all2_induct)
  case (Cons w ws ec ecs)
  obtain e c where ec: "ec = (e, c)" by (cases ec)
  have st: "stores s w e c" "entry_ok w" "sParamName e = oParamName w" "\<not> isFound e" using Cons ec by auto
  obtain v u where v: "out_entry w s = Some (concat (map (\<lambda>l. l @ [NL]) (sDescription w @ [oParamName w @ CHR ''='' # v])))"
     "list_all one_line (sDescription w @ [oParamName w @ CHR ''='' # v])"
     "config_line ((oParamName w @ CHR ''='' # v) @ [NL]) = Some (Some (sParamName e, u))"
     "\<forall>s0. small s0 \<longrightarrow> set_param e u s0 = Some (Inr (c s s0)) \<and> small (c s s0)"
    using setting_line[OF st(1-3)] by blast
  let ?ls = "sDescription w @ [oParamName w @ CHR ''='' # v]"
  let ?t = "D @ e # map fst ecs @ R" and ?t' = "(D @ [marked e]) @ map fst ecs @ R"
  have s0: "small s0" and s1: "small (c s s0)" using Cons.prems v(4) by auto
  have "search_param ?t (sParamName e) = Some (length D)"
    using Cons.prems(3) ec by (intro search_param_here) auto
  then have step: "config_step ((oParamName w @ CHR ''='' # v) @ [NL]) (el, ?t, s0) = Some (Inr (True, ?t', c s s0))"
    using v(3,4) s0 st(4) by (simp add: config_step_def)
  have "distinct (map sParamName ((D @ [marked e]) @ map fst ecs @ R))" using Cons.prems(3) ec by simp
  with Cons.IH[of "D @ [marked e]" "c s s0" True] Cons.prems s1 ec
  obtain t where t: "out_entries (map Some ws) s = Some t"
    "config_lines (fgets_lines t) (True, ?t', c s s0)
       = Some (Inr (True, (D @ [marked e]) @ map (marked \<circ> fst) ecs @ R, fold (\<lambda>(e, c). c s) ecs (c s s0)))"
    by auto
  have "list_all comment_ok (sDescription w)" using st(2) by (simp add: entry_ok_def)
  from comments_skipped[OF this] have "config_lines (fgets_lines (concat (map (\<lambda>l. l @ [NL]) ?ls) @ t)) (el, ?t, s0)
      = config_lines (((oParamName w @ CHR ''='' # v) @ [NL]) # fgets_lines t) (el, ?t, s0)"
    unfolding fgets_lines_concat[OF v(2)] by simp
  also have "\<dots> = config_lines (fgets_lines t) (True, ?t', c s s0)" using step by simp
  finally show ?case using v(1) t ec by (intro exI[of _ "concat (map (\<lambda>l. l @ [NL]) ?ls) @ t"]) simp
qed simp

lemma ConfigFileParser_Inr:
  "ConfigFileParser (Some content) t s = Some (Inr (t', s')) \<longleftrightarrow>
     (\<exists>el. config_lines (fgets_lines content) (False, t, s) = Some (Inr (el, t', s')))"
proof (cases "config_lines (fgets_lines content) (False, t, s)")
  case (Some r)
  then show ?thesis by (cases r) (auto simp: ConfigFileParser_def)
qed (simp add: ConfigFileParser_def)

lemma table_setup_ok:
  assumes "ConfigFileParser content t s = Some (Inr (t', s'))" "table_ok t" "setup_ok s"
  shows "setup_ok s' \<and> table_ok t' \<and> found t \<subseteq> found t'"
proof (cases content)
  case None
  then show ?thesis using assms by (simp add: ConfigFileParser_def)
next
  case (Some c)
  then show ?thesis using assms config_lines_ok by (fastforce simp: ConfigFileParser_Inr)
qed

lemma config_again:
  assumes "ConfigFileParser (Some content) vsInputConfig s = Some (Inr (t, s'))"
  shows "ConfigFileParser (Some content) t s2 = Some (Inr (t, s2))"
proof -
  obtain el where "config_lines (fgets_lines content) (False, vsInputConfig, s) = Some (Inr (el, t, s'))"
    using assms by (auto simp: ConfigFileParser_Inr)
  from config_lines_ok[OF this] config_lines_again[of t "fgets_lines content" s2]
  show ?thesis by (auto simp: ConfigFileParser_Inr)
qed

section \<open>The defaults\<close>

abbreviation sample_setup :: ConfigSetup_t where
  "sample_setup \<equiv> default_setup ''/db'' ''/ebotula.conf'' 5 zero_setup"

lemma default_ok:
  assumes "0 \<le> l" "l \<le> MAX_LOGLEVEL" "0 \<le> nEnableNickServIdent s" "nEnableNickServIdent s \<le> 1" "days_ok (nNickServIdentTimeout s)"
  shows "setup_ok (default_setup d c l s)"
proof -
  have "NickStringCheck (Some ''Ebotula'')" "\<not> strpbrk ''irc.fh-lausitz.de'' SERVER_NOT_ALLOW_CHAR" "port_ok ''6667''"
    by code_simp+
  with assms show ?thesis by (simp add: setup_ok_def default_setup_def days_ok_def)
qed

lemma sample_ok: "setup_ok sample_setup"
  by (rule default_ok) (simp_all add: zero_setup_def days_ok_def)

abbreviation port_marked :: "InputValueStruct_t list" where
  "port_marked \<equiv> vsInputConfig[6 := (vsInputConfig ! 6)\<lparr>isFound := True\<rparr>]"

lemma port_step: "config_step (''port=7000'' @ [NL]) (False, vsInputConfig, sample_setup)
    = Some (Inr (True, port_marked, sample_setup\<lparr>sPort := ''7000''\<rparr>))"
proof -
  have l: "config_line (''port=7000'' @ [NL]) = Some (Some (''port'', ''7000''))"
    using config_line_plain[of "''port''" "''7000''"] by (simp add: plain_text_def is_ws_def)
  have a: "key_int_checker ''7000'' 1 65536 = Some 0" by code_simp
  show ?thesis unfolding config_step_def prod.case l
    by (simp add: vsInputConfig_def set_param_def a store_value_def)
qed

lemma port_line: "ConfigFileParser (Some (''port=7000'' @ [NL])) vsInputConfig sample_setup
    = Some (Inr (port_marked, sample_setup\<lparr>sPort := ''7000''\<rparr>))"
proof -
  have f: "fgets_lines (''port=7000'' @ [NL]) = [''port=7000'' @ [NL]]"
    using fgets_lines_line[of "''port=7000''" "[]"] by (simp add: one_line_def)
  show ?thesis unfolding ConfigFileParser_Inr f config_lines.simps port_step bind.bind_lunit sum.case by blast
qed

section \<open>Properties\<close>

text \<open>A text with a blank does not survive: the writer prints it without quotes and the reader drops the blank.\<close>

lemma blank_in_path_lost:
  "out_value (vsConfig ! 7) (sample_setup\<lparr>pDatabasePath := ''/my db''\<rparr>) = Some ''/my db''
   \<and> oParamName (vsConfig ! 7) = ''databasepath''
   \<and> config_line (''databasepath=/my db'' @ [NL]) = Some (Some (''databasepath'', ''/mydb''))"
  by code_simp



text \<open>An unknown setting after a known one makes the reader index the table at its end.\<close>

lemma unknown_setting_undefined:
  "ConfigFileParser (Some (''port=7000'' @ NL # ''colour=red'' @ [NL])) vsInputConfig sample_setup = None"
proof -
  have l: "config_line (''colour=red'' @ [NL]) = Some (Some (''colour'', ''red''))"
    using config_line_plain[of "''colour''" "''red''"] by (simp add: plain_text_def is_ws_def)
  have f: "fgets_lines (''port=7000'' @ NL # ''colour=red'' @ [NL]) = (''port=7000'' @ [NL]) # [''colour=red'' @ [NL]]"
    using fgets_lines_line[of "''port=7000''"] fgets_lines_line[of "''colour=red''" "[]"] by (simp add: one_line_def)
  have s: "search_param port_marked ''colour'' = None" by (simp add: vsInputConfig_def)
  have "config_step (''colour=red'' @ [NL]) (True, port_marked, sample_setup\<lparr>sPort := ''7000''\<rparr>) = None"
    unfolding config_step_def prod.case l bind.bind_lunit option.case s by simp
  then show ?thesis
    unfolding ConfigFileParser_def option.case f config_lines.simps port_step bind.bind_lunit sum.case by simp
qed

end
