(* ===== verification/Network.thy ===== *)
theory Network
  imports Irc Config "HOL-Library.Signed_Division"
begin

text \<open>
  The connection to the server (\<open>network.c\<close>): the protection against excess flood, which counts the
  characters sent in every minute of the last hour and chooses the delay of a message by their average; reading from the
  socket; finding a free nick name; and joining the channels.  The sockets, the resolver and the clock are
  parameters.  Counters are taken as integers: a bot that waits before every message cannot send as
  many characters in an hour as an \<open>int\<close> holds.
\<close>

abbreviation RECV_BUFFER_SIZE :: nat where "RECV_BUFFER_SIZE \<equiv> 1024"
abbreviation MAX_NICKS :: nat where "MAX_NICKS \<equiv> 3"

section \<open>The flood protection\<close>

text \<open>The static variables of the file, with \<open>nCharMinute\<close> the array of the sixty minutes.\<close>

record net =
  nCharMinute :: "int list"
  nCharPerMinute :: int
  lastTime :: int
  nLastIndex :: nat
  nItemCount :: int
  nFirstIndex :: int

definition net_init :: net where
  "net_init = \<lparr>nCharMinute = replicate 60 0, nCharPerMinute = 0, lastTime = 0, nLastIndex = 0, nItemCount = 1, nFirstIndex = - 1\<rparr>"

text \<open>Setting elements of the array to zero, undefined outside of it.\<close>

fun clear :: "nat list \<Rightarrow> int list \<Rightarrow> int list c_result" where
  "clear [] a = Some a"
| "clear (i # is) a = (if i < length a then clear is (a[i := 0]) else None)"

text \<open>
  The loops that forget old minutes, for the full minutes since the last message; the result is the array and
  the count for the current minute.
\<close>

definition reset_fields :: "int \<Rightarrow> nat \<Rightarrow> int \<Rightarrow> net \<Rightarrow> (int list \<times> int) c_result" where
  "reset_fields diffMinTime tm_min nCharCount st =
     (if diffMinTime < 60 then
        (if diffMinTime = 0 then
           (if tm_min < length (nCharMinute st) then Some (nCharMinute st, nCharCount + nCharMinute st ! tm_min) else None)
         else if nLastIndex st > tm_min then do {
           a \<leftarrow> clear [nLastIndex st..<60] (nCharMinute st);
           a \<leftarrow> clear [0..<nat diffMinTime] a;
           Some (a, nCharCount) }
         else do { a \<leftarrow> clear [nLastIndex st + 1..<tm_min] (nCharMinute st); Some (a, nCharCount) })
      else do { a \<leftarrow> clear [0..<60] (nCharMinute st); Some (a, nCharCount) })"

definition item_count :: "int \<Rightarrow> nat \<Rightarrow> net \<Rightarrow> int" where
  "item_count first tm_min st =
     (if nItemCount st < 60 \<and> nLastIndex st \<noteq> tm_min then
        (if int tm_min \<ge> first then int tm_min - first + 1 else 60 - first + int tm_min + 1)
      else nItemCount st)"

text \<open>
  \<open>GetCharPerMin\<close> at a time and the minute that \<open>localtime\<close> gives for it.  The time zero is
  the failure of \<open>time\<close>; a division by zero is undefined.
\<close>

definition GetCharPerMin :: "int \<Rightarrow> nat \<Rightarrow> int \<Rightarrow> net \<Rightarrow> (int \<times> net) c_result" where
  "GetCharPerMin currTime tm_min nCharCount st =
     (if currTime = 0 then (if nItemCount st = 0 then None else Some (0, st))
      else do {
        let diffMinTime = (if lastTime st \<noteq> 0 then (currTime - lastTime st) sdiv 60 else 0);
        (a, nCharCount) \<leftarrow> reset_fields diffMinTime tm_min nCharCount st;
        let first = (if nFirstIndex st < 0 then int tm_min else nFirstIndex st);
        let count = item_count first tm_min st;
        if tm_min < length a then
          let a = a[tm_min := nCharCount];
              nSum = sum_list a
          in if count = 0 then None
             else Some (nSum sdiv count,
                    st\<lparr>nCharMinute := a, lastTime := currTime, nFirstIndex := first, nItemCount := count,
                       nLastIndex := tm_min\<rparr>)
        else None })"

text \<open>
  A message: the delay in milliseconds, chosen by the average after the previous message, and the line.  The whole
  operation is under one mutex.
\<close>

definition SendLine_throttled :: "'f env \<Rightarrow> ConfigSetup_t \<Rightarrow> int \<Rightarrow> nat \<Rightarrow> string option \<Rightarrow> net \<times> 'f bot
    \<Rightarrow> (int option \<times> net \<times> 'f bot) c_result" where
  "SendLine_throttled E cfg currTime tm_min pMsg = (\<lambda>(st, b). case pMsg of
       None \<Rightarrow> Some (None, st, b)
     | Some m \<Rightarrow> do {
         let delay = (if nCharPerMinute st < nFastSendingCharLimit cfg then iSendDelay cfg else nSlowSendDelay cfg);
         (r, st) \<leftarrow> GetCharPerMin currTime tm_min (int (length m)) st;
         Some (Some delay, st\<lparr>nCharPerMinute := r\<rparr>, SendLine E m b) })"

section \<open>Receiving\<close>

text \<open>
  What \<open>poll\<close> and \<open>recv\<close> report: a timeout, an error, or the bytes received, none if the server
  closed the connection.
\<close>

datatype recv_result = Timeout | RecvError | Received string

text \<open>
  \<open>RecvLine\<close> writes a null byte after the bytes: past the buffer when it is full, and before it after an error.  The
  result is whether the bot stops, and the C string in the buffer.
\<close>

definition RecvLine :: "nat \<Rightarrow> recv_result \<Rightarrow> (bool \<times> string) c_result" where
  "RecvLine len r = (case r of
       Timeout \<Rightarrow> Some (True, [])
     | RecvError \<Rightarrow> None
     | Received d \<Rightarrow> if length d < len then Some (d = [], c_string d) else None)"

section \<open>Connecting\<close>

text \<open>
  \<open>connectServer\<close>: whether the name is resolved, the protocol known, and the results of \<open>socket\<close> and
  \<open>connect\<close>.  The missing name or port is only noticed when both are missing.
\<close>

definition connectServer :: "(string \<Rightarrow> bool) \<Rightarrow> bool \<Rightarrow> int \<Rightarrow> (string \<Rightarrow> int \<Rightarrow> int) \<Rightarrow> string option \<Rightarrow> string option \<Rightarrow> bool c_result" where
  "connectServer resolved protocol sockid connect_to host port =
     (if host = None \<and> port = None then Some False
      else do {
        p \<leftarrow> port;
        n \<leftarrow> atoi p;
        h \<leftarrow> host;
        if \<not> resolved h then Some False
        else if \<not> protocol then Some False
        else if sockid \<le> 0 then Some False
        else if connect_to h (n mod 2 ^ 16) < 0 then Some False
        else Some True })"

text \<open>
  The loop of \<open>ConnectToIrc\<close>; \<open>recv n\<close> is what arrives after the \<open>n\<close>-th nick name.  The counter is
  checked after the reply, so that the loop ends by itself.
\<close>

definition nick_refused :: "string \<Rightarrow> bool" where
  "nick_refused recv_buffer \<longleftrightarrow> strstr recv_buffer ''Nickname is already in use.'' \<noteq> None"

function connect_loop :: "'f env \<Rightarrow> (nat \<Rightarrow> recv_result) \<Rightarrow> nat \<Rightarrow> 'f bot \<Rightarrow> (bool \<times> 'f bot) c_result" where
  "connect_loop E recv trying b = do {
     (stopped, recv_buffer) \<leftarrow> RecvLine RECV_BUFFER_SIZE (recv (trying + 1));
     let b = nick E (Some (pBotname b)) b;
     let b = (if stopped then b\<lparr>stop := True\<rparr> else b);
     let i = nick_refused recv_buffer;
     let b = (if i then b\<lparr>pBotname := CHR ''_'' # pBotname b\<rparr> else b);
     if trying + 1 > MAX_NICKS then Some (False, b)
     else if i then connect_loop E recv (trying + 1) b
     else Some (True, b) }"
  by pat_completeness auto

termination
  by (relation "measure (\<lambda>(E, recv, trying, b). MAX_NICKS + 1 - trying)") auto

declare connect_loop.simps [simp del]

definition ConnectToIrc :: "'f env \<Rightarrow> (nat \<Rightarrow> recv_result) \<Rightarrow> 'f bot \<Rightarrow> (bool \<times> 'f bot) c_result" where
  "ConnectToIrc E recv b = connect_loop E recv 0 (user E b)"

text \<open>\<open>JoinAllChannelsThread\<close> joins what the list of channels holds when the thread starts.\<close>

definition JoinAllChannelsThread :: "'f env \<Rightarrow> 'f bot \<Rightarrow> 'f bot c_result" where
  "JoinAllChannelsThread E b = do {
     pChannelQueue \<leftarrow> list_db (gdbm E) (dbs b) CHANNEL_DB;
     Some (fold (\<lambda>c b. join E (Some c) b) pChannelQueue b) }"

section \<open>The counter stays in its array\<close>

definition net_ok :: "net \<Rightarrow> bool" where
  "net_ok st \<longleftrightarrow> length (nCharMinute st) = 60 \<and> (\<forall>x \<in> set (nCharMinute st). 0 \<le> x) \<and> nLastIndex st < 60
     \<and> 1 \<le> nItemCount st \<and> nItemCount st \<le> 60 \<and> - 1 \<le> nFirstIndex st \<and> nFirstIndex st < 60"

lemma net_ok_init: "net_ok net_init"
  by (simp add: net_ok_def net_init_def)

lemma sum_list_nonneg_update:
  "i < length a \<Longrightarrow> sum_list (a[i := (x::int)]) = sum_list a - a ! i + x"
  by (induction a arbitrary: i) (auto split: nat.splits)

text \<open>Forgetting minutes keeps the array and only lowers the counts.\<close>

definition lowers :: "int list \<Rightarrow> int list \<Rightarrow> bool" where
  "lowers a a' \<longleftrightarrow> length a' = length a \<and> (\<forall>x \<in> set a'. 0 \<le> x) \<and> sum_list a' \<le> sum_list a"

lemma clear_lowers:
  "(\<forall>i \<in> set is. i < length a) \<Longrightarrow> (\<forall>x \<in> set a. 0 \<le> x) \<Longrightarrow> \<exists>a'. clear is a = Some a' \<and> lowers a a'
     \<and> (\<forall>j. a' ! j = (if j \<in> set is then 0 else a ! j))"
proof (induction "is" arbitrary: a)
  case (Cons i "is")
  have i: "i < length a" using Cons.prems by simp
  then have "0 \<le> a ! i" using Cons.prems by simp
  moreover have "\<forall>x \<in> set (a[i := 0]). 0 \<le> x"
    using Cons.prems by (auto dest!: set_update_subset_insert[THEN subsetD])
  moreover obtain a' where "clear is (a[i := 0]) = Some a'" "lowers (a[i := 0]) a'"
    "\<forall>j. a' ! j = (if j \<in> set is then 0 else a[i := 0] ! j)"
    using Cons.IH[of "a[i := 0]"] Cons.prems calculation by auto
  ultimately show ?case using i by (auto simp: lowers_def sum_list_nonneg_update nth_list_update)
qed (simp add: lowers_def)

text \<open>The minutes whose counts are set to zero \<open>d\<close> minutes after a message in minute \<open>lm\<close>.\<close>

definition forgotten :: "int \<Rightarrow> nat \<Rightarrow> nat \<Rightarrow> nat \<Rightarrow> bool" where
  "forgotten d lm tm j \<longleftrightarrow> 60 \<le> d \<or> d \<noteq> 0 \<and> (if tm < lm then lm \<le> j \<or> int j < d else lm < j \<and> j < tm)"

lemma reset_fields_ok:
  assumes "net_ok st" "tm < 60" "0 \<le> n"
  shows "\<exists>a k. reset_fields d tm n st = Some (a, k) \<and> lowers (nCharMinute st) a
    \<and> k = (if d = 0 then n + nCharMinute st ! tm else n) \<and> (d = 0 \<longrightarrow> a = nCharMinute st)
    \<and> (\<forall>j < 60. a ! j = (if forgotten d (nLastIndex st) tm j then 0 else nCharMinute st ! j))"
proof -
  let ?a = "nCharMinute st"
  have a: "length ?a = 60" "\<forall>x \<in> set ?a. 0 \<le> x" "nLastIndex st < 60" using assms(1) by (auto simp: net_ok_def)
  consider "d = 0" | "d \<noteq> 0" "d < 60" "nLastIndex st > tm" | "d \<noteq> 0" "d < 60" "\<not> nLastIndex st > tm" | "60 \<le> d" by linarith
  then show ?thesis
  proof cases
    case 1
    then show ?thesis using a assms(2) by (simp add: reset_fields_def lowers_def forgotten_def)
  next
    case 2
    obtain a1 where a1: "clear [nLastIndex st..<60] ?a = Some a1" "lowers ?a a1"
      "\<forall>j. a1 ! j = (if j \<in> set [nLastIndex st..<60] then 0 else ?a ! j)"
      using clear_lowers[of "[nLastIndex st..<60]" ?a] a by auto
    have "nat d \<le> 60" using 2 by linarith
    then obtain a2 where a2: "clear [0..<nat d] a1 = Some a2" "lowers a1 a2"
      "\<forall>j. a2 ! j = (if j \<in> set [0..<nat d] then 0 else a1 ! j)"
      using clear_lowers[of "[0..<nat d]" a1] a1(2) a(1) 2 by (auto simp: lowers_def)
    have "\<forall>j < 60. a2 ! j = (if forgotten d (nLastIndex st) tm j then 0 else ?a ! j)"
      using 2 a1(3) a2(3) by (auto simp: forgotten_def nat_less_iff zless_nat_eq_int_zless)
    with a1(1,2) a2(1,2) 2 show ?thesis by (auto simp: reset_fields_def lowers_def)
  next
    case 3
    obtain a1 where a1: "clear [nLastIndex st + 1..<tm] ?a = Some a1" "lowers ?a a1"
      "\<forall>j. a1 ! j = (if j \<in> set [nLastIndex st + 1..<tm] then 0 else ?a ! j)"
      using clear_lowers[of "[nLastIndex st + 1..<tm]" ?a] a assms(2) by auto
    have "\<forall>j < 60. a1 ! j = (if forgotten d (nLastIndex st) tm j then 0 else ?a ! j)"
      using 3 a1(3) by (auto simp: forgotten_def)
    with a1(1,2) 3 show ?thesis by (auto simp: reset_fields_def)
  next
    case 4
    obtain a1 where "clear [0..<60] ?a = Some a1" "lowers ?a a1" "\<forall>j. a1 ! j = (if j \<in> set [0..<60] then 0 else ?a ! j)"
      using clear_lowers[of "[0..<60]" ?a] a by auto
    with 4 show ?thesis by (auto simp: reset_fields_def forgotten_def)
  qed
qed

lemma item_count_ok:
  "net_ok st \<Longrightarrow> tm < 60 \<Longrightarrow> 0 \<le> f \<Longrightarrow> f < 60 \<Longrightarrow> 1 \<le> item_count f tm st \<and> item_count f tm st \<le> 60"
  by (auto simp: item_count_def net_ok_def)

text \<open>The minutes from the first message to this one, on the dial of an hour.\<close>

lemma item_count_mod:
  assumes "tm < 60" "0 \<le> f" "f < 60"
  shows "item_count f tm st = (if nItemCount st < 60 \<and> nLastIndex st \<noteq> tm then (int tm - f) mod 60 + 1 else nItemCount st)"
proof -
  have "(int tm - f) mod 60 = (int tm - f + 60) mod 60" by simp
  then have "(int tm - f) mod 60 = (if int tm \<ge> f then int tm - f else 60 - f + int tm)"
    using assms by (cases "int tm \<ge> f") (simp, simp add: mod_pos_pos_trivial del: mod_add_self2)
  then show ?thesis by (simp add: item_count_def)
qed

text \<open>The full minutes since the last message.\<close>

definition minutes_since :: "net \<Rightarrow> int \<Rightarrow> int" where
  "minutes_since st currTime = (if lastTime st \<noteq> 0 then (currTime - lastTime st) sdiv 60 else 0)"

lemma char_count:
  assumes "net_ok st" "tm_min < 60" "0 \<le> n" "currTime \<noteq> 0"
  shows "\<exists>r st'. GetCharPerMin currTime tm_min n st = Some (r, st') \<and> net_ok st' \<and> lastTime st' = currTime
     \<and> nLastIndex st' = tm_min \<and> nFirstIndex st' = (if nFirstIndex st < 0 then int tm_min else nFirstIndex st)
     \<and> nItemCount st' = (if nItemCount st < 60 \<and> nLastIndex st \<noteq> tm_min then (int tm_min - nFirstIndex st') mod 60 + 1 else nItemCount st)
     \<and> r = sum_list (nCharMinute st') div nItemCount st' \<and> 0 \<le> r
     \<and> (\<forall>j < 60. nCharMinute st' ! j =
          (if j = tm_min then n + (if minutes_since st currTime = 0 then nCharMinute st ! tm_min else 0)
           else if forgotten (minutes_since st currTime) (nLastIndex st) tm_min j then 0 else nCharMinute st ! j))
     \<and> sum_list (nCharMinute st') \<le> sum_list (nCharMinute st) + n
     \<and> (lastTime st = 0 \<or> \<bar>currTime - lastTime st\<bar> < 60 \<longrightarrow> sum_list (nCharMinute st') = sum_list (nCharMinute st) + n)
     \<and> (lastTime st \<noteq> 0 \<and> currTime - lastTime st \<ge> 3600 \<longrightarrow> sum_list (nCharMinute st') = n)"
proof -
  let ?d = "minutes_since st currTime"
  let ?f = "if nFirstIndex st < 0 then int tm_min else nFirstIndex st"
  let ?c = "item_count ?f tm_min st"
  obtain a k where a: "reset_fields ?d tm_min n st = Some (a, k)" "lowers (nCharMinute st) a"
    "k = (if ?d = 0 then n + nCharMinute st ! tm_min else n)" "?d = 0 \<longrightarrow> a = nCharMinute st"
    "\<forall>j < 60. a ! j = (if forgotten ?d (nLastIndex st) tm_min j then 0 else nCharMinute st ! j)"
    using reset_fields_ok[OF assms(1-3)] by blast
  let ?a = "a[tm_min := k]"
  have len: "length (nCharMinute st) = 60" "length a = 60" using assms(1) a(2) by (auto simp: net_ok_def lowers_def)
  have old: "0 \<le> nCharMinute st ! tm_min" "0 \<le> a ! tm_min"
    using assms(1,2) a(2) len by (auto simp: net_ok_def lowers_def)
  have k: "n \<le> k" using a(3) old(1) by simp
  have cells: "\<forall>j < 60. ?a ! j = (if j = tm_min then n + (if ?d = 0 then nCharMinute st ! tm_min else 0)
      else if forgotten ?d (nLastIndex st) tm_min j then 0 else nCharMinute st ! j)"
    using a(3,5) assms(2) len(2) by (auto simp: nth_list_update)
  have sum: "sum_list ?a = sum_list a - a ! tm_min + k" using assms(2) len(2) by (simp add: sum_list_nonneg_update)
  have pos: "\<forall>x \<in> set ?a. 0 \<le> x"
    using a(2) k assms(3) by (auto simp: lowers_def dest!: set_update_subset_insert[THEN subsetD])
  have f: "0 \<le> ?f" "?f < 60" using assms(1,2) by (auto simp: net_ok_def)
  have c: "1 \<le> ?c \<and> ?c \<le> 60" using item_count_ok[OF assms(1,2) f] .
  have less: "sum_list ?a \<le> sum_list (nCharMinute st) + n"
    using a(2,3,4) old sum by (auto simp: lowers_def split: if_splits)
  have zero: "?d = 0" if "lastTime st = 0 \<or> \<bar>currTime - lastTime st\<bar> < 60"
    using that by (auto simp: minutes_since_def signed_divide_int_def)
  have hour: "60 \<le> ?d" if "lastTime st \<noteq> 0 \<and> currTime - lastTime st \<ge> 3600"
    using that by (auto simp: minutes_since_def signed_divide_int_def)
  have silent: "sum_list ?a = n" if "60 \<le> ?d"
  proof -
    have "a = replicate 60 0" using a(5) that len(2) by (intro nth_equalityI) (auto simp: forgotten_def)
    then show ?thesis using sum a(3) that assms(2) by (auto simp: sum_list_replicate)
  qed
  have grows: "sum_list ?a = sum_list (nCharMinute st) + n" if "?d = 0"
    using that a(3,4) sum by simp
  have r: "sum_list ?a sdiv ?c = sum_list ?a div ?c" "0 \<le> sum_list ?a div ?c"
    using c sum_list_nonneg[of ?a] pos by (auto simp: signed_divide_int_def pos_imp_zdiv_nonneg_iff sgn_if)
  let ?st = "st\<lparr>nCharMinute := ?a, lastTime := currTime, nFirstIndex := ?f, nItemCount := ?c, nLastIndex := tm_min\<rparr>"
  have "GetCharPerMin currTime tm_min n st = Some (sum_list ?a sdiv ?c, ?st)"
    using assms(2,4) a(1) len(2) c unfolding GetCharPerMin_def minutes_since_def by (simp add: Let_def)
  moreover have "net_ok ?st" using assms(1,2) len(2) pos c by (auto simp: net_ok_def)
  moreover have "nItemCount ?st = (if nItemCount st < 60 \<and> nLastIndex st \<noteq> tm_min then (int tm_min - ?f) mod 60 + 1 else nItemCount st)"
    using item_count_mod[OF assms(2) f] by simp
  ultimately show ?thesis unfolding r
    using r(2) less cells grows zero hour silent by (intro exI[of _ "sum_list ?a div ?c"] exI[of _ ?st]) simp
qed

section \<open>Connecting\<close>

abbreviation nick_line :: "nat \<Rightarrow> string \<Rightarrow> string" where
  "nick_line i name \<equiv> ''NICK '' @ replicate i (CHR ''_'') @ name @ CRLF"

lemma connect_step:
  assumes "RecvLine RECV_BUFFER_SIZE (recv (t + 1)) = Some (f, d)"
  shows "\<exists>b1. sent b1 = sent b @ [nick_line 0 (pBotname b)] \<and> dbs b1 = dbs b \<and> callbacks b1 = callbacks b
      \<and> pBotname b1 = (if nick_refused d then [CHR ''_''] else []) @ pBotname b
      \<and> connect_loop E recv t b = (if t + 1 > MAX_NICKS then Some (False, b1)
          else if nick_refused d then connect_loop E recv (t + 1) b1 else Some (True, b1))"
proof -
  let ?b = "nick E (Some (pBotname b)) b"
  let ?s = "if f then ?b\<lparr>stop := True\<rparr> else ?b"
  let ?b1 = "if nick_refused d then ?s\<lparr>pBotname := CHR ''_'' # pBotname ?s\<rparr> else ?s"
  have "connect_loop E recv t b = (if t + 1 > MAX_NICKS then Some (False, ?b1)
      else if nick_refused d then connect_loop E recv (t + 1) ?b1 else Some (True, ?b1))"
    by (subst connect_loop.simps) (simp only: assms bind.bind_lunit prod.case Let_def)
  then show ?thesis by (intro exI[of _ ?b1]) simp
qed

lemma connect_loop_ends:
  assumes "\<And>k. RecvLine RECV_BUFFER_SIZE (recv k) = Some (f k, d k)" "t \<le> 3"
  shows "\<exists>k b'. t \<le> k \<and> k \<le> 3 \<and> connect_loop E recv t b = Some (k < 3, b')
     \<and> (\<forall>i. t \<le> i \<and> i < k \<longrightarrow> nick_refused (d (i + 1))) \<and> (k < 3 \<longrightarrow> \<not> nick_refused (d (k + 1)))
     \<and> sent b' = sent b @ map (\<lambda>i. nick_line (i - t) (pBotname b)) [t..<Suc k]
     \<and> pBotname b' = replicate ((if k = 3 \<and> nick_refused (d 4) then 4 else k) - t) (CHR ''_'') @ pBotname b
     \<and> dbs b' = dbs b \<and> callbacks b' = callbacks b"
  using assms(2)
proof (induction "3 - t" arbitrary: t b)
  case 0
  then have t: "t = 3" by simp
  obtain b1 where "sent b1 = sent b @ [nick_line 0 (pBotname b)]" "dbs b1 = dbs b" "callbacks b1 = callbacks b"
    "pBotname b1 = (if nick_refused (d 4) then [CHR ''_''] else []) @ pBotname b" "connect_loop E recv t b = Some (False, b1)"
    using connect_step[of recv t "f 4" "d 4" b E] assms(1)[of 4] t by auto
  then show ?case using t by (intro exI[of _ 3] exI[of _ b1]) auto
next
  case (Suc m)
  obtain b1 where b1: "sent b1 = sent b @ [nick_line 0 (pBotname b)]" "dbs b1 = dbs b" "callbacks b1 = callbacks b"
    "pBotname b1 = (if nick_refused (d (t + 1)) then [CHR ''_''] else []) @ pBotname b"
    "connect_loop E recv t b = (if t + 1 > MAX_NICKS then Some (False, b1)
          else if nick_refused (d (t + 1)) then connect_loop E recv (t + 1) b1 else Some (True, b1))"
    using connect_step[of recv t "f (t + 1)" "d (t + 1)" b E, OF assms(1)] by (elim exE conjE) (rule that)
  have t: "t < 3" "m = 3 - (t + 1)" "t + 1 \<le> 3" using Suc(2) by auto
  show ?case
  proof (cases "nick_refused (d (t + 1))")
    case False
    then show ?thesis using b1 t(1) by (intro exI[of _ t] exI[of _ b1]) auto
  next
    case True
    obtain k b' where k: "t + 1 \<le> k" "k \<le> 3" "connect_loop E recv (t + 1) b1 = Some (k < 3, b')"
     "\<forall>i. t + 1 \<le> i \<and> i < k \<longrightarrow> nick_refused (d (i + 1))" "k < 3 \<longrightarrow> \<not> nick_refused (d (k + 1))"
     "sent b' = sent b1 @ map (\<lambda>i. nick_line (i - (t + 1)) (pBotname b1)) [t + 1..<Suc k]"
     "pBotname b' = replicate ((if k = 3 \<and> nick_refused (d 4) then 4 else k) - (t + 1)) (CHR ''_'') @ pBotname b1"
     "dbs b' = dbs b1" "callbacks b' = callbacks b1"
      using Suc(1)[OF t(2,3), of b1] by blast
    have more: "replicate (i - (t + 1)) (CHR ''_'') @ CHR ''_'' # r = replicate (i - t) (CHR ''_'') @ r" if "t < i" for i r
      using that by (metis Suc_diff_Suc Suc_eq_plus1 append_Cons append_Nil append_assoc replicate_Suc replicate_append_same)
    have "map (\<lambda>i. nick_line (i - (t + 1)) (pBotname b1)) [t + 1..<Suc k]
        = map (\<lambda>i. nick_line (i - t) (pBotname b)) [t + 1..<Suc k]"
      using True more by (intro map_cong) (auto simp: b1(4))
    moreover have "[t..<Suc k] = t # [t + 1..<Suc k]" using k(1) by (simp add: upt_conv_Cons)
    ultimately have "sent b' = sent b @ map (\<lambda>i. nick_line (i - t) (pBotname b)) [t..<Suc k]"
      using k(6) b1(1) by simp
    moreover have "pBotname b' = replicate ((if k = 3 \<and> nick_refused (d 4) then 4 else k) - t) (CHR ''_'') @ pBotname b"
      using k(1,7) True more b1(4) by auto
    moreover have "\<forall>i. t \<le> i \<and> i < k \<longrightarrow> nick_refused (d (i + 1))"
    proof (intro allI impI)
      fix i assume "t \<le> i \<and> i < k"
      then show "nick_refused (d (i + 1))" using k(4) True by (cases "i = t") auto
    qed
    ultimately show ?thesis using k b1 True t(1) by (intro exI[of _ k] exI[of _ b']) auto
  qed
qed

lemma user_fields: "pBotname (user E b) = pBotname b" "dbs (user E b) = dbs b" "callbacks (user E b) = callbacks b"
  by (simp_all add: user_line_sent)

section \<open>Properties\<close>

text \<open>C27: The protection against excess flood.  Sending a message always works out: the message goes out as it is, after a delay
  that is the slow one exactly if the average after the previous message had reached the limit.  The counter never leaves
  its array and never divides by zero, and its new state is exactly this: the count of the current minute is the length of the message, added to
  the count before if less than a minute has passed since the last message; the minutes that \<open>forgotten\<close> names count nothing, the others
  what they counted.  The average is the sum over the number of items, which grows to the minutes from the first message to this one, counted
  on the dial of an hour, until it is sixty.  So nothing is counted that was not sent, within a minute the counts
  just grow, and after an hour of silence only the message counts.  What is forgotten otherwise is not always what is older than an
  hour, as \<open>flood_window_forgets_last_minute\<close> and \<open>flood_window_counts_old_minute\<close> show.\<close>

theorem flood_protection:
  assumes "net_ok st" "tm_min < 60" "currTime \<noteq> 0" "iSendDelay cfg \<le> nSlowSendDelay cfg"
  shows "\<exists>delay st'. SendLine_throttled E cfg currTime tm_min (Some m) (st, b) = Some (Some delay, st', SendLine E m b)
     \<and> (delay = nSlowSendDelay cfg \<longleftrightarrow> nCharPerMinute st \<ge> nFastSendingCharLimit cfg \<or> nSlowSendDelay cfg = iSendDelay cfg)
     \<and> delay \<in> {iSendDelay cfg, nSlowSendDelay cfg} \<and> iSendDelay cfg \<le> delay \<and> net_ok st'
     \<and> lastTime st' = currTime \<and> nLastIndex st' = tm_min
     \<and> nFirstIndex st' = (if nFirstIndex st < 0 then int tm_min else nFirstIndex st)
     \<and> nItemCount st' = (if nItemCount st < 60 \<and> nLastIndex st \<noteq> tm_min then (int tm_min - nFirstIndex st') mod 60 + 1 else nItemCount st)
     \<and> nCharPerMinute st' = sum_list (nCharMinute st') div nItemCount st'
     \<and> (\<forall>j < 60. nCharMinute st' ! j =
          (if j = tm_min then int (length m) + (if minutes_since st currTime = 0 then nCharMinute st ! tm_min else 0)
           else if forgotten (minutes_since st currTime) (nLastIndex st) tm_min j then 0 else nCharMinute st ! j))
     \<and> sum_list (nCharMinute st') \<le> sum_list (nCharMinute st) + int (length m)
     \<and> (lastTime st = 0 \<or> \<bar>currTime - lastTime st\<bar> < 60 \<longrightarrow>
          sum_list (nCharMinute st') = sum_list (nCharMinute st) + int (length m))
     \<and> (lastTime st \<noteq> 0 \<and> currTime - lastTime st \<ge> 3600 \<longrightarrow> sum_list (nCharMinute st') = int (length m))"
proof -
  let ?delay = "if nCharPerMinute st < nFastSendingCharLimit cfg then iSendDelay cfg else nSlowSendDelay cfg"
  obtain r st1 where st1: "GetCharPerMin currTime tm_min (int (length m)) st = Some (r, st1)" "net_ok st1"
    "lastTime st1 = currTime" "nLastIndex st1 = tm_min" "nFirstIndex st1 = (if nFirstIndex st < 0 then int tm_min else nFirstIndex st)"
    "nItemCount st1 = (if nItemCount st < 60 \<and> nLastIndex st \<noteq> tm_min then (int tm_min - nFirstIndex st1) mod 60 + 1 else nItemCount st)"
    "r = sum_list (nCharMinute st1) div nItemCount st1"
    "\<forall>j < 60. nCharMinute st1 ! j =
          (if j = tm_min then int (length m) + (if minutes_since st currTime = 0 then nCharMinute st ! tm_min else 0)
           else if forgotten (minutes_since st currTime) (nLastIndex st) tm_min j then 0 else nCharMinute st ! j)"
    "sum_list (nCharMinute st1) \<le> sum_list (nCharMinute st) + int (length m)"
    "lastTime st = 0 \<or> \<bar>currTime - lastTime st\<bar> < 60 \<longrightarrow> sum_list (nCharMinute st1) = sum_list (nCharMinute st) + int (length m)"
    "lastTime st \<noteq> 0 \<and> currTime - lastTime st \<ge> 3600 \<longrightarrow> sum_list (nCharMinute st1) = int (length m)"
    using char_count[OF assms(1,2) of_nat_0_le_iff assms(3), of "length m"] by (elim exE conjE) (rule that)
  have "?delay = nSlowSendDelay cfg \<longleftrightarrow> nCharPerMinute st \<ge> nFastSendingCharLimit cfg \<or> nSlowSendDelay cfg = iSendDelay cfg"
    "?delay \<in> {iSendDelay cfg, nSlowSendDelay cfg}" "iSendDelay cfg \<le> ?delay" using assms(4) by auto
  moreover have "SendLine_throttled E cfg currTime tm_min (Some m) (st, b) = Some (Some ?delay, st1\<lparr>nCharPerMinute := r\<rparr>, SendLine E m b)"
    using st1(1) by (simp add: SendLine_throttled_def)
  moreover have "net_ok (st1\<lparr>nCharPerMinute := r\<rparr>)" using st1(2) by (simp add: net_ok_def)
  moreover have fields: "nCharMinute (st1\<lparr>nCharPerMinute := r\<rparr>) = nCharMinute st1" "lastTime (st1\<lparr>nCharPerMinute := r\<rparr>) = lastTime st1"
    "nLastIndex (st1\<lparr>nCharPerMinute := r\<rparr>) = nLastIndex st1" "nFirstIndex (st1\<lparr>nCharPerMinute := r\<rparr>) = nFirstIndex st1"
    "nItemCount (st1\<lparr>nCharPerMinute := r\<rparr>) = nItemCount st1" "nCharPerMinute (st1\<lparr>nCharPerMinute := r\<rparr>) = r" by simp_all
  ultimately show ?thesis
    by (intro exI[of _ ?delay] exI[of _ "st1\<lparr>nCharPerMinute := r\<rparr>"], unfold fields) (intro conjI; (assumption | rule st1))
qed

lemma flood_protection_witness:
  "\<exists>st'. SendLine_throttled exact_env sample_setup 600 10 (Some ''QUIT'') (net_init, empty_bot)
     = Some (Some 1500, st', SendLine exact_env ''QUIT'' empty_bot) \<and> net_ok st'"
proof -
  have le: "(10::nat) < 60" "(600::int) \<noteq> 0" "iSendDelay sample_setup \<le> nSlowSendDelay sample_setup"
    by (simp_all add: default_setup_def)
  from flood_protection[OF net_ok_init le, of exact_env "''QUIT''" empty_bot]
  obtain delay st' where st': "SendLine_throttled exact_env sample_setup 600 10 (Some ''QUIT'') (net_init, empty_bot)
     = Some (Some delay, st', SendLine exact_env ''QUIT'' empty_bot)" "net_ok st'"
    by (elim exE conjE) (rule that)
  have "nCharPerMinute net_init < nFastSendingCharLimit sample_setup" "iSendDelay sample_setup = 1500"
    by (simp_all add: net_init_def default_setup_def)
  then have "delay = 1500" using st'(1) unfolding SendLine_throttled_def by (auto simp: bind_eq_Some_conv)
  with st' show ?thesis by blast
qed

text \<open>C28: Finding a nick name ends: after at most four attempts the bot either has a name that was not refused, or gives
  up.  The names it tries have one more underscore each, the lines it sends are the registration and one line
  for each name, and nothing but the name, the trace and the stop flag changes.  Only three of the four names count: the
  bot gives up after the fourth even if the server takes it.\<close>

theorem nick_search_ends:
  assumes "\<And>k. RecvLine RECV_BUFFER_SIZE (recv k) = Some (f k, d k)"
  shows "\<exists>k b'. k \<le> 3 \<and> ConnectToIrc E recv b = Some (k < 3, b')
     \<and> (\<forall>i < k. nick_refused (d (i + 1))) \<and> (k < 3 \<longrightarrow> \<not> nick_refused (d (k + 1)))
     \<and> sent b' = sent (user E b) @ map (\<lambda>i. nick_line i (pBotname b)) [0..<Suc k]
     \<and> pBotname b' = replicate (if k = 3 \<and> nick_refused (d 4) then 4 else k) (CHR ''_'') @ pBotname b
     \<and> dbs b' = dbs b \<and> callbacks b' = callbacks b"
  using connect_loop_ends[of recv f d 0 E "user E b", OF assms]
  unfolding ConnectToIrc_def user_fields minus_nat.diff_0 by (simp only: le0 simp_thms)

lemma nick_search_ends_witness:
  "\<exists>(k::nat) b'. k \<le> 3 \<and> ConnectToIrc exact_env (\<lambda>_. Received (''welcome'' @ CRLF)) empty_bot = Some (k < 3, b')
     \<and> (k < 3 \<longrightarrow> \<not> nick_refused (''welcome'' @ CRLF))"
proof -
  have "RecvLine RECV_BUFFER_SIZE (Received (''welcome'' @ CRLF)) = Some (False, ''welcome'' @ CRLF)" by code_simp
  from nick_search_ends[of "\<lambda>_. Received (''welcome'' @ CRLF)" "\<lambda>_. False" "\<lambda>_. ''welcome'' @ CRLF" exact_env empty_bot, OF this]
  show ?thesis by blast
qed

text \<open>C33: The thread that joins the channels sends one line for every channel of the database, whatever
  the database holds, and changes nothing else.\<close>

theorem all_channels_joined:
  assumes "env_ok E"
  shows "\<exists>ks b'. JoinAllChannelsThread E b = Some b' \<and> distinct ks \<and> set ks = dom (view (gdbm E) (dbs b) CHANNEL_DB)
     \<and> sent b' = sent b @ map (\<lambda>c. ''JOIN '' @ c @ CRLF) ks \<and> sends b b'"
proof -
  obtain ks where ks: "list_db (gdbm E) (dbs b) CHANNEL_DB = Some ks" "distinct ks" "set ks = dom (view (gdbm E) (dbs b) CHANNEL_DB)"
    using list_view[of "gdbm E" CHANNEL_DB "dbs b"] assms by (auto simp: env_ok_def)
  have "sent (fold (\<lambda>c b. join E (Some c) b) cs b) = sent b @ map (\<lambda>c. ''JOIN '' @ c @ CRLF) cs
      \<and> sends b (fold (\<lambda>c b. join E (Some c) b) cs b)" for cs b
    by (induction cs arbitrary: b) (auto intro: sends_trans[OF sends_SendLine])
  with ks show ?thesis by (auto simp: JoinAllChannelsThread_def)
qed

lemma distinct_single:
  assumes "distinct xs" "set xs = {a}"
  shows "xs = [a]"
proof -
  have "length xs = 1" using assms distinct_card[of xs] by simp
  then obtain x where "xs = [x]" by (auto simp: length_Suc_conv)
  then show ?thesis using assms(2) by simp
qed

lemma channel_bot: "dbs (snd (db_add exact_env CHANNEL_DB (Some ''#c'') (Some [TAB, TAB]) empty_bot)) CHANNEL_DB = [(''#c'', [TAB, TAB])]"
  by code_simp

lemma all_channels_joined_witness:
  "\<exists>(b :: (string \<times> string) list bot) b'. dbs b CHANNEL_DB = [(''#c'', [TAB, TAB])]
     \<and> JoinAllChannelsThread exact_env b = Some b' \<and> sent b' = sent b @ [''JOIN #c'' @ CRLF]"
proof -
  obtain b :: "(string \<times> string) list bot" where b: "dbs b CHANNEL_DB = [(''#c'', [TAB, TAB])]" by (rule that[OF channel_bot])
  obtain ks b' where k: "JoinAllChannelsThread exact_env b = Some b'" "distinct ks" "set ks = dom (view (gdbm exact_env) (dbs b) CHANNEL_DB)"
    "sent b' = sent b @ map (\<lambda>c. ''JOIN '' @ c @ CRLF) ks"
    using all_channels_joined[OF exact_env_ok, of b] by blast
  have "dom (view (gdbm exact_env) (dbs b) CHANNEL_DB) = {''#c''}"
    using b by (simp add: view_def get_dbf_def exact_env_def alist_gdbm_def)
  then have "ks = [''#c'']" using distinct_single[OF k(2)] k(3) by simp
  then show ?thesis using b k(1,4) by (intro exI[of _ b] exI[of _ b']) simp
qed

section \<open>What the counter forgets\<close>

text \<open>
  At the turn of the hour the minute of the last message is forgotten, though it is hardly over: after 9000 characters
  in the minute 59, the first message of the next hour finds a window with only itself in it.
\<close>

lemma flood_window_forgets_last_minute:
  "map_option fst (GetCharPerMin 3661 1 10 (net_init\<lparr>nCharMinute := (replicate 60 0)[59 := 9000], lastTime := 3599,
     nLastIndex := 59, nItemCount := 60, nFirstIndex := 0\<rparr>)) = Some 0"
  by code_simp

text \<open>
  A message in a new minute less than sixty seconds after the last one is added to what was counted for this minute
  an hour ago.
\<close>

lemma flood_window_counts_old_minute:
  "map_option (\<lambda>(r, st). nCharMinute st ! 1) (GetCharPerMin 3660 1 10 (net_init\<lparr>nCharMinute := (replicate 60 0)[1 := 9000], lastTime := 3659,
     nLastIndex := 0, nItemCount := 60, nFirstIndex := 0\<rparr>)) = Some 9010"
  by code_simp

end
