(* ===== verification/MainLoop.thy ===== *)
theory MainLoop
  imports Parser Network
begin

text \<open>
  The main loop of \<open>AppMain\<close>: a block of bytes from the server is appended to what the last one left over,
  cut into lines at the carriage returns, and the lines are parsed and pushed on the queue.  The queue is
  here the list of messages it holds, which the heap structure refines.
\<close>

section \<open>Cutting lines\<close>

text \<open>
  The inner loop on the text at \<open>pCurrStringPos\<close>.  A carriage return becomes a null byte, and the position moves
  two characters on, over the line feed; but when the text ends with the carriage return the position
  stays at the start of the line that was just parsed, which is now the rest of the text.
\<close>

function cut_lines :: "string \<Rightarrow> string list \<times> string" where
  "cut_lines pCurrStringPos = (case strchr pCurrStringPos CR of
       None \<Rightarrow> ([], pCurrStringPos)
     | Some pStrPos \<Rightarrow>
         let pCurrLine = takeWhile (\<lambda>c. c \<noteq> CR) pCurrStringPos;
             pStrPos = drop 1 pStrPos
         in if pStrPos \<noteq> [] then
              let (ls, rest) = cut_lines (drop 1 pStrPos) in (pCurrLine # ls, rest)
            else ([pCurrLine], pCurrLine))"
  by pat_completeness auto

termination
  by (relation "measure length") (auto dest!: strchr_Some)

declare cut_lines.simps [simp del]

text \<open>Parsing the lines of a block and pushing the messages that are recognised.\<close>

fun parse_lines :: "'f env \<Rightarrow> string list \<Rightarrow> MsgBuf_t list \<times> 'f bot \<Rightarrow> (MsgBuf_t list \<times> 'f bot) c_result" where
  "parse_lines E [] qb = Some qb"
| "parse_lines E (pCurrLine # ls) (q, b) = do {
     (sMsg, b) \<leftarrow> preParser E pCurrLine b;
     parse_lines E ls (if identify sMsg \<noteq> CMD_NONE then q @ [sMsg] else q, b) }"

text \<open>One turn of the loop; the result also has the lines, in order.\<close>

definition main_turn :: "'f env \<Rightarrow> recv_result \<Rightarrow> string \<Rightarrow> MsgBuf_t list \<Rightarrow> 'f bot
    \<Rightarrow> (string list \<times> string \<times> MsgBuf_t list \<times> 'f bot) c_result" where
  "main_turn E r pUnparsed q b = do {
     (stopped, buffer) \<leftarrow> RecvLine RECV_BUFFER_SIZE r;
     let b = (if stopped then b\<lparr>stop := True\<rparr> else b);
     let (ls, rest) = cut_lines (pUnparsed @ buffer);
     (q, b) \<leftarrow> parse_lines E ls (q, b);
     Some (ls, rest, q, b) }"

section \<open>Blocks and lines\<close>

lemma cut_lines_none: "CR \<notin> set t \<Longrightarrow> cut_lines t = ([], t)"
  by (subst cut_lines.simps) (simp add: strchr_None[THEN iffD2])

lemma cut_lines_line:
  "CR \<notin> set l \<Longrightarrow> cut_lines (l @ CR # c # t) = (l # fst (cut_lines t), snd (cut_lines t))"
  by (subst cut_lines.simps) (simp add: strchr_append takeWhile_upto split_beta)

lemma cut_lines_end: "CR \<notin> set l \<Longrightarrow> cut_lines (l @ [CR]) = ([l], l)"
  by (subst cut_lines.simps) (simp add: strchr_append takeWhile_upto)

text \<open>A text is without carriage return, ends with its only one, or has a first line.\<close>

lemma line_cases:
  obtains "CR \<notin> set t" | l where "CR \<notin> set l" "t = l @ [CR]" | l c r where "CR \<notin> set l" "t = l @ CR # c # r"
proof (cases "CR \<in> set t")
  case True
  then obtain l r where "t = l @ CR # r" "CR \<notin> set l" by (meson split_list_first)
  with that show thesis by (cases r) auto
qed (use that in blast)

text \<open>Cutting a text that does not end in the middle of a line end can be interrupted.\<close>

lemma cut_lines_append:
  assumes "t = [] \<or> last t \<noteq> CR"
  shows "cut_lines (t @ u) = (fst (cut_lines t) @ fst (cut_lines (snd (cut_lines t) @ u)), snd (cut_lines (snd (cut_lines t) @ u)))"
  using assms
proof (induction "length t" arbitrary: t rule: less_induct)
  case less
  show ?case
  proof (cases t rule: line_cases)
    case 1
    then show ?thesis by (simp add: cut_lines_none)
  next
    case (2 l)
    with less.prems show ?thesis by simp
  next
    case (3 l c r)
    have "r = [] \<or> last r \<noteq> CR" using less.prems 3 by (auto split: if_splits)
    with less.hyps[of r] 3 show ?thesis by (simp add: cut_lines_line)
  qed
qed

lemma cut_lines_whole:
  "list_all (\<lambda>l. CR \<notin> set l) ls \<Longrightarrow> CR \<notin> set rest \<Longrightarrow> cut_lines (concat (map (\<lambda>l. l @ CRLF) ls) @ rest) = (ls, rest)"
  by (induction ls) (simp_all add: cut_lines_none cut_lines_line)

text \<open>The blocks that arrive one after the other.\<close>

fun feed :: "string list \<Rightarrow> string \<Rightarrow> string list \<times> string" where
  "feed [] unparsed = ([], unparsed)"
| "feed (block # blocks) unparsed = (let (ls, rest) = cut_lines (unparsed @ block); (ls', rest') = feed blocks rest
     in (ls @ ls', rest'))"

lemma cut_lines_rest: "t = [] \<or> last t \<noteq> CR \<Longrightarrow> CR \<notin> set (snd (cut_lines t))"
proof (induction "length t" arbitrary: t rule: less_induct)
  case less
  show ?case
  proof (cases t rule: line_cases)
    case (3 l c r)
    have "r = [] \<or> last r \<noteq> CR" using less.prems 3 by (auto split: if_splits)
    with less.hyps[of r] 3 show ?thesis by (simp add: cut_lines_line)
  qed (use less.prems in \<open>auto simp: cut_lines_none\<close>)
qed

lemma feed_cut:
  "list_all (\<lambda>t. t = [] \<or> last t \<noteq> CR) blocks \<Longrightarrow> CR \<notin> set u \<Longrightarrow> feed blocks u = cut_lines (u @ concat blocks)"
proof (induction blocks arbitrary: u)
  case Nil
  then show ?case by (simp add: cut_lines_none)
next
  case (Cons block blocks)
  have e: "u @ block = [] \<or> last (u @ block) \<noteq> CR"
    using Cons.prems by (cases "block = []") (auto simp: last_append, metis last_in_set)
  from cut_lines_append[OF e, of "concat blocks"] Cons.IH[of "snd (cut_lines (u @ block))"] cut_lines_rest[OF e] Cons.prems
  show ?case by (simp add: split_beta)
qed

section \<open>Properties\<close>

text \<open>C22: The lines do not depend on how the network cuts the stream into blocks: whatever blocks arrive, if none ends between
  the carriage return and the line feed of a line end, the main loop parses exactly the lines
  of the stream, each once and in order, and keeps the part of a line at the end for the next block.\<close>

theorem lines_reassembled:
  assumes "concat blocks = concat (map (\<lambda>l. l @ CRLF) ls) @ rest"
    and "\<forall>l \<in> set ls. CR \<notin> set l" "CR \<notin> set rest" "\<forall>t \<in> set blocks. t = [] \<or> last t \<noteq> CR"
  shows "feed blocks [] = (ls, rest)"
  using feed_cut[of blocks "[]"] cut_lines_whole[of ls rest] assms by (simp add: list_all_iff)

lemma lines_reassembled_witness:
  "feed [''PI'', ''NG :a'' @ CRLF @ ''PING'', '' :b'' @ CRLF] [] = ([''PING :a'', ''PING :b''], [])"
  by (rule lines_reassembled) auto

text \<open>When a block does end between the two characters of a line end, the line is parsed twice: once as it is, and once more
  glued to the line feed and the next line, which is never parsed on its own; so a
  command in the first line can be carried out a second time and the next line is lost.\<close>

lemma split_line_end:
  "CR \<notin> set l \<Longrightarrow> CR \<notin> set l' \<Longrightarrow> feed [l @ [CR], NL # l' @ CRLF] [] = ([l, l @ NL # l'], [])"
  using cut_lines_line[of "l @ NL # l'" NL "[]"] by (simp add: cut_lines_end cut_lines_none)

end
