(* ===== verification/Timing.thy ===== *)
theory Timing
  imports Account Config
begin

text \<open>
  The timing thread (\<open>timing.c\<close>): ten times in a second it looks at the clock and pings the server, removes old
  logins and old accounts, and identifies the bot to the nick name service, each when its time has come.
\<close>

record timer =
  lastPing :: int
  lastRemoveDeadLogins :: int
  lastRemoveDeadAccounts :: int
  lastNickServIdent :: int

definition timer_init :: timer where
  "timer_init = \<lparr>lastPing = 0, lastRemoveDeadLogins = 0, lastRemoveDeadAccounts = 0, lastNickServIdent = 0\<rparr>"

text \<open>Days are multiplied as \<open>unsigned int\<close>, so that the product wraps around.\<close>

definition seconds :: "int \<Rightarrow> int" where
  "seconds days = (days * 86400) mod 2 ^ 32"

definition ident_due :: "ConfigSetup_t \<Rightarrow> int \<Rightarrow> timer \<Rightarrow> bool" where
  "ident_due cfg newTime tm \<longleftrightarrow> nEnableNickServIdent cfg \<noteq> 0 \<and> sNickServIdent cfg \<noteq> None
     \<and> newTime - lastNickServIdent tm \<ge> nNickServIdentTimeout cfg div 2"

text \<open>One turn of the loop of \<open>TimingThread\<close> at the time \<open>newTime\<close>.\<close>

definition timing_turn :: "'f env \<Rightarrow> ConfigSetup_t \<Rightarrow> int \<Rightarrow> timer \<Rightarrow> 'f bot \<Rightarrow> (timer \<times> 'f bot) c_result" where
  "timing_turn E cfg newTime tm b = do {
     let (tm, b) = (if newTime - lastPing tm \<ge> iTimeout cfg div 2
                    then (tm\<lparr>lastPing := newTime\<rparr>, ping E (Some (sHostname b)) b) else (tm, b));
     (tm, b) \<leftarrow> (if newTime - lastRemoveDeadLogins tm \<ge> 3600
        then do { b \<leftarrow> rmDeadLogins E (newTime - seconds (AutoLoggoff cfg)) b;
                  Some (tm\<lparr>lastRemoveDeadLogins := newTime\<rparr>, b) }
        else Some (tm, b));
     (tm, b) \<leftarrow> (if newTime - lastRemoveDeadAccounts tm \<ge> 3600
        then do { b \<leftarrow> rmDeadAccounts E (newTime - seconds (AccountLiveTime cfg)) b;
                  Some (tm\<lparr>lastRemoveDeadAccounts := newTime\<rparr>, b) }
        else Some (tm, b));
     Some (if ident_due cfg newTime tm
           then (tm\<lparr>lastNickServIdent := newTime\<rparr>,
                 privmsg E (Some ''nickserv'') (map_option (\<lambda>p. ''identify '' @ p) (sNickServIdent cfg)) b)
           else (tm, b)) }"

end
