(* ===== verification/System.thy ===== *)
theory System
  imports Invariants MainLoop Timing
begin

text \<open>
  The threads of the bot together.  \<open>run\<close> lets them change the bot in any order; \<open>system_step\<close> adds what
  they exchange: the bytes left over from the last block, the queue of messages between the main loop and the
  command threads, and the clock of the timing thread.  Every run of the system is one of the
  bot, so that the invariants proved for \<open>run\<close> hold in the system.
\<close>

section \<open>Runs of the bot\<close>

text \<open>From step to step everything around the bot may change, the time in particular, but not the database library.\<close>

definition like :: "'f env \<Rightarrow> 'f env \<Rightarrow> bool" where
  "like E E' \<longleftrightarrow> gdbm E' = gdbm E \<and> crypt E' = crypt E \<and> env_ok E'"

lemma like_refl: "env_ok E \<Longrightarrow> like E E"
  by (simp add: like_def)

text \<open>
  The main loop parses a line or finds the connection closed, a command thread executes a message (of those that \<open>ok\<close>
  admits), the timing thread takes a turn, the thread that joins the channels runs, or a signal stops the bot.
\<close>

inductive run :: "'f env \<Rightarrow> (MsgBuf_t \<Rightarrow> 'f bot \<Rightarrow> bool) \<Rightarrow> 'f bot \<Rightarrow> 'f bot \<Rightarrow> bool"
  for E :: "'f env" and ok :: "MsgBuf_t \<Rightarrow> 'f bot \<Rightarrow> bool" and b0 :: "'f bot" where
  start: "run E ok b0 b0"
| read: "run E ok b0 b \<Longrightarrow> like E E' \<Longrightarrow> preParser E' line b = Some (m, b') \<Longrightarrow> run E ok b0 b'"
| hangup: "run E ok b0 b \<Longrightarrow> like E E' \<Longrightarrow> run E ok b0 (b\<lparr>stop := True\<rparr>)"
| execute: "run E ok b0 b \<Longrightarrow> like E E' \<Longrightarrow> ok m b \<Longrightarrow> execute_message E' m b = Some b' \<Longrightarrow> run E ok b0 b'"
| timing: "run E ok b0 b \<Longrightarrow> like E E' \<Longrightarrow> timing_turn E' cfg t tm b = Some (tm', b') \<Longrightarrow> run E ok b0 b'"
| joining: "run E ok b0 b \<Longrightarrow> like E E' \<Longrightarrow> JoinAllChannelsThread E' b = Some b' \<Longrightarrow> run E ok b0 b'"
| signalled: "run E ok b0 b \<Longrightarrow> like E E' \<Longrightarrow> run E ok b0 (stopParser E' b)"

text \<open>What the threads other than the command threads keep.\<close>

definition kept_outside :: "'f env \<Rightarrow> ('f bot \<Rightarrow> bool) \<Rightarrow> bool" where
  "kept_outside E P \<longleftrightarrow> (\<forall>b b' line m. P b \<longrightarrow> preParser E line b = Some (m, b') \<longrightarrow> P b')
     \<and> (\<forall>b b' cfg t tm tm'. P b \<longrightarrow> timing_turn E cfg t tm b = Some (tm', b') \<longrightarrow> P b')
     \<and> (\<forall>b b'. P b \<longrightarrow> JoinAllChannelsThread E b = Some b' \<longrightarrow> P b')
     \<and> (\<forall>b. P b \<longrightarrow> P (b\<lparr>stop := True\<rparr>) \<and> P (stopParser E b))"

lemma kept_outsideD:
  assumes "kept_outside E P" "P b"
  shows "preParser E line b = Some (m, b') \<Longrightarrow> P b'" "timing_turn E cfg t tm b = Some (tm', b') \<Longrightarrow> P b'"
    "JoinAllChannelsThread E b = Some b' \<Longrightarrow> P b'" "P (b\<lparr>stop := True\<rparr>)" "P (stopParser E b)"
  using assms unfolding kept_outside_def by metis+

context bot_invariant
begin

lemma P_timing:
  assumes "P b" "{ACCESS_DB, USER_DB, TIMELOG_DB} \<subseteq> removes" "timing_turn E cfg t tm b = Some (tm', b')"
  shows "P b'"
proof -
  have ping: "P (ping E h b)" if "P b" for h b by (rule P_sends[OF that]) (rule frames)
  obtain tm1 b1 where 1: "P b1" "(if t - lastPing tm \<ge> iTimeout cfg div 2
      then (tm\<lparr>lastPing := t\<rparr>, ping E (Some (sHostname b)) b) else (tm, b)) = (tm1, b1)"
    using assms(1) ping by (cases "t - lastPing tm \<ge> iTimeout cfg div 2") (auto simp del: ping_sent)
  obtain tm2 b2 where 2: "P b2" "(if t - lastRemoveDeadLogins tm1 \<ge> 3600
      then do { b \<leftarrow> rmDeadLogins E (t - seconds (AutoLoggoff cfg)) b1; Some (tm1\<lparr>lastRemoveDeadLogins := t\<rparr>, b) }
      else Some (tm1, b1)) = Some (tm2, b2)"
  proof (cases "t - lastRemoveDeadLogins tm1 \<ge> 3600")
    case True
    with assms(3) 1(2) obtain b2 where b2: "rmDeadLogins E (t - seconds (AutoLoggoff cfg)) b1 = Some b2"
      by (cases "rmDeadLogins E (t - seconds (AutoLoggoff cfg)) b1") (auto simp: timing_turn_def)
    with ensuresD[OF P_rmDead(1)[OF 1(1)] b2] True that show thesis by simp
  qed (use 1(1) that in simp)
  obtain tm3 b3 where 3: "P b3" "(if t - lastRemoveDeadAccounts tm2 \<ge> 3600
      then do { b \<leftarrow> rmDeadAccounts E (t - seconds (AccountLiveTime cfg)) b2; Some (tm2\<lparr>lastRemoveDeadAccounts := t\<rparr>, b) }
      else Some (tm2, b2)) = Some (tm3, b3)"
  proof (cases "t - lastRemoveDeadAccounts tm2 \<ge> 3600")
    case True
    with assms(3) 1(2) 2(2) obtain b3 where b3: "rmDeadAccounts E (t - seconds (AccountLiveTime cfg)) b2 = Some b3"
      by (cases "rmDeadAccounts E (t - seconds (AccountLiveTime cfg)) b2") (auto simp: timing_turn_def)
    with ensuresD[OF P_rmDead(2)[OF 2(1) assms(2)] b3] True that show thesis by simp
  qed (use 2(1) that in simp)
  have "b' = b3 \<or> (\<exists>m. b' = privmsg E (Some ''nickserv'') m b3)"
    using assms(3) 1(2) 2(2) 3(2) by (auto simp: timing_turn_def split: if_splits)
  then show ?thesis using 3(1) total_sends(1) by auto
qed

lemma P_joining: "P b \<Longrightarrow> JoinAllChannelsThread E b = Some b' \<Longrightarrow> P b'"
proof -
  have "P b \<Longrightarrow> P (fold (\<lambda>c b. join E (Some c) b) cs b)" for cs b
    by (induction cs arbitrary: b) (simp_all add: total_sends del: join_sent)
  then show "P b \<Longrightarrow> JoinAllChannelsThread E b = Some b' \<Longrightarrow> P b'"
    by (auto simp: JoinAllChannelsThread_def bind_eq_Some_conv)
qed

lemma P_outside: "{ACCESS_DB, USER_DB, TIMELOG_DB} \<subseteq> removes \<Longrightarrow> kept_outside E P"
  unfolding kept_outside_def
  by (intro conjI allI impI) (rule P_preParser P_timing P_joining P_fields(3) P_quit; assumption)+

end

text \<open>An invariant of all environments of a run holds in every state of it.\<close>

lemma run_keeps:
  assumes outside: "\<And>E'. like E E' \<Longrightarrow> kept_outside E' P"
    and "run E ok b0 b" "P b0"
    and exec: "\<And>E' m b b'. like E E' \<Longrightarrow> P b \<Longrightarrow> ok m b \<Longrightarrow> execute_message E' m b = Some b' \<Longrightarrow> P b'"
  shows "P b"
  using assms(2)
proof (induction rule: run.induct)
  case (read b E' line m b')
  from kept_outsideD(1)[OF outside[OF read(2)] read(4,3)] show ?case .
next
  case (hangup b E')
  from kept_outsideD(4)[OF outside[OF hangup(2)] hangup(3)] show ?case .
next
  case (execute b E' m b')
  then show ?case using exec by blast
next
  case (timing b E' cfg t tm tm' b')
  from kept_outsideD(2)[OF outside[OF timing(2)] timing(4,3)] show ?case .
next
  case (joining b E' b')
  from kept_outsideD(3)[OF outside[OF joining(2)] joining(4,3)] show ?case .
next
  case (signalled b E')
  from kept_outsideD(5)[OF outside[OF signalled(2)] signalled(3)] show ?case .
qed (rule assms(3))

section \<open>The system\<close>

text \<open>
  The state of all threads.  \<open>main_runs\<close> and \<open>joined\<close> say where the main loop and the joining thread are; the last
  three fields record, for the statements, the blocks received, the lines parsed and the messages executed.
\<close>

record 'f system =
  the_bot :: "'f bot"
  unparsed :: string
  command_queue :: "MsgBuf_t list"
  timers :: timer
  main_runs :: bool
  joined :: bool
  received :: "string list"
  parsed :: "string list"
  executed :: "MsgBuf_t list"

inductive system_step :: "'f env \<Rightarrow> ConfigSetup_t \<Rightarrow> (MsgBuf_t \<Rightarrow> 'f bot \<Rightarrow> bool) \<Rightarrow> 'f system \<Rightarrow> 'f system \<Rightarrow> bool"
  for E :: "'f env" and cfg :: ConfigSetup_t and ok :: "MsgBuf_t \<Rightarrow> 'f bot \<Rightarrow> bool" where
  read_block: "main_runs S \<Longrightarrow> \<not> stop (the_bot S) \<Longrightarrow> like E E' \<Longrightarrow> RecvLine RECV_BUFFER_SIZE r = Some (f, block) \<Longrightarrow>
    main_turn E' r (unparsed S) (command_queue S) (the_bot S) = Some (ls, rest, q, b) \<Longrightarrow>
    system_step E cfg ok S (S\<lparr>the_bot := b, unparsed := rest, command_queue := q,
      received := received S @ [block], parsed := parsed S @ ls\<rparr>)"
| leave: "main_runs S \<Longrightarrow> stop (the_bot S) \<Longrightarrow> system_step E cfg ok S (S\<lparr>main_runs := False, command_queue := []\<rparr>)"
| take_message: "command_queue S = m # q \<Longrightarrow> ok m (the_bot S) \<Longrightarrow> like E E' \<Longrightarrow> execute_message E' m (the_bot S) = Some b \<Longrightarrow>
    system_step E cfg ok S (S\<lparr>the_bot := b, command_queue := q, executed := executed S @ [m]\<rparr>)"
| tick: "\<not> stop (the_bot S) \<Longrightarrow> like E E' \<Longrightarrow> timing_turn E' cfg t (timers S) (the_bot S) = Some (tm, b) \<Longrightarrow>
    system_step E cfg ok S (S\<lparr>the_bot := b, timers := tm\<rparr>)"
| join_all: "\<not> joined S \<Longrightarrow> like E E' \<Longrightarrow> JoinAllChannelsThread E' (the_bot S) = Some b \<Longrightarrow>
    system_step E cfg ok S (S\<lparr>the_bot := b, joined := True\<rparr>)"
| signal: "like E E' \<Longrightarrow> system_step E cfg ok S (S\<lparr>the_bot := stopParser E' (the_bot S)\<rparr>)"

abbreviation system_run :: "'f env \<Rightarrow> ConfigSetup_t \<Rightarrow> (MsgBuf_t \<Rightarrow> 'f bot \<Rightarrow> bool) \<Rightarrow> 'f system \<Rightarrow> 'f system \<Rightarrow> bool" where
  "system_run E cfg ok \<equiv> (system_step E cfg ok)\<^sup>*\<^sup>*"

definition system_start :: "'f bot \<Rightarrow> 'f system" where
  "system_start b = \<lparr>the_bot = b, unparsed = [], command_queue = [], timers = timer_init, main_runs = True, joined = False,
     received = [], parsed = [], executed = []\<rparr>"

text \<open>The messages of lines: what the parser recognises does not depend on the state or the environment.\<close>

definition commands :: "'f env \<Rightarrow> 'f bot \<Rightarrow> string list \<Rightarrow> MsgBuf_t list" where
  "commands E b ls = filter (\<lambda>m. identify m \<noteq> CMD_NONE) (map (\<lambda>l. fst (the (preParser E l b))) ls)"

lemma commands_append: "commands E b (ls @ ls') = commands E b ls @ commands E b ls'"
  by (simp add: commands_def)

lemma preParser_message:
  "preParser E l b = Some (m, b1) \<Longrightarrow> fst (the (preParser E' l b')) = m"
  by (auto simp: preParser_def Let_def pong_def bind_eq_Some_conv split: option.splits if_splits)

lemma parse_lines_run:
  "parse_lines E' ls (q, b) = Some (q', b') \<Longrightarrow> like E E' \<Longrightarrow> run E ok b0 b \<Longrightarrow>
     run E ok b0 b' \<and> q' = q @ commands Ec bc ls"
proof (induction ls arbitrary: q b)
  case (Cons l ls)
  obtain m b1 where m: "preParser E' l b = Some (m, b1)"
    "parse_lines E' ls (if identify m \<noteq> CMD_NONE then q @ [m] else q, b1) = Some (q', b')"
    using Cons.prems(1) by (auto simp: bind_eq_Some_conv)
  have "run E ok b0 b1" using run.read[OF Cons.prems(3,2) m(1)] .
  from Cons.IH[OF m(2) Cons.prems(2) this] preParser_message[OF m(1), of Ec bc]
  show ?case by (simp add: commands_def)
qed (simp add: commands_def)

lemma main_turn_run:
  assumes "main_turn E' r u q b = Some (ls, rest, q', b')" "RecvLine RECV_BUFFER_SIZE r = Some (f, block)"
    and "like E E'" "run E ok b0 b"
  shows "run E ok b0 b' \<and> q' = q @ commands Ec bc ls \<and> cut_lines (u @ block) = (ls, rest)"
proof -
  obtain b1 where b1: "parse_lines E' ls (q, b1) = Some (q', b')" "b1 = (if f then b\<lparr>stop := True\<rparr> else b)"
    "cut_lines (u @ block) = (ls, rest)"
    using assms(1,2) by (auto simp: main_turn_def bind_eq_Some_conv split: prod.splits)
  have "run E ok b0 b1" using run.hangup[OF assms(4,3)] assms(4) b1(2) by auto
  from parse_lines_run[OF b1(1) assms(3) this] b1(3) show ?thesis by blast
qed

lemma system_run_bot:
  "system_run E cfg ok S0 S \<Longrightarrow> run E ok (the_bot S0) (the_bot S)"
proof (induction rule: rtranclp_induct)
  case (step S S')
  from step(2,3) show ?case
  proof (induction rule: system_step.induct)
    case (read_block S E' r f block ls rest q b)
    from main_turn_run[OF read_block(5,4,3,6)] show ?case by auto
  next
    case (take_message S m q E' b)
    from run.execute[OF take_message(5,3,2,4)] show ?case by simp
  next
    case (tick S E' t tm b)
    from run.timing[OF tick(4,2,3)] show ?case by simp
  next
    case (join_all S E' b)
    from run.joining[OF join_all(4,2,3)] show ?case by simp
  next
    case (signal E' S)
    from run.signalled[OF signal(2,1)] show ?case by simp
  qed simp
qed (rule run.start)

text \<open>What the threads have exchanged so far.\<close>

definition exchange_ok :: "'f env \<Rightarrow> 'f bot \<Rightarrow> 'f system \<Rightarrow> bool" where
  "exchange_ok E b S \<longleftrightarrow> feed (received S) [] = (parsed S, unparsed S)
     \<and> (\<exists>late. commands E b (parsed S) = executed S @ late
          \<and> (if main_runs S then late = command_queue S else command_queue S = []))"

lemma feed_append: "feed (bs @ [block]) u = (let (ls, r) = feed bs u; (ls', r') = cut_lines (r @ block) in (ls @ ls', r'))"
  by (induction bs arbitrary: u) (simp_all add: split_beta)

lemma exchange_run:
  "system_run E cfg ok (system_start b0) S \<Longrightarrow> exchange_ok E b0 S"
proof (induction rule: rtranclp_induct)
  case base
  show ?case by (simp add: exchange_ok_def system_start_def commands_def)
next
  case (step S S')
  from step(2,3) show ?case
  proof (induction rule: system_step.induct)
    case (read_block S E' r f block ls rest q b)
    have "run E ok (the_bot S) (the_bot S)" by (rule run.start)
    from main_turn_run[OF read_block(5,4,3) this, of E b0]
    have "q = command_queue S @ commands E b0 ls" "cut_lines (unparsed S @ block) = (ls, rest)" by auto
    with read_block(1,6) show ?case
      by (auto simp: exchange_ok_def feed_append commands_append)
  qed (auto simp: exchange_ok_def)
qed

section \<open>The invariants in runs\<close>

lemma like_stored: "like E E' \<Longrightarrow> (\<lambda>b. env_ok E' \<longrightarrow> stored_ok E' b) = stored_ok E"
  by (auto simp: fun_eq_iff like_def stored_ok_def keys_lower_def)

lemma like_logins: "like E E' \<Longrightarrow> (\<lambda>b. env_ok E' \<longrightarrow> logins_ok E' b) = logins_ok E"
  by (auto simp: fun_eq_iff like_def logins_ok_def)

lemma stored_run:
  assumes "run E ok b0 b" "stored_ok E b0"
  shows "stored_ok E b"
proof (rule run_keeps[where P = "stored_ok E" and ok = ok and E = E, OF _ assms])
  show "kept_outside E' (stored_ok E)" if "like E E'" for E'
    using records.P_outside[of E'] unfolding like_stored[OF that] by simp
next
  fix E' m b b' assume a: "like E E'" "stored_ok E b" "execute_message E' m b = Some b'"
  have "ensures (\<lambda>b. env_ok E' \<longrightarrow> stored_ok E' b) (execute_message E' m b)"
    by (rule records.P_execute_message)
      (use like_stored[OF a(1)] a(2) in \<open>auto dest: fun_cong writers_removers\<close>)
  with a(3) show "stored_ok E b'" unfolding like_stored[OF a(1)] by simp
qed

text \<open>
  The netmask that a message logs its user on with is not in use: for \<open>!hello\<close> and a nick change this depends on
  the server, which does not give one netmask to two connections; \<open>!ident\<close> tests it.
\<close>

definition names_free :: "'f env \<Rightarrow> MsgBuf_t \<Rightarrow> 'f bot \<Rightarrow> bool" where
  "names_free E m b \<longleftrightarrow> (case pMsgLine m of None \<Rightarrow> True | Some line \<Rightarrow>
     (identify m = CMD_HELLO \<longrightarrow> free_netmask E b (getNetmask (Some line)))
     \<and> (identify m = CMD_IDENT \<longrightarrow> getNetmask (Some line) \<noteq> None)
     \<and> (identify m = CMD_ONNICKCHG \<longrightarrow> (case nick_change m of None \<Rightarrow> True | Some n \<Rightarrow> free_netmask E b (Some n))))"

lemma logins_step:
  assumes "env_ok E" "logins_ok E b" "names_free E m b" "execute_message E m b = Some b'"
  shows "logins_ok E b'"
proof -
  have "ensures (\<lambda>b. env_ok E \<longrightarrow> logins_ok E b) (execute_message E m b)"
  proof (rule logins.P_execute_message)
    show "env_ok E \<longrightarrow> logins_ok E b" using assms(2) by blast
    fix line assume line: "pMsgLine m = Some line"
    have "\<not> db_exist E b NICKTOUSER_DB (getNetmask (Some line)) \<Longrightarrow> getNetmask (Some line) \<noteq> None
        \<Longrightarrow> free_netmask E b (getNetmask (Some line))"
      using assms(1) by (auto simp: free_netmask_def)
    then show "(identify m = CMD_HELLO \<longrightarrow> env_ok E \<longrightarrow> free_netmask E b (getNetmask (Some line)))
      \<and> (identify m = CMD_IDENT \<longrightarrow> \<not> db_exist E b NICKTOUSER_DB (getNetmask (Some line))
           \<longrightarrow> env_ok E \<longrightarrow> free_netmask E b (getNetmask (Some line)))
      \<and> (identify m = CMD_ONNICKCHG \<longrightarrow> (\<forall>l n. nick_change m = Some n \<longrightarrow> env_ok E
           \<longrightarrow> free_netmask E (log_out E l b) (Some n)))"
      using assms(3) line free_log_out[OF assms(1)] by (auto simp: names_free_def)
  qed (auto dest: writers_removers)
  then show ?thesis using assms(1,4) by simp
qed

lemma logins_run:
  assumes "run E (names_free E) b0 b" "logins_ok E b0"
  shows "logins_ok E b"
proof (rule run_keeps[where P = "logins_ok E" and ok = "names_free E" and E = E, OF _ assms])
  show "kept_outside E' (logins_ok E)" if "like E E'" for E'
    using logins.P_outside[of E'] unfolding like_logins[OF that] by simp
next
  fix E' m b b' assume a: "like E E'" "logins_ok E b" "names_free E m b" "execute_message E' m b = Some b'"
  have "names_free E' m b" using a(1,3) by (simp add: like_def names_free_def free_netmask_def cong: option.case_cong)
  moreover have "env_ok E'" "logins_ok E' b" using a(1,2) by (auto simp: like_def logins_ok_def)
  ultimately have "logins_ok E' b'" using logins_step a(4) by blast
  then show "logins_ok E b'" using a(1) by (simp add: like_def logins_ok_def)
qed

section \<open>A turn of the timing thread\<close>

lemma drop_logins_store: "stores_only b (fold (drop_login E t) ks b)"
proof (induction ks arbitrary: b)
  case (Cons l ks)
  have "stores_only b (drop_login E t l b)"
    using stores_only_log(1) by (auto split: option.splits)
  from stores_only_trans[OF this Cons.IH] show ?case by (simp only: fold.simps comp_def)
qed simp

lemma drop_accounts_store:
  "env_ok E \<Longrightarrow> for_each (drop_account E t) ks b = Some b' \<Longrightarrow> stores_only b b'"
proof (induction ks arbitrary: b)
  case (Cons l ks)
  obtain b1 where b1: "drop_account E t l b = Some b1" "for_each (drop_account E t) ks b1 = Some b'"
    using Cons.prems(2) unfolding for_each.simps bind_eq_Some_conv by blast
  have "stores_only b b1"
    using b1(1) rmAccount_view[OF Cons.prems(1), of l b] by (auto split: option.splits if_splits)
  from stores_only_trans[OF this Cons.IH[OF Cons.prems(1) b1(2)]] show ?case .
qed simp

lemma old_logins_removed:
  assumes "env_ok E" "stored_ok E b" "logins_ok E b"
  obtains b' where "rmDeadLogins E t b = Some b'" "stored_ok E b'" "logins_ok E b'" "stores_only b b'"
    "V E b' USERTONICK_DB = (\<lambda>k. if V E b USER_DB k \<noteq> None \<and> stale E b t k then None else V E b USERTONICK_DB k)"
    "\<forall>db. db \<noteq> NICKTOUSER_DB \<longrightarrow> db \<noteq> USERTONICK_DB \<longrightarrow> V E b' db = V E b db" "stale E b' = stale E b"
proof -
  obtain b' where b': "rmDeadLogins E t b = Some b'" "logins_ok E b'"
    "V E b' USERTONICK_DB = (\<lambda>k. if V E b USER_DB k \<noteq> None \<and> stale E b t k then None else V E b USERTONICK_DB k)"
    "\<forall>db. db \<noteq> NICKTOUSER_DB \<longrightarrow> db \<noteq> USERTONICK_DB \<longrightarrow> V E b' db = V E b db"
    using rmDeadLogins_view[OF assms(1) _ assms(3), of t] assms(2) by (auto simp: stored_ok_def)
  have "stored_ok E b'" using ensuresD[OF records.P_rmDead(1) b'(1)] assms(1,2) by simp
  moreover have "stores_only b b'"
    using b'(1) drop_logins_store[where E = E and t = t and b = b] unfolding rmDeadLogins_def for_each_map bind_eq_Some_conv by auto
  moreover have "stale E b' = stale E b" using b'(4) by (simp add: stale_def fun_eq_iff)
  ultimately show thesis using that[OF b'(1) _ b'(2) _ b'(3,4)] by blast
qed

lemma old_accounts_removed:
  assumes "env_ok E" "stored_ok E b" "logins_ok E b"
  obtains b' where "rmDeadAccounts E t b = Some b'" "stored_ok E b'" "logins_ok E b'" "stores_only b b'"
    "accounts_gone E {k. stale E b t k} b b'"
proof -
  obtain b' where b': "rmDeadAccounts E t b = Some b'" "accounts_gone E {k. stale E b t k} b b'"
    using rmDeadAccounts_view[OF assms(1), of b t] assms(2) by (auto simp: stored_ok_def)
  have "stored_ok E b'" "logins_ok E b'"
    using ensuresD[OF records.P_rmDead(2) b'(1)] ensuresD[OF logins.P_rmDead(2) b'(1)] assms by simp_all
  moreover have "stores_only b b'"
    using b'(1) drop_accounts_store[OF assms(1), of t _ b b'] unfolding rmDeadAccounts_def bind_eq_Some_conv by auto
  ultimately show thesis using that[OF b'(1) _ _ _ b'(2)] by blast
qed

lemma timing_turn_steps:
  assumes "rmDeadLogins E (t - seconds (AutoLoggoff cfg)) (if t - lastPing tm \<ge> iTimeout cfg div 2 then ping E (Some (sHostname b)) b else b) = Some b2"
    and "rmDeadAccounts E (t - seconds (AccountLiveTime cfg))
      (if t - lastRemoveDeadLogins tm \<ge> 3600 then b2 else if t - lastPing tm \<ge> iTimeout cfg div 2 then ping E (Some (sHostname b)) b else b) = Some b3"
  shows "timing_turn E cfg t tm b = Some (
    \<lparr>lastPing = (if t - lastPing tm \<ge> iTimeout cfg div 2 then t else lastPing tm),
     lastRemoveDeadLogins = (if t - lastRemoveDeadLogins tm \<ge> 3600 then t else lastRemoveDeadLogins tm),
     lastRemoveDeadAccounts = (if t - lastRemoveDeadAccounts tm \<ge> 3600 then t else lastRemoveDeadAccounts tm),
     lastNickServIdent = (if ident_due cfg t tm then t else lastNickServIdent tm)\<rparr>,
    (let b' = (if t - lastRemoveDeadAccounts tm \<ge> 3600 then b3 else if t - lastRemoveDeadLogins tm \<ge> 3600 then b2
        else if t - lastPing tm \<ge> iTimeout cfg div 2 then ping E (Some (sHostname b)) b else b)
     in if ident_due cfg t tm then privmsg E (Some ''nickserv'') (map_option (\<lambda>p. ''identify '' @ p) (sNickServIdent cfg)) b' else b'))"
proof -
  have ident: "ident_due cfg t (tm\<lparr>lastPing := x\<rparr>) = ident_due cfg t tm" "ident_due cfg t (tm\<lparr>lastRemoveDeadLogins := x\<rparr>) = ident_due cfg t tm"
    "ident_due cfg t (tm\<lparr>lastRemoveDeadAccounts := x\<rparr>) = ident_due cfg t tm" for tm x
    by (simp_all add: ident_due_def)
  show ?thesis using assms unfolding timing_turn_def
    by (cases "t - lastPing tm \<ge> iTimeout cfg div 2"; cases "t - lastRemoveDeadLogins tm \<ge> 3600";
        cases "t - lastRemoveDeadAccounts tm \<ge> 3600"; cases "ident_due cfg t tm")
      (simp_all add: ident del: ping_sent)
qed

text \<open>Both removals of a turn, each of which happens or not.\<close>

lemma due_removals:
  assumes "env_ok E" "stored_ok E b" "logins_ok E b"
  obtains b2 b3 b4 where "rmDeadLogins E t b = Some b2" "rmDeadAccounts E u (if d then b2 else b) = Some b3"
    "b4 = (if e then b3 else if d then b2 else b)" "stored_ok E b4" "logins_ok E b4" "sent b4 = sent b"
    "V E b4 USER_DB = (\<lambda>k. if e \<and> stale E b u k then None else V E b USER_DB k)"
    "V E b4 USERTONICK_DB = (\<lambda>k. if e \<and> stale E b u k \<or> d \<and> V E b USER_DB k \<noteq> None \<and> stale E b t k then None
       else V E b USERTONICK_DB k)"
    "V E b4 ACCESS_DB = (\<lambda>k. if \<exists>l. e \<and> stale E b u l \<and> k \<in> right_keys E b l then None else V E b ACCESS_DB k)"
    "V E b4 CHANNEL_DB = V E b CHANNEL_DB" "V E b4 BANLIST_DB = V E b BANLIST_DB"
proof -
  obtain b2 where b2: "rmDeadLogins E t b = Some b2" "stored_ok E b2" "logins_ok E b2" "stores_only b b2"
    "V E b2 USERTONICK_DB = (\<lambda>k. if V E b USER_DB k \<noteq> None \<and> stale E b t k then None else V E b USERTONICK_DB k)"
    "\<forall>db. db \<noteq> NICKTOUSER_DB \<longrightarrow> db \<noteq> USERTONICK_DB \<longrightarrow> V E b2 db = V E b db" "stale E b2 = stale E b"
    using old_logins_removed[OF assms] by blast
  define c where "c = (if d then b2 else b)"
  have c: "stored_ok E c" "logins_ok E c" "stale E c = stale E b" "sent c = sent b"
    "V E c USERTONICK_DB = (\<lambda>k. if d \<and> V E b USER_DB k \<noteq> None \<and> stale E b t k then None else V E b USERTONICK_DB k)"
    "V E c USER_DB = V E b USER_DB" "V E c ACCESS_DB = V E b ACCESS_DB" "V E c CHANNEL_DB = V E b CHANNEL_DB" "V E c BANLIST_DB = V E b BANLIST_DB"
    using assms b2(2,3,5-7) stores_only_sent[OF b2(4)] by (simp_all add: c_def)
  have "right_keys E c l = right_keys E b l" for l by (simp add: right_keys_def c(8))
  note c = c this
  obtain b3 where b3: "rmDeadAccounts E u c = Some b3" "stored_ok E b3" "logins_ok E b3"
    "stores_only c b3" "accounts_gone E {k. stale E c u k} c b3"
    using old_accounts_removed[OF assms(1) c(1,2)] by blast
  note gone = accounts_goneD[OF b3(5)]
  define b4 where "b4 = (if e then b3 else c)"
  show thesis
  proof (rule that[of b2 b3 b4])
    show "rmDeadLogins E t b = Some b2" "rmDeadAccounts E u (if d then b2 else b) = Some b3"
      "b4 = (if e then b3 else if d then b2 else b)" "stored_ok E b4" "logins_ok E b4" "sent b4 = sent b"
      using b2(1) b3(1-3) c(1,2,4) stores_only_sent[OF b3(4)] by (simp_all add: b4_def c_def)
  qed (auto simp: b4_def gone c fun_eq_iff)
qed

end
