(* ===== verification/Authority.thy ===== *)
theory Authority
  imports System
begin

text \<open>
  Who may change what, in every run of the system.  The accounts, the rights and the records of the channels are written by
  few commands, and a command is only executed for a user with the level that it requires; so whatever
  a database holds that it did not hold when the bot started was written by such a user.
\<close>

section \<open>Entries are not written\<close>

text \<open>The entry of a key is not \<open>v\<close>: it has another value, or there is none.\<close>

definition lacks :: "'f env \<Rightarrow> int \<Rightarrow> string \<Rightarrow> string \<Rightarrow> 'f bot \<Rightarrow> bool" where
  "lacks E db k v b \<longleftrightarrow> V E b db k \<noteq> Some v"

abbreviation guarded :: "int \<Rightarrow> bool" where
  "guarded db \<equiv> db \<in> {USER_DB, ACCESS_DB, CHANNEL_DB, BANLIST_DB}"

lemma lacks_same: "dbs b' = dbs b \<Longrightarrow> lacks E db k v b' = lacks E db k v b"
  by (simp add: lacks_def)

lemma lacks_V: "V E b' db = V E b db \<Longrightarrow> lacks E db k v b' = lacks E db k v b"
  by (simp add: lacks_def)

lemma log_on_tables_frame:
  "env_ok E \<Longrightarrow> db \<noteq> NICKTOUSER_DB \<Longrightarrow> db \<noteq> USERTONICK_DB \<Longrightarrow> V E (log_on_tables E n l b) db = V E b db"
  by (cases n) (auto simp: log_on_tables_def Let_def split: option.splits)

interpretation unwritten: bot_invariant E "\<lambda>b. env_ok E \<and> guarded db \<longrightarrow> lacks E db k v b" "\<lambda>_ _. True"
  "{USER_DB, ACCESS_DB, TIMELOG_DB, CHANNEL_DB} - {db}" "- {NICKTOUSER_DB, USERTONICK_DB}" True
  for E :: "'f env" and db k v
proof unfold_locales
  fix b b' :: "'f bot" assume "env_ok E \<and> guarded db \<longrightarrow> lacks E db k v b" "sends b b'"
  then show "env_ok E \<and> guarded db \<longrightarrow> lacks E db k v b'"
    using lacks_same sends_fields by blast
next
  fix b :: "'f bot" and db' k'
  assume "env_ok E \<and> guarded db \<longrightarrow> lacks E db k v b" 
  then show "env_ok E \<and> guarded db \<longrightarrow> lacks E db k v (snd (db_del E db' (Some k') b))"
    by (cases "valid_db db'") (auto simp: lacks_def)
next
  fix b :: "'f bot" and n l
  assume a: "env_ok E \<and> guarded db \<longrightarrow> lacks E db k v b"
  show "env_ok E \<and> guarded db \<longrightarrow> lacks E db k v (log_on E n l b)" "env_ok E \<and> guarded db \<longrightarrow> lacks E db k v (log_out E l b)"
    using a by (auto simp: lacks_def V_log_on log_on_tables_frame V_log_out split: option.splits)
qed (auto simp: lacks_def)

lemma stores_only_again: "stores_only b b' \<Longrightarrow> again b' = again b"
  by (auto simp: stores_only_def)

interpretation unrestarted: bot_invariant E "\<lambda>b. \<not> again b" "\<lambda>_ _. True"
  "{USER_DB, ACCESS_DB, TIMELOG_DB, CHANNEL_DB}" "- {NICKTOUSER_DB, USERTONICK_DB}" False
  for E :: "'f env"
  by unfold_locales (simp_all add: sends_def stores_only_again[OF stores_only_db(1)] stores_only_again[OF stores_only_db(2)]
    stores_only_again[OF stores_only_db(3)] stores_only_again[OF stores_only_log(1)] stores_only_again[OF stores_only_log(3)])

section \<open>The step that did it\<close>

text \<open>The user who sent the message has the level that its command requires, in the state in which it is executed.\<close>

definition authorised :: "'f env \<Rightarrow> 'f bot \<Rightarrow> MsgBuf_t \<Rightarrow> bool" where
  "authorised E b m \<longleftrightarrow> (\<exists>line r. pMsgLine m = Some line \<and> required (identify m) = Some r
     \<and> r \<le> getUserLevel E b (getAccessChannel (Some line)) (getNetmask (Some line)))"

lemma authorisedI:
  "pMsgLine m = Some line \<Longrightarrow> AccessRight (UserLevel (message_item E b (identify m) line)) (identify m) \<Longrightarrow> authorised E b m"
  by (auto simp: authorised_def access_levels message_item_def Let_def split: option.splits)

lemma written_by:
  assumes "env_ok E" "guarded db" "lacks E db k v b" "execute_message E m b = Some b'" "\<not> lacks E db k v b'"
  shows "identify m \<in> writers db \<and> authorised E b m"
proof (rule ccontr)
  assume n: "\<not> (identify m \<in> writers db \<and> authorised E b m)"
  have "ensures (\<lambda>b. env_ok E \<and> guarded db \<longrightarrow> lacks E db k v b) (execute_message E m b)"
    by (rule unwritten.P_execute_message)
      (use assms(2,3) n writers_removers in \<open>auto dest: authorisedI\<close>)
  with assms show False by simp
qed

lemma restarted_by:
  assumes "\<not> again b" "execute_message E m b = Some b'" "again b'"
  shows "identify m = CMD_RESTART \<and> authorised E b m"
proof (rule ccontr)
  assume n: "\<not> (identify m = CMD_RESTART \<and> authorised E b m)"
  have "ensures (\<lambda>b. \<not> again b) (execute_message E m b)"
    by (rule unrestarted.P_execute_message)
      (use assms(1) n writers_removers in \<open>auto dest: authorisedI\<close>)
  with assms show False by simp
qed

lemma parse_lines_keeps:
  "kept_outside E P \<Longrightarrow> parse_lines E ls (q, b) = Some (q', b') \<Longrightarrow> P b \<Longrightarrow> P b'"
proof (induction ls arbitrary: q b)
  case (Cons l ls)
  obtain m b1 where m: "preParser E l b = Some (m, b1)"
    "parse_lines E ls (if identify m \<noteq> CMD_NONE then q @ [m] else q, b1) = Some (q', b')"
    using Cons.prems(2) by (auto simp: bind_eq_Some_conv)
  have "P b1" by (rule kept_outsideD(1)[OF Cons.prems(1,3) m(1)])
  from Cons.IH[OF Cons.prems(1) m(2) this] show ?case .
qed simp

lemma main_turn_keeps:
  assumes "kept_outside E P" "main_turn E r u q b = Some (ls, rest, q', b')" "P b"
  shows "P b'"
proof -
  obtain f block where turn: "parse_lines E (fst (cut_lines (u @ block))) (q, if f then b\<lparr>stop := True\<rparr> else b) = Some (q', b')"
    using assms(2) by (auto simp: main_turn_def bind_eq_Some_conv split_beta Let_def)
  have "P (if f then b\<lparr>stop := True\<rparr> else b)"
    using kept_outsideD(4)[OF assms(1,3)] assms(3) by simp
  from parse_lines_keeps[OF assms(1) turn this] show ?thesis .
qed

text \<open>Only a command thread can make a property false that all other threads keep: there is a message that did it.\<close>

definition culprit :: "'f env \<Rightarrow> ConfigSetup_t \<Rightarrow> (MsgBuf_t \<Rightarrow> 'f bot \<Rightarrow> bool) \<Rightarrow> ('f bot \<Rightarrow> bool) \<Rightarrow> 'f system \<Rightarrow> 'f system \<Rightarrow> bool" where
  "culprit E cfg ok P S0 S \<longleftrightarrow> (\<exists>S1 S2 m E'. system_run E cfg ok S0 S1 \<and> system_step E cfg ok S1 S2 \<and> system_run E cfg ok S2 S
     \<and> like E E' \<and> executed S2 = executed S1 @ [m] \<and> execute_message E' m (the_bot S1) = Some (the_bot S2)
     \<and> P (the_bot S1) \<and> \<not> P (the_bot S2))"

lemma step_culprit:
  assumes outside: "\<And>E'. like E E' \<Longrightarrow> kept_outside E' P"
  shows "system_step E cfg ok S S' \<Longrightarrow> system_run E cfg ok S0 S \<Longrightarrow> P (the_bot S) \<Longrightarrow> P (the_bot S') \<or> culprit E cfg ok P S0 S'"
proof (induction rule: system_step.induct)
  case (read_block S E' r f block ls rest q b)
  then show ?case using main_turn_keeps[OF outside[OF read_block(3)] read_block(5,7)] by simp
next
  case (take_message S m q E' b)
  let ?S = "S\<lparr>the_bot := b, command_queue := q, executed := executed S @ [m]\<rparr>"
  have "system_step E cfg ok S ?S" using take_message(1-4) by (rule system_step.take_message)
  then show ?case using take_message(3-6) unfolding culprit_def
    by (cases "P b") (simp, intro disjI2 exI[of _ S] exI[of _ ?S] exI[of _ m] exI[of _ E'], simp)
next
  case (tick S E' t tm b)
  then show ?case using kept_outsideD(2)[OF outside[OF tick(2)] tick(5,3)] by simp
next
  case (join_all S E' b)
  then show ?case using kept_outsideD(3)[OF outside[OF join_all(2)] join_all(5,3)] by simp
next
  case (signal E' S)
  then show ?case using kept_outsideD(5)[OF outside[OF signal(1)] signal(3)] by simp
qed simp

lemma executed_grow: "system_run E cfg ok S S' \<Longrightarrow> set (executed S) \<subseteq> set (executed S')"
  by (induction rule: rtranclp_induct) (auto elim!: system_step.cases)

lemma run_culprit:
  assumes "\<And>E'. like E E' \<Longrightarrow> kept_outside E' P" "system_run E cfg ok S0 S" "P (the_bot S0)"
  shows "P (the_bot S) \<or> culprit E cfg ok P S0 S"
  using assms(2)
proof (induction rule: rtranclp_induct)
  case base
  then show ?case using assms(3) by simp
next
  case (step S S')
  from step(3) show ?case
  proof
    assume "P (the_bot S)"
    from step_culprit[OF assms(1) step(2,1) this] show ?thesis .
  next
    assume "culprit E cfg ok P S0 S"
    then show ?thesis using step(2) unfolding culprit_def by (meson rtranclp.rtrancl_into_rtrancl)
  qed
qed

section \<open>What hello and pass write\<close>

lemma executed_handler:
  assumes "env_ok E" "guarded db" "lacks E db k v b" "execute_message E m b = Some b'" "\<not> lacks E db k v b'"
  obtains line where "pMsgLine m = Some line"
    "CommandHandler (identify m) E (message_item E b (identify m) line) b = Some b'"
proof -
  obtain line where line: "pMsgLine m = Some line" using assms(4) by (auto simp: execute_message_def bind_eq_Some_conv)
  have "lacks E db k v (notice E n t b)" for n t
    using unwritten.total_sends(2)[of E db k v b n t] assms(1-3) by blast
  then show thesis using that[OF line] assms(3-5) line
    by (auto simp: execute_message_def Let_def split: if_splits)
qed

lemma hello_writes:
  assumes "env_ok E" "guarded db" "lacks E db k v b" "hello E pMsg b = Some b'" "\<not> lacks E db k v b'"
  shows "(db = USER_DB \<longrightarrow> V E b USER_DB k = None) \<and> (db = ACCESS_DB \<longrightarrow> V E b USER_DB = Map.empty)"
proof (rule ccontr)
  assume n: "\<not> ?thesis"
  obtain ks where ks: "list_db (gdbm E) (dbs b) USER_DB = Some ks" "set ks = dom (V E b USER_DB)"
    by (rule V_list[OF assms(1), of USER_DB b]) auto
  have "ensures (\<lambda>b. env_ok E \<and> guarded db \<longrightarrow> lacks E db k v b) (hello E pMsg b)"
  proof (rule unwritten.P_hello_new)
    show "env_ok E \<and> guarded db \<longrightarrow> lacks E db k v (snd (db_add E USER_DB (pCallingNick pMsg) (Some []) b))"
      using assms(1-3) n by (cases "pCallingNick pMsg") (auto simp: lacks_def)
    show "ACCESS_DB \<in> {USER_DB, ACCESS_DB, TIMELOG_DB, CHANNEL_DB} - {db}"
      if "list_db (gdbm E) (dbs b) USER_DB = Some []"
      using that ks n by auto
  qed (use assms(3) in simp_all)
  with assms show False by simp
qed

lemma password_writes:
  assumes "env_ok E" "password E pMsg b = Some b'" "V E b' USER_DB k \<noteq> V E b USER_DB k"
  shows "\<exists>nm l. pNetmask pMsg = Some nm \<and> V E b NICKTOUSER_DB (StrToLower nm) = Some l \<and> StrToLower l = k"
proof -
  have r: "V E c' = V E c" if "reply E pMsg t a c = Some c'" for t a c c'
    using that sends_fields[OF sends_partial(6)] by (metis that)
  show ?thesis using assms(1,3) assms(2)
    by (cases "pNetmask pMsg")
      (auto simp: password_def Let_def bind_eq_Some_conv dest!: r split: option.splits if_splits)
qed

text \<open>
  The conditions under which a message writes the entry \<open>k\<close> of a database: its command may do so and its sender has the
  level; an account is only created under a free name, rights are given by \<open>!hello\<close> only when there is no
  account at all, and \<open>!pass\<close> changes the account that the sender is logged on to.
\<close>

definition lawful :: "'f env \<Rightarrow> int \<Rightarrow> string \<Rightarrow> 'f bot \<Rightarrow> MsgBuf_t \<Rightarrow> bool" where
  "lawful E db k b m \<longleftrightarrow> identify m \<in> writers db \<and> authorised E b m
     \<and> (identify m = CMD_HELLO \<longrightarrow> (db = USER_DB \<longrightarrow> V E b USER_DB k = None)
          \<and> (db = ACCESS_DB \<longrightarrow> V E b USER_DB = Map.empty))
     \<and> (identify m = CMD_PASS \<longrightarrow> (\<exists>line nm l. pMsgLine m = Some line \<and> getNetmask (Some line) = Some nm
          \<and> V E b NICKTOUSER_DB (StrToLower nm) = Some l \<and> StrToLower l = k))"

lemma written_lawful:
  assumes "env_ok E" "guarded db" "lacks E db k v b" "execute_message E m b = Some b'" "\<not> lacks E db k v b'"
  shows "lawful E db k b m"
proof -
  from written_by[OF assms] have w: "identify m \<in> writers db" "authorised E b m" by auto
  obtain line where line: "pMsgLine m = Some line"
    "CommandHandler (identify m) E (message_item E b (identify m) line) b = Some b'"
    by (rule executed_handler[OF assms])
  have "(db = USER_DB \<longrightarrow> V E b USER_DB k = None) \<and> (db = ACCESS_DB \<longrightarrow> V E b USER_DB = Map.empty)" if "identify m = CMD_HELLO"
    using hello_writes[OF assms(1-3) _ assms(5)] line(2) that by simp
  moreover have "\<exists>nm l. getNetmask (Some line) = Some nm \<and> V E b NICKTOUSER_DB (StrToLower nm) = Some l \<and> StrToLower l = k"
    if p: "identify m = CMD_PASS"
  proof -
    have db: "db = USER_DB" using w(1) p by (auto simp: writers_def split: if_splits)
    have "V E b' USER_DB k \<noteq> V E b USER_DB k" using assms(3,5) db by (auto simp: lacks_def)
    moreover have "password E (message_item E b (identify m) line) b = Some b'" using line(2) p by simp
    ultimately have "\<exists>nm l. pNetmask (message_item E b (identify m) line) = Some nm
        \<and> V E b NICKTOUSER_DB (StrToLower nm) = Some l \<and> StrToLower l = k" by (rule password_writes[OF assms(1), rotated])
    then show ?thesis by (simp add: message_item_def Let_def)
  qed
  ultimately show ?thesis using w line(1) unfolding lawful_def by blast
qed

lemma like_lacks: "like E E' \<Longrightarrow> lacks E' db k v = lacks E db k v"
  by (simp add: fun_eq_iff like_def lacks_def)

lemma lacks_outside:
  assumes "guarded db" "like E E'"
  shows "kept_outside E' (lacks E db k v)"
proof -
  have "(\<lambda>b. env_ok E' \<and> guarded db \<longrightarrow> lacks E' db k v b) = lacks E db k v"
    using assms by (auto simp: fun_eq_iff like_lacks[OF assms(2)] like_def)
  then show ?thesis using unwritten.P_outside[of E' db k v] by auto
qed

lemma unrestarted_outside: "kept_outside E' (\<lambda>b. \<not> again b)"
  by (rule unrestarted.P_outside) simp

end
