(* ===== verification/Threads.thy ===== *)
theory Threads
  imports Authority
begin

text \<open>
  The commands as threads.  A command thread gives up the processor between two sections that hold a mutex, so the commands
  that write databases are modelled here a second time, as sequences of atomic steps: one section of \<open>dbaccess.c\<close> under the mutex
  of its database, one change of the login tables under \<open>mutexAccount\<close>, or one line sent.  Executed
  alone, such a thread has the effect of its handler.
\<close>

section \<open>Threads\<close>

text \<open>A thread is at its end, or makes a step that depends on the bot it finds; \<open>None\<close> is undefined behaviour.\<close>

datatype 'f thread = Stop | Step "'f bot \<Rightarrow> ('f thread \<times> 'f bot) c_result"

primrec run_alone :: "'f thread \<Rightarrow> 'f bot \<Rightarrow> 'f bot c_result" where
  "run_alone Stop = Some"
| "run_alone (Step f) = (\<lambda>b. map_option (map_prod run_alone id) (f b) \<bind> (\<lambda>(r, b). r b))"

text \<open>A step that reads, one that writes and has a result, one that sends or runs a longer section, and one that is undefined.\<close>

definition ask :: "('f bot \<Rightarrow> 'a) \<Rightarrow> ('a \<Rightarrow> 'f thread) \<Rightarrow> 'f thread" where
  "ask q k = Step (\<lambda>b. Some (k (q b), b))"

definition act :: "('f bot \<Rightarrow> 'a \<times> 'f bot) \<Rightarrow> ('a \<Rightarrow> 'f thread) \<Rightarrow> 'f thread" where
  "act f k = Step (\<lambda>b. Some (k (fst (f b)), snd (f b)))"

definition tell :: "('f bot \<Rightarrow> 'f bot c_result) \<Rightarrow> 'f thread \<Rightarrow> 'f thread" where
  "tell m k = Step (\<lambda>b. do { b \<leftarrow> m b; Some (k, b) })"

definition crash :: "'f thread" where
  "crash = Step (\<lambda>_. None)"

definition need :: "'a option \<Rightarrow> ('a \<Rightarrow> 'f thread) \<Rightarrow> 'f thread" where
  "need x k = (case x of None \<Rightarrow> crash | Some v \<Rightarrow> k v)"

primrec each :: "('a \<Rightarrow> 'f thread \<Rightarrow> 'f thread) \<Rightarrow> 'a list \<Rightarrow> 'f thread \<Rightarrow> 'f thread" where
  "each body [] k = k"
| "each body (x # xs) k = body x (each body xs k)"

lemma run_alone_simps [simp]:
  "run_alone (ask q k) b = run_alone (k (q b)) b"
  "run_alone (act f k) b = run_alone (k (fst (f b))) (snd (f b))"
  "run_alone (tell m t) b = m b \<bind> run_alone t"
  "run_alone crash b = None"
  "run_alone (need x j) b = x \<bind> (\<lambda>v. run_alone (j v) b)"
  by (simp_all add: ask_def act_def tell_def crash_def need_def map_conv_bind_option split: option.splits)

lemma run_alone_tell [simp]: "run_alone (tell m t) = (\<lambda>b. m b \<bind> run_alone t)"
  by (rule ext) simp

lemma run_alone_each:
  assumes "\<And>x k b. run_alone (body x k) b = f x b \<bind> run_alone k"
  shows "run_alone (each body xs k) b = for_each f xs b \<bind> run_alone k"
  by (induction xs arbitrary: b) (auto simp: assms intro!: Option.bind_cong)

section \<open>The sections of dbaccess.c\<close>

text \<open>The store and the removal themselves; the test before them is a section of its own, so another thread can come between.\<close>

definition db_store :: "'f env \<Rightarrow> gdbm_flag \<Rightarrow> int \<Rightarrow> string \<Rightarrow> string \<Rightarrow> 'f bot \<Rightarrow> bool \<times> 'f bot" where
  "db_store E flag db k v b = (case get_dbf (dbs b) db of None \<Rightarrow> (False, b)
     | Some f \<Rightarrow> let (r, f') = gdbm_store (gdbm E) f (StrToLower k) (db_value (crypt E) db v) flag
         in (r = 0, b\<lparr>dbs := (dbs b)(db := f')\<rparr>))"

definition db_erase :: "'f env \<Rightarrow> int \<Rightarrow> string \<Rightarrow> 'f bot \<Rightarrow> bool \<times> 'f bot" where
  "db_erase E db k b = (case get_dbf (dbs b) db of None \<Rightarrow> (False, b)
     | Some f \<Rightarrow> let (r, f') = gdbm_delete (gdbm E) f (StrToLower k) in (r = 0, b\<lparr>dbs := (dbs b)(db := f')\<rparr>))"

definition add_thread :: "'f env \<Rightarrow> int \<Rightarrow> string option \<Rightarrow> string option \<Rightarrow> (bool \<Rightarrow> 'f thread) \<Rightarrow> 'f thread" where
  "add_thread E db key val k = (case (key, val) of
     (Some n, Some v) \<Rightarrow> ask (\<lambda>b. db_exist E b db (Some n)) (\<lambda>e. if e then k False else act (db_store E GDBM_INSERT db n v) k)
   | _ \<Rightarrow> k False)"

definition replace_thread :: "'f env \<Rightarrow> int \<Rightarrow> string option \<Rightarrow> string option \<Rightarrow> (bool \<Rightarrow> 'f thread) \<Rightarrow> 'f thread" where
  "replace_thread E db key val k = (case (key, val) of
     (Some n, Some v) \<Rightarrow> ask (\<lambda>b. db_exist E b db (Some n)) (\<lambda>e. if \<not> e then k False else act (db_store E GDBM_REPLACE db n v) k)
   | _ \<Rightarrow> k False)"

definition del_thread :: "'f env \<Rightarrow> int \<Rightarrow> string option \<Rightarrow> (bool \<Rightarrow> 'f thread) \<Rightarrow> 'f thread" where
  "del_thread E db key k = (case key of None \<Rightarrow> k False
   | Some n \<Rightarrow> ask (\<lambda>b. db_exist E b db (Some n)) (\<lambda>e. if \<not> e then k False else act (db_erase E db n) k))"

definition check_thread :: "'f env \<Rightarrow> int \<Rightarrow> string option \<Rightarrow> string option \<Rightarrow> (bool \<Rightarrow> 'f thread) \<Rightarrow> 'f thread" where
  "check_thread E db key val k = (case (key, val) of
     (Some n, Some v) \<Rightarrow> ask (\<lambda>b. db_exist E b db (Some n)) (\<lambda>e. if \<not> e then k False
        else ask (\<lambda>b. db_get E b db (Some n)) (\<lambda>w. need w (\<lambda>w. k (w = db_value (crypt E) db v))))
   | _ \<Rightarrow> k False)"

lemma exist_lower [simp]: "exist_db G s db (Some (StrToLower k)) = exist_db G s db (Some k)"
  by (simp add: exist_db_def split: option.splits)

lemma run_alone_db [simp]:
  "run_alone (add_thread E db key val k) b = (case db_add E db key val b of (r, b') \<Rightarrow> run_alone (k r) b')"
  "run_alone (replace_thread E db key val k) b = (case db_replace E db key val b of (r, b') \<Rightarrow> run_alone (k r) b')"
  "run_alone (del_thread E db key k) b = (case db_del E db key b of (r, b') \<Rightarrow> run_alone (k r) b')"
  "run_alone (check_thread E db key val k) b = check_db (gdbm E) (crypt E) (dbs b) db key val \<bind> (\<lambda>r. run_alone (k r) b)"
  by (auto simp: add_thread_def replace_thread_def del_thread_def check_thread_def db_store_def db_erase_def db_add_def
      db_replace_def db_del_def add_db_def replace_db_def del_db_def check_db_def get_db_def exist_db_def Let_def split_beta
      split: option.splits)

section \<open>Accounts\<close>

definition log_on_thread :: "'f env \<Rightarrow> string option \<Rightarrow> string \<Rightarrow> 'f thread \<Rightarrow> 'f thread" where
  "log_on_thread E netmask pLogin k = act (\<lambda>b. ((), log_on_tables E netmask pLogin b)) (\<lambda>_.
     ask (\<lambda>b. db_exist E b TIMELOG_DB (Some pLogin)) (\<lambda>e.
       if e then replace_thread E TIMELOG_DB (Some pLogin) (Some (show_long (now E))) (\<lambda>_. k)
       else add_thread E TIMELOG_DB (Some pLogin) (Some (show_long (now E))) (\<lambda>_. k)))"

definition log_out_thread :: "'f env \<Rightarrow> string \<Rightarrow> 'f thread \<Rightarrow> 'f thread" where
  "log_out_thread E pLogin k = act (\<lambda>b. ((), log_out E pLogin b)) (\<lambda>_. k)"

definition rmAccessRights_thread :: "'f env \<Rightarrow> string \<Rightarrow> 'f thread \<Rightarrow> 'f thread" where
  "rmAccessRights_thread E pLogin k = del_thread E ACCESS_DB (Some pLogin) (\<lambda>_.
     ask (\<lambda>b. list_db (gdbm E) (dbs b) CHANNEL_DB) (\<lambda>q. need q (\<lambda>pChannelQueue.
       each (\<lambda>pChannel k. del_thread E ACCESS_DB (Some (pLogin @ pChannel)) (\<lambda>_. k)) pChannelQueue k)))"

text \<open>
  \<open>rmAccount\<close> holds \<open>mutexAccount\<close> from beginning to end, but what follows the removal from the login tables is also accessed
  without this mutex.
\<close>

definition rmAccount_thread :: "'f env \<Rightarrow> string \<Rightarrow> 'f thread \<Rightarrow> 'f thread" where
  "rmAccount_thread E pLogin k = log_out_thread E pLogin (rmAccessRights_thread E pLogin
     (del_thread E USER_DB (Some pLogin) (\<lambda>_. del_thread E TIMELOG_DB (Some pLogin) (\<lambda>_. k))))"

lemma run_alone_account [simp]:
  "run_alone (log_on_thread E n l k) b = run_alone k (log_on E n l b)"
  "run_alone (log_out_thread E l k) b = run_alone k (log_out E l b)"
  "run_alone (rmAccessRights_thread E l k) b = rmAccessRights E l b \<bind> run_alone k"
  by (simp_all add: log_on_thread_def log_on_def log_out_thread_def rmAccessRights_thread_def rmAccessRights_def Let_def split_beta
      run_alone_each[where f = "\<lambda>c b. Some (snd (db_del E ACCESS_DB (Some (l @ c)) b))"])

lemma run_alone_rmAccount [simp]: "run_alone (rmAccount_thread E l k) b = rmAccount E l b \<bind> run_alone k"
  by (auto simp: rmAccount_thread_def rmAccount_def Let_def split_beta Option.bind_assoc intro!: Option.bind_cong)

section \<open>The commands of users\<close>

definition hello_master_thread :: "'f env \<Rightarrow> MsgItem_t \<Rightarrow> 'f thread" where
  "hello_master_thread E pMsg = (let answer = (\<lambda>bResult. need (pCallingNick pMsg) (\<lambda>n.
        if bResult then tell (reply E pMsg ''The account %s is now the botmaster.'' [n]) Stop
        else tell (reply E pMsg ''The initialization of the account %s as the botmaster failed.'' [n]) Stop)) in
     ask (\<lambda>b. db_exist E b ACCESS_DB (pCallingNick pMsg)) (\<lambda>e.
       if \<not> e then add_thread E ACCESS_DB (pCallingNick pMsg) (Some ''m'') answer
       else replace_thread E ACCESS_DB (pCallingNick pMsg) (Some ''m'') answer))"

text \<open>The part after the list of accounts has been read.\<close>

definition hello_listed_thread :: "'f env \<Rightarrow> MsgItem_t \<Rightarrow> string list \<Rightarrow> 'f thread" where
  "hello_listed_thread E pMsg pList =
     add_thread E USER_DB (pCallingNick pMsg) (Some []) (\<lambda>added. need (pCallingNick pMsg) (\<lambda>n.
       let rest = (if pList = [] then hello_master_thread E pMsg else Stop) in
       if added then log_on_thread E (pNetmask pMsg) n
         (tell (reply E pMsg ''Nice to meet you.'' [])
         (tell (reply E pMsg ''Your account is %s.'' [n])
         (tell (reply E pMsg (''You'' @ [AP] @ ''re now identified.'') []) rest)))
       else tell (reply E pMsg ''The account %s is already exists.'' [n]) rest))"

definition hello_thread :: "'f env \<Rightarrow> MsgItem_t \<Rightarrow> 'f thread" where
  "hello_thread E pMsg =
     (if UserLevel pMsg > LoggedLevel then tell (reply E pMsg (''You'' @ [AP] @ ''re already identified.'') []) Stop
      else ask (\<lambda>b. list_db (gdbm E) (dbs b) USER_DB) (\<lambda>q. need q (hello_listed_thread E pMsg)))"

definition password_thread :: "'f env \<Rightarrow> MsgItem_t \<Rightarrow> 'f thread" where
  "password_thread E pMsg = ask (\<lambda>b. db_get E b NICKTOUSER_DB (pNetmask pMsg)) (\<lambda>l. case l of
       None \<Rightarrow> Stop
     | Some pLogin \<Rightarrow>
        if pLogin = [] then Stop
        else (let pPasswd = getParameters (Some (pRawLine pMsg));
                set = replace_thread E USER_DB (Some pLogin) (Some (case pPasswd of None \<Rightarrow> [] | Some p \<Rightarrow> p))
                  (\<lambda>_. tell (reply E pMsg ''Password is changed.'' []) Stop) in
          if pPasswd = None then tell (reply E pMsg (''You'' @ [AP] @ ''ve set a empty password.'') []) set else set))"

definition logoff_channel_thread :: "'f env \<Rightarrow> MsgItem_t \<Rightarrow> string \<Rightarrow> string \<Rightarrow> 'f thread \<Rightarrow> 'f thread" where
  "logoff_channel_thread E pMsg pLogin pChannel k =
     ask (\<lambda>b. db_get E b ACCESS_DB (Some (pLogin @ pChannel))) (\<lambda>r. case r of
        Some pMode \<Rightarrow> need (set_first (CHR ''-'') pMode) (\<lambda>pMode. tell (mode E (Some pChannel) (Some pMode) (pCallingNick pMsg)) k)
      | None \<Rightarrow>
          if UserLevel pMsg = MasterLevel then tell (mode E (Some pChannel) (Some ''-o'') (pCallingNick pMsg)) k else k)"

definition logoff_thread :: "'f env \<Rightarrow> MsgItem_t \<Rightarrow> 'f thread" where
  "logoff_thread E pMsg = ask (\<lambda>b. db_get E b NICKTOUSER_DB (pNetmask pMsg)) (\<lambda>l. case l of
       None \<Rightarrow> Stop
     | Some pLogin \<Rightarrow> log_out_thread E pLogin
        (if bInteractiveMode pMsg then
           ask (\<lambda>b. list_db (gdbm E) (dbs b) CHANNEL_DB) (\<lambda>q. need q (\<lambda>pChannelQueue.
             each (logoff_channel_thread E pMsg pLogin) pChannelQueue
               (tell (reply E pMsg (''You'' @ [AP] @ ''re now logged off.'') []) Stop)))
         else Stop))"

definition ident_channel_thread :: "'f env \<Rightarrow> MsgItem_t \<Rightarrow> bool \<Rightarrow> string \<Rightarrow> string \<Rightarrow> 'f thread \<Rightarrow> 'f thread" where
  "ident_channel_thread E pMsg isMaster pLogin pChannel k =
     (if isMaster then tell (mode E (Some pChannel) (Some ''+o'') (pCallingNick pMsg)) k
      else ask (\<lambda>b. db_get E b ACCESS_DB (Some (pLogin @ pChannel))) (\<lambda>r. case r of
          Some pMod \<Rightarrow> tell (mode E (Some pChannel) (Some pMod) (pCallingNick pMsg)) k
        | None \<Rightarrow> k))"

definition ident_login_thread :: "'f env \<Rightarrow> MsgItem_t \<Rightarrow> string \<Rightarrow> string \<Rightarrow> 'f thread" where
  "ident_login_thread E pMsg pLogin pPasswd = check_thread E USER_DB (Some pLogin) (Some pPasswd) (\<lambda>good.
     if good then log_on_thread E (pNetmask pMsg) pLogin
       (tell (reply E pMsg (''You'' @ [AP] @ ''re now identified.'') [])
       (ask (\<lambda>b. db_exist E b ACCESS_DB (Some pLogin)) (\<lambda>isMaster.
        ask (\<lambda>b. list_db (gdbm E) (dbs b) CHANNEL_DB) (\<lambda>q. need q (\<lambda>pChannelQueue.
          each (ident_channel_thread E pMsg isMaster pLogin) pChannelQueue Stop)))))
     else tell (reply E pMsg ''Invalid password'' []) Stop)"

definition ident_thread :: "'f env \<Rightarrow> MsgItem_t \<Rightarrow> 'f thread" where
  "ident_thread E pMsg = ask (\<lambda>b. db_exist E b NICKTOUSER_DB (pNetmask pMsg)) (\<lambda>e.
     if e then tell (reply E pMsg (''You'' @ [AP] @ ''re already identified.'') []) Stop
     else (case getParameters (Some (pRawLine pMsg)) of
          None \<Rightarrow> tell (reply E pMsg (''Couldn'' @ [AP] @ ''t found regulare parameters.'') []) Stop
        | Some p \<Rightarrow>
            (case strstr p '' '' of
               None \<Rightarrow> tell (reply E pMsg (''You'' @ [AP] @ ''ve set a empty password.'') [])
                 (ident_login_thread E pMsg (strtok_cut SP p) [])
             | Some pPos \<Rightarrow> ident_login_thread E pMsg (strtok_cut SP p) (drop 1 pPos))))"

definition hNickChange_thread :: "'f env \<Rightarrow> MsgItem_t \<Rightarrow> 'f thread" where
  "hNickChange_thread E pMsg = (case pNetmask pMsg of None \<Rightarrow> Stop
     | Some nm \<Rightarrow> ask (\<lambda>b. db_get E b NICKTOUSER_DB (Some nm)) (\<lambda>l. case l of None \<Rightarrow> Stop
         | Some pLogin \<Rightarrow> need (strrchr (pRawLine pMsg) SP) (\<lambda>pNewNick.
             if length pNewNick > 2 then need (strchr nm (CHR ''!'')) (\<lambda>pTmp.
               let pNewNetmask = drop 2 pNewNick @ strtok_cut SP pTmp in
               log_out_thread E pLogin (log_on_thread E (Some pNewNetmask) pLogin Stop))
             else Stop)))"

lemma run_alone_loops [simp]:
  "run_alone (each (logoff_channel_thread E pMsg l) cs k) b = for_each (logoff_channel E pMsg l) cs b \<bind> run_alone k"
  "run_alone (each (ident_channel_thread E pMsg m l) cs k) b = for_each (ident_channel E pMsg m l) cs b \<bind> run_alone k"
  by (rule run_alone_each, simp add: logoff_channel_thread_def logoff_channel_def split: option.splits,
      rule run_alone_each, simp add: ident_channel_thread_def ident_channel_def split: option.splits)

lemmas alone = Let_def split_beta Option.bind_assoc

lemma run_alone_hello_master [simp]: "run_alone (hello_master_thread E pMsg) = hello_master E pMsg"
  by (rule ext) (cases "pCallingNick pMsg", simp_all add: hello_master_thread_def hello_master_def alone)

lemma run_alone_hello: "run_alone (hello_thread E pMsg) b = hello E pMsg b"
  by (cases "pCallingNick pMsg"; cases "list_db (gdbm E) (dbs b) USER_DB")
    (simp_all add: hello_thread_def hello_listed_thread_def hello_def alone)

lemma run_alone_password: "run_alone (password_thread E pMsg) b = password E pMsg b"
  by (cases "getParameters (Some (pRawLine pMsg))")
    (auto simp: password_thread_def password_def alone split: option.splits intro!: Option.bind_cong)

lemma run_alone_logoff: "run_alone (logoff_thread E pMsg) b = logoff E pMsg b"
  by (auto simp: logoff_thread_def logoff_def alone split: option.splits intro!: Option.bind_cong)

lemma run_alone_ident_login [simp]: "run_alone (ident_login_thread E pMsg l pw) = ident_login E pMsg l pw"
  by (rule ext) (auto simp: ident_login_thread_def ident_login_def alone intro!: Option.bind_cong)

lemma run_alone_ident: "run_alone (ident_thread E pMsg) b = ident E pMsg b"
  by (auto simp: ident_thread_def ident_def alone split: option.splits intro!: Option.bind_cong)

lemma run_alone_hNickChange: "run_alone (hNickChange_thread E pMsg) b = hNickChange E pMsg b"
  by (auto simp: hNickChange_thread_def hNickChange_def alone split: option.splits intro!: Option.bind_cong)

section \<open>The commands of channels\<close>

definition addChannel_thread :: "'f env \<Rightarrow> MsgItem_t \<Rightarrow> 'f thread" where
  "addChannel_thread E pMsg = (case pAccessChannel pMsg of
       None \<Rightarrow> tell (reply E pMsg no_channel []) Stop
     | Some ch \<Rightarrow>
        if same_channel pMsg ch then tell (reply E pMsg no_channel []) Stop
        else ask (\<lambda>b. db_exist E b CHANNEL_DB (Some ch)) (\<lambda>e.
          if e then tell (reply E pMsg ''The channel %s is already on the channel list.'' [ch]) Stop
          else add_thread E CHANNEL_DB (Some ch) (Some [TAB, TAB]) (\<lambda>_.
            tell (reply E pMsg ''The channel %s is added to the channel list'' [ch])
            (tell (\<lambda>b. Some (join E (Some ch) b))
            (tell (reply E pMsg ''The bot is joined the channel %s.'' [ch]) Stop)))))"

definition rmChannel_thread :: "'f env \<Rightarrow> MsgItem_t \<Rightarrow> 'f thread" where
  "rmChannel_thread E pMsg = (case pAccessChannel pMsg of
       None \<Rightarrow> tell (reply E pMsg no_channel []) Stop
     | Some ch \<Rightarrow> del_thread E CHANNEL_DB (Some ch) (\<lambda>removed.
         tell (if \<not> removed then reply E pMsg not_listed [ch]
               else reply E pMsg ''The channel %s is removed from the channel list.'' [ch])
         (tell (\<lambda>b. Some (part E (Some ch) b))
         (tell (reply E pMsg ''The bot has left the channel %s.'' [ch]) Stop))))"

definition setGreeting_thread :: "'f env \<Rightarrow> MsgItem_t \<Rightarrow> 'f thread" where
  "setGreeting_thread E pMsg = (case pAccessChannel pMsg of
       None \<Rightarrow> tell (reply E pMsg no_channel []) Stop
     | Some ch \<Rightarrow> ask (\<lambda>b. db_get E b CHANNEL_DB (Some ch)) (\<lambda>r. case r of
           None \<Rightarrow> tell (reply E pMsg not_listed [ch]) Stop
         | Some pChannelSet \<Rightarrow> need (StrToChannelData pChannelSet) (\<lambda>d.
             let d = d\<lparr>pGreeting := getParameters (Some (pRawLine pMsg))\<rparr> in
             replace_thread E CHANNEL_DB (Some ch) (Some (ChannelDataToStr d)) (\<lambda>_.
               if pGreeting d = None then tell (reply E pMsg ''The greeting of the channel %s is removed'' [ch]) Stop
               else tell (reply E pMsg ''The new greeting of the channel %s is set'' [ch]) Stop))))"

definition setTopic_thread :: "'f env \<Rightarrow> MsgItem_t \<Rightarrow> 'f thread" where
  "setTopic_thread E pMsg = (case pAccessChannel pMsg of
       None \<Rightarrow> tell (reply E pMsg no_channel []) Stop
     | Some ch \<Rightarrow> ask (\<lambda>b. db_get E b CHANNEL_DB (Some ch)) (\<lambda>r. case r of
           None \<Rightarrow> tell (reply E pMsg (''This channel isn'' @ [AP] @ ''t in the channel list.'') []) Stop
         | Some pChannelSet \<Rightarrow> need (StrToChannelData pChannelSet) (\<lambda>d.
             let d = d\<lparr>pTopic := getParameters (Some (pRawLine pMsg))\<rparr> in
             replace_thread E CHANNEL_DB (Some ch) (Some (ChannelDataToStr d)) (\<lambda>_.
               tell (\<lambda>b. Some (topic E (Some ch) (Some (case pTopic d of Some t \<Rightarrow> t | None \<Rightarrow> [])) b))
               (if pTopic d = None then tell (reply E pMsg ''The topic of the channel %s is removed'' [ch]) Stop
                else tell (reply E pMsg ''The new topic of the channel %s is set'' [ch]) Stop)))))"

definition chanmode_thread :: "'f env \<Rightarrow> MsgItem_t \<Rightarrow> 'f thread" where
  "chanmode_thread E pMsg = (case pAccessChannel pMsg of
       None \<Rightarrow> tell (reply E pMsg no_channel []) Stop
     | Some ch \<Rightarrow>
        (case getParameters (Some (pRawLine pMsg)) of
           None \<Rightarrow> tell (reply E pMsg no_parameter []) Stop
         | Some pParameters \<Rightarrow> ask (\<lambda>b. db_get E b CHANNEL_DB (Some ch)) (\<lambda>r. case r of
               None \<Rightarrow> tell (reply E pMsg not_listed [ch]) Stop
             | Some pChannelSet \<Rightarrow> need (StrToChannelData pChannelSet) (\<lambda>d. need (StrToChannelMode (Some pParameters)) (\<lambda>sNewMode.
                 let d = d\<lparr>sModes := merge_modes sNewMode (sModes d)\<rparr> in
                 replace_thread E CHANNEL_DB (Some ch) (Some (ChannelDataToStr d)) (\<lambda>_.
                   tell (mode E (Some ch) (Some (ChannelModeToStr sNewMode)) None) Stop))))))"

lemma run_alone_channels:
  "run_alone (addChannel_thread E pMsg) b = addChannel E pMsg b"
  "run_alone (rmChannel_thread E pMsg) b = rmChannel E pMsg b"
  "run_alone (setGreeting_thread E pMsg) b = setGreeting E pMsg b"
  "run_alone (setTopic_thread E pMsg) b = setTopic E pMsg b"
  "run_alone (chanmode_thread E pMsg) b = chanmode E pMsg b"
  subgoal by (auto simp: addChannel_thread_def addChannel_def alone split: option.splits intro!: Option.bind_cong)
  subgoal by (auto simp: rmChannel_thread_def rmChannel_def alone split: option.splits intro!: Option.bind_cong)
  subgoal by (auto simp: setGreeting_thread_def setGreeting_def alone split: option.splits intro!: Option.bind_cong)
  subgoal by (auto simp: setTopic_thread_def setTopic_def alone split: option.splits intro!: Option.bind_cong)
  subgoal by (auto simp: chanmode_thread_def chanmode_def alone split: option.splits intro!: Option.bind_cong)
  done

section \<open>The commands of owners and masters\<close>

definition accountmode_rights_thread :: "'f env \<Rightarrow> string \<Rightarrow> string \<Rightarrow> string option \<Rightarrow> char \<Rightarrow> char \<Rightarrow> 'f thread \<Rightarrow> 'f thread" where
  "accountmode_rights_thread E ch pLogin oldmod m0 m1 k =
     need (case oldmod of None \<Rightarrow> Some None | Some m \<Rightarrow> map_option Some (char_at m 1)) (\<lambda>old1.
     let pKey = (if m1 = CHR ''m'' then pLogin else pLogin @ ch);
         last = (if m0 = CHR ''+'' then
             add_thread E ACCESS_DB (Some pKey) (Some [m0, m1]) (\<lambda>added.
               if added then k else replace_thread E ACCESS_DB (Some pKey) (Some [m0, m1]) (\<lambda>_. k))
           else del_thread E ACCESS_DB (Some pKey) (\<lambda>_. k)) in
     if m1 \<noteq> CHR ''m'' \<and> old1 = Some (CHR ''m'') then del_thread E ACCESS_DB (Some pLogin) (\<lambda>_. last)
     else if m1 = CHR ''m'' \<and> old1 \<noteq> None \<and> old1 \<noteq> Some (CHR ''m'') then rmAccessRights_thread E pLogin last
     else last)"

definition accountmode_nick_thread :: "'f env \<Rightarrow> string \<Rightarrow> string \<Rightarrow> string option \<Rightarrow> char \<Rightarrow> char \<Rightarrow> 'f thread \<Rightarrow> 'f thread" where
  "accountmode_nick_thread E ch pLogin oldmod m0 m1 k =
     ask (\<lambda>b. db_get E b USERTONICK_DB (Some pLogin)) (\<lambda>netmask. case getNickname netmask of
        None \<Rightarrow> k
      | Some usernick \<Rightarrow>
          if m0 = CHR ''-'' then tell (mode E (Some ch) (Some [m0, m1]) (Some usernick)) k
          else (let set = (if m1 = CHR ''v'' then tell (mode E (Some ch) (Some ''+v'') (Some usernick)) k
                      else tell (mode E (Some ch) (Some ''+o'') (Some usernick)) k) in
            (case oldmod of None \<Rightarrow> set
                | Some m \<Rightarrow>
                    if strchr m (CHR ''v'') \<noteq> None then tell (mode E (Some ch) (Some ''-v'') (Some usernick)) set
                    else if m \<noteq> [] then tell (mode E (Some ch) (Some ''-o'') (Some usernick)) set
                    else set)))"

text \<open>The part after the old right has been read.\<close>

definition accountmode_set_thread :: "'f env \<Rightarrow> MsgItem_t \<Rightarrow> string \<Rightarrow> string \<Rightarrow> string \<Rightarrow> string option \<Rightarrow> 'f thread" where
  "accountmode_set_thread E pMsg ch pLogin pPos oldmod = need (char_at pPos 0) (\<lambda>m0.
     if m0 \<noteq> CHR ''+'' \<and> m0 \<noteq> CHR ''-'' then Stop else need (char_at pPos 1) (\<lambda>m1.
       if m1 = CHR ''v'' \<or> m1 = CHR ''o'' \<or> m1 = CHR ''m'' \<and> UserLevel pMsg = MasterLevel then
         accountmode_rights_thread E ch pLogin oldmod m0 m1
           (accountmode_nick_thread E ch pLogin oldmod m0 m1
             (tell (reply E pMsg ''The user mode of the account %s is changed.'' [pLogin]) Stop))
       else if m1 = CHR ''m'' then crash
       else if m1 = CHR 0x00 then tell (reply E pMsg ''The mode '' []) Stop
       else tell (reply E pMsg ''The mode %c is invalid.'' [[m1]]) Stop))"

definition accountmode_thread :: "'f env \<Rightarrow> MsgItem_t \<Rightarrow> 'f thread" where
  "accountmode_thread E pMsg = (case pAccessChannel pMsg of
     None \<Rightarrow> tell (reply E pMsg no_channel []) Stop
   | Some ch \<Rightarrow> ask (\<lambda>b. db_get E b NICKTOUSER_DB (pNetmask pMsg)) (\<lambda>l. case l of
     None \<Rightarrow> Stop
   | Some accesslogin \<Rightarrow> ask (\<lambda>b. db_exist E b CHANNEL_DB (Some ch)) (\<lambda>listed.
     if \<not> listed then tell (reply E pMsg (''This channel isn'' @ [AP] @ ''t in the channel list.'') []) Stop
     else (case getParameters (Some (pRawLine pMsg)) of
     None \<Rightarrow> tell (reply E pMsg no_parameter []) Stop
   | Some p \<Rightarrow> (case strchr p SP of
     None \<Rightarrow> tell (reply E pMsg no_parameter []) Stop
   | Some rest \<Rightarrow>
     let pPos = drop 1 rest; pLogin = takeWhile (\<lambda>c. c \<noteq> SP) p in
     ask (\<lambda>b. db_exist E b USER_DB (Some pLogin)) (\<lambda>known.
     if \<not> known then tell (reply E pMsg (''Couldn'' @ [AP] @ ''t find the account %s.'') [pLogin]) Stop
     else if pLogin = accesslogin then tell (reply E pMsg (''You can'' @ [AP] @ ''t modify yourself'') []) Stop
     else ask (\<lambda>b. db_get E b ACCESS_DB (Some (pLogin @ ch))) (\<lambda>right. case right of
       Some m \<Rightarrow> accountmode_set_thread E pMsg ch pLogin pPos (Some m)
     | None \<Rightarrow> ask (\<lambda>b. db_get E b ACCESS_DB (Some pLogin)) (\<lambda>master.
         if (case master of None \<Rightarrow> False | Some m \<Rightarrow> strchr m (CHR ''m'') \<noteq> None) \<and> UserLevel pMsg \<noteq> MasterLevel
         then tell (reply E pMsg (''You'' @ [AP] @ ''re not a bot master.'') []) Stop
         else accountmode_set_thread E pMsg ch pLogin pPos master))))))))"

definition rmaccount_thread :: "'f env \<Rightarrow> MsgItem_t \<Rightarrow> 'f thread" where
  "rmaccount_thread E pMsg = (case getParameters (Some (pRawLine pMsg)) of
       None \<Rightarrow> tell (reply E pMsg no_parameter []) Stop
     | Some p \<Rightarrow>
        (let pLogin = strtok_cut SP p in
         ask (\<lambda>b. db_exist E b USER_DB (Some pLogin)) (\<lambda>known.
         if known then rmAccount_thread E pLogin
           (ask (\<lambda>b. db_get E b USERTONICK_DB (Some pLogin)) (\<lambda>netmask. case getNickname netmask of
               None \<Rightarrow> tell (reply E pMsg ''The account is removed'' []) Stop
             | Some rmnick \<Rightarrow> ask (\<lambda>b. list_db (gdbm E) (dbs b) CHANNEL_DB) (\<lambda>q. need q (\<lambda>pChannelQueue.
                 each (\<lambda>pChannel k. tell (mode E (Some pChannel) (Some ''-o'') (Some rmnick))
                     (tell (mode E (Some pChannel) (Some ''-v'') (Some rmnick)) k)) pChannelQueue
                   (tell (reply E pMsg ''The account is removed'' []) Stop)))))
         else tell (reply E pMsg (''Couldn'' @ [AP] @ ''t fount the account %s.'') [pLogin]) Stop)))"

lemma run_alone_accountmode_rights [simp]:
  "run_alone (accountmode_rights_thread E ch l old m0 m1 k) b = accountmode_rights E ch l old m0 m1 b \<bind> run_alone k"
  by (auto simp: accountmode_rights_thread_def accountmode_rights_def alone split: option.splits intro!: Option.bind_cong)

lemma run_alone_accountmode_nick [simp]:
  "run_alone (accountmode_nick_thread E ch l old m0 m1 k) b = accountmode_nick E ch l old m0 m1 b \<bind> run_alone k"
  by (auto simp: accountmode_nick_thread_def accountmode_nick_def alone split: option.splits intro!: Option.bind_cong)

lemma run_alone_accountmode: "run_alone (accountmode_thread E pMsg) b = accountmode E pMsg b"
  by (auto simp: accountmode_thread_def accountmode_set_thread_def accountmode_def alone split: option.splits intro!: Option.bind_cong)

lemma run_alone_rmaccount: "run_alone (rmaccount_thread E pMsg) b = rmaccount E pMsg b"
proof -
  have *: "run_alone (each (\<lambda>pChannel k. tell (mode E (Some pChannel) (Some ''-o'') (Some n))
        (tell (mode E (Some pChannel) (Some ''-v'') (Some n)) k)) cs k) b
      = for_each (\<lambda>c b. do { b \<leftarrow> mode E (Some c) (Some ''-o'') (Some n) b; mode E (Some c) (Some ''-v'') (Some n) b }) cs b \<bind> run_alone k"
    for n cs k b by (rule run_alone_each) (simp add: Option.bind_assoc)
  show ?thesis
    by (auto simp: rmaccount_thread_def rmaccount_def alone * split: option.splits intro!: Option.bind_cong)
qed

section \<open>Messages\<close>

text \<open>The other handlers write no stored data; they are one step.\<close>

definition CommandThread :: "Cmd_t \<Rightarrow> 'f env \<Rightarrow> MsgItem_t \<Rightarrow> 'f thread" where
  "CommandThread c E pMsg = (case c of
       CMD_ONQUIT \<Rightarrow> logoff_thread E pMsg
     | CMD_ONNICKCHG \<Rightarrow> hNickChange_thread E pMsg
     | CMD_HELLO \<Rightarrow> hello_thread E pMsg
     | CMD_IDENT \<Rightarrow> ident_thread E pMsg
     | CMD_LOGOFF \<Rightarrow> logoff_thread E pMsg
     | CMD_PASS \<Rightarrow> password_thread E pMsg
     | CMD_CHANMODE \<Rightarrow> chanmode_thread E pMsg
     | CMD_ACCOUNTMODE \<Rightarrow> accountmode_thread E pMsg
     | CMD_SET_TOPIC \<Rightarrow> setTopic_thread E pMsg
     | CMD_SET_GREATING \<Rightarrow> setGreeting_thread E pMsg
     | CMD_RMUSER \<Rightarrow> rmaccount_thread E pMsg
     | CMD_RMCHANNEL \<Rightarrow> rmChannel_thread E pMsg
     | CMD_ADDCHANNEL \<Rightarrow> addChannel_thread E pMsg
     | _ \<Rightarrow> tell (CommandHandler c E pMsg) Stop)"

text \<open>\<open>getUserLevel\<close> reads the login, the right in the channel and the right of a master in three sections.\<close>

definition level_thread :: "'f env \<Rightarrow> string option \<Rightarrow> string option \<Rightarrow> (UserLevel_t \<Rightarrow> 'f thread) \<Rightarrow> 'f thread" where
  "level_thread E pChannel netmask k = ask (\<lambda>b. db_get E b NICKTOUSER_DB netmask) (\<lambda>l. case l of
       None \<Rightarrow> k NoneLevel
     | Some pLogin \<Rightarrow>
        (let master = ask (\<lambda>b. db_get E b ACCESS_DB (Some pLogin)) (\<lambda>m. k (if m \<noteq> None then MasterLevel else LoggedLevel)) in
         case pChannel of
           Some c \<Rightarrow> ask (\<lambda>b. db_get E b ACCESS_DB (Some (pLogin @ c))) (\<lambda>r. case r of
               Some pLevel \<Rightarrow> k (if strchr pLevel (CHR ''o'') \<noteq> None then OwnerLevel
                 else if strchr pLevel (CHR ''v'') \<noteq> None then FriendLevel
                 else LoggedLevel)
             | None \<Rightarrow> master)
         | None \<Rightarrow> master))"

definition item_with :: "Cmd_t \<Rightarrow> string \<Rightarrow> UserLevel_t \<Rightarrow> MsgItem_t" where
  "item_with c line lv =
     (let raw = getAccessChannel_buf line in
      \<lparr>UserLevel = lv,
       AnswerMode = getAnswerMode raw,
       pAccessChannel = getAccessChannel (Some line),
       pCallingNick = getNickname (Some raw),
       pNetmask = getNetmask (Some line),
       pRawLine = getArgument_buf raw,
       bInteractiveMode = bIsCommand (CmdHandleField ! cmd_id c),
       pParameter = getParameters (Some raw)\<rparr>)"

text \<open>One turn of \<open>CommandExecutionThread\<close>.\<close>

definition message_thread :: "'f env \<Rightarrow> MsgBuf_t \<Rightarrow> 'f thread" where
  "message_thread E pMsg = need (pMsgLine pMsg) (\<lambda>line.
     let c = identify pMsg in
     level_thread E (getAccessChannel (Some line)) (getNetmask (Some line)) (\<lambda>lv.
       let item = item_with c line lv in
       if AccessRight (UserLevel item) c then
         (if CMD_NONE \<noteq> c \<and> cmd_id c < cmd_id CMD_COUNT then CommandThread c E item else Stop)
       else tell (\<lambda>b. Some (notice E (pCallingNick item) (Some ''Access denied'') b)) Stop))"

lemma run_alone_level: "run_alone (level_thread E ch nm k) b = run_alone (k (getUserLevel E b ch nm)) b"
  by (simp add: level_thread_def getUserLevel_def Let_def split: option.splits)

lemma item_with_level: "item_with c line (getUserLevel E b (getAccessChannel (Some line)) (getNetmask (Some line))) = message_item E b c line"
  by (simp add: item_with_def message_item_def Let_def)

lemma run_alone_command: "run_alone (CommandThread c E pMsg) b = CommandHandler c E pMsg b"
  by (cases c) (simp_all add: CommandThread_def run_alone_hello run_alone_password run_alone_logoff run_alone_ident
    run_alone_hNickChange run_alone_channels run_alone_accountmode run_alone_rmaccount)

text \<open>A thread that nobody interrupts has the effect and the undefined cases of \<open>execute_message\<close>.\<close>

lemma run_alone_message: "run_alone (message_thread E pMsg) b = execute_message E pMsg b"
  by (cases "pMsgLine pMsg") (simp_all add: message_thread_def execute_message_def run_alone_command run_alone_level item_with_level Let_def)

end
