(* ===== verification/Interleaving.thy ===== *)
theory Interleaving
  imports Threads
begin

text \<open>
  Command threads that interrupt each other.  \<open>weave\<close> lets the threads of Threads make their steps in any order, between
  the steps of the main loop and of the other threads.  What holds in it holds however the
  scheduler decides; what the program gets wrong in it is shown by schedules.
\<close>

section \<open>Interleaved runs\<close>

text \<open>
  The bot, the command threads that are inside of a command and, for the statements, the messages taken so far.  At most
  \<open>limit\<close> threads exist (the setting \<open>thread_limit\<close>).
\<close>

record 'f woven =
  w_bot :: "'f bot"
  w_threads :: "'f thread list"
  w_taken :: "MsgBuf_t list"

inductive weave :: "'f env \<Rightarrow> nat \<Rightarrow> 'f woven \<Rightarrow> 'f woven \<Rightarrow> bool" for E :: "'f env" and limit :: nat where
  take: "w_threads S = ts @ us \<Longrightarrow> length (w_threads S) < limit \<Longrightarrow> like E E' \<Longrightarrow>
    weave E limit S (S\<lparr>w_threads := ts @ message_thread E' m # us, w_taken := w_taken S @ [m]\<rparr>)"
| turn: "w_threads S = ts @ Step f # us \<Longrightarrow> f (w_bot S) = Some (t, b) \<Longrightarrow>
    weave E limit S (S\<lparr>w_bot := b, w_threads := ts @ t # us\<rparr>)"
| finish: "w_threads S = ts @ Stop # us \<Longrightarrow> weave E limit S (S\<lparr>w_threads := ts @ us\<rparr>)"
| others: "run E (\<lambda>_ _. False) (w_bot S) b \<Longrightarrow> weave E limit S (S\<lparr>w_bot := b\<rparr>)"

abbreviation weaves :: "'f env \<Rightarrow> nat \<Rightarrow> 'f woven \<Rightarrow> 'f woven \<Rightarrow> bool" where
  "weaves E limit \<equiv> (weave E limit)\<^sup>*\<^sup>*"

definition idle :: "'f bot \<Rightarrow> 'f woven" where
  "idle b = \<lparr>w_bot = b, w_threads = [], w_taken = []\<rparr>"

abbreviation W :: "'f bot \<Rightarrow> 'f thread list \<Rightarrow> MsgBuf_t list \<Rightarrow> 'f woven" where
  "W b ts ms \<equiv> \<lparr>w_bot = b, w_threads = ts, w_taken = ms\<rparr>"

lemma weave_turn: "f b = Some (t, b') \<Longrightarrow> weave E limit (W b (ts @ Step f # us) ms) (W b' (ts @ t # us) ms)"
  using weave.turn[of "W b (ts @ Step f # us) ms" ts f us t b' E limit] by simp

lemma weave_finish: "weave E limit (W b (ts @ Stop # us) ms) (W b (ts @ us) ms)"
  using weave.finish[of "W b (ts @ Stop # us) ms" ts us E limit] by simp

lemma weave_take_at: "length (ts @ us) < limit \<Longrightarrow> like E E' \<Longrightarrow>
    weave E limit (W b (ts @ us) ms) (W b (ts @ message_thread E' m # us) (ms @ [m]))"
  using weave.take[of "W b (ts @ us) ms" ts us limit E E' m] by simp

lemma weave_take: "length ts < limit \<Longrightarrow> like E E' \<Longrightarrow> weave E limit (W b ts ms) (W b (ts @ [message_thread E' m]) (ms @ [m]))"
  using weave_take_at[of ts "[]" limit E E' b ms m] by simp

text \<open>A thread may run to its end without being interrupted.\<close>

lemma weave_alone:
  "run_alone t b = Some b' \<Longrightarrow> weaves E limit (W b (ts @ t # us) ms) (W b' (ts @ us) ms)"
proof (induction t arbitrary: b)
  case Stop
  then show ?case using weave_finish[of E limit b ts us ms] by auto
next
  case (Step f)
  then obtain t b1 where t: "f b = Some (t, b1)" "run_alone t b1 = Some b'" by (auto simp: bind_eq_Some_conv)
  have "weaves E limit (W b1 (ts @ t # us) ms) (W b' (ts @ us) ms)"
    by (rule Step.IH[OF _ _ _ t(2), of "Some (t, b1)"]) (use rangeI[of f b] t(1) in \<open>auto simp: prod_set_defs\<close>)
  with weave_turn[of f b t b1 E limit ts us ms] t(1) show ?case by (auto intro: converse_rtranclp_into_rtranclp)
qed

lemma weave_other:
  assumes "\<exists>ms. weaves E limit S (W b [] ms)" "run E (\<lambda>_ _. False) b b'"
  shows "\<exists>ms. weaves E limit S (W b' [] ms)"
proof -
  obtain ms where ms: "weaves E limit S (W b [] ms)" using assms(1) by blast
  from weave.others[of E "W b [] ms" b' limit] assms(2)
  have "weave E limit (W b [] ms) (W b' [] ms)" by simp
  with ms show ?thesis by (meson rtranclp.rtrancl_into_rtrancl)
qed

lemma weave_run:
  assumes "run E (\<lambda>_ _. True) b0 b" "limit > 0"
  shows "\<exists>ms. weaves E limit (idle b0) (W b [] ms)"
  using assms(1)
proof (induction rule: run.induct)
  case start
  then show ?case by (auto simp: idle_def)
next
  case (execute b E' m b')
  then obtain ms where ms: "weaves E limit (idle b0) (W b [] ms)" by blast
  have "weave E limit (W b [] ms) (W b [message_thread E' m] (ms @ [m]))"
    using weave_take[of "[]" limit E E' b ms m] execute.hyps(2) assms(2) by simp
  moreover have "weaves E limit (W b [message_thread E' m] (ms @ [m])) (W b' [] (ms @ [m]))"
    using weave_alone[of "message_thread E' m" b b' E limit "[]" "[]"] execute.hyps by (simp add: run_alone_message)
  ultimately show ?case using ms by (meson rtranclp.rtrancl_into_rtrancl rtranclp_trans)
next
  case (read b E' line m b')
  show ?case by (rule weave_other[OF read(4)]) (rule run.read[OF run.start read(2,3)])
next
  case (hangup b E')
  show ?case by (rule weave_other[OF hangup(3)]) (rule run.hangup[OF run.start hangup(2)])
next
  case (timing b E' cfg t tm tm' b')
  show ?case by (rule weave_other[OF timing(4)]) (rule run.timing[OF run.start timing(2,3)])
next
  case (joining b E' b')
  show ?case by (rule weave_other[OF joining(4)]) (rule run.joining[OF run.start joining(2,3)])
next
  case (signalled b E')
  show ?case by (rule weave_other[OF signalled(3)]) (rule run.signalled[OF run.start signalled(2)])
qed

lemma weave_take_all:
  "env_ok E \<Longrightarrow> length ts + length ms \<le> limit \<Longrightarrow>
    weaves E limit (W b ts os) (W b (ts @ map (message_thread E) ms) (os @ ms))"
proof (induction ms arbitrary: ts os)
  case (Cons m ms)
  have "weave E limit (W b ts os) (W b (ts @ [message_thread E m]) (os @ [m]))"
    by (rule weave_take) (use Cons.prems like_refl in auto)
  moreover have "weaves E limit (W b (ts @ [message_thread E m]) (os @ [m]))
      (W b ((ts @ [message_thread E m]) @ map (message_thread E) ms) ((os @ [m]) @ ms))"
    by (rule Cons.IH) (use Cons.prems in auto)
  ultimately show ?case by simp
qed simp

text \<open>A schedule says which thread makes the next step.\<close>

fun play :: "nat list \<Rightarrow> 'f bot \<Rightarrow> 'f thread list \<Rightarrow> ('f bot \<times> 'f thread list) option" where
  "play [] b ts = Some (b, ts)"
| "play (i # is) b ts = (if i < length ts then (case ts ! i of Stop \<Rightarrow> None
     | Step f \<Rightarrow> do { (t, b) \<leftarrow> f b; play is b (ts[i := t]) }) else None)"

lemma play_weaves: "play is b ts = Some (b', ts') \<Longrightarrow> weaves E limit (W b ts ms) (W b' ts' ms)"
proof (induction "is" b ts rule: play.induct)
  case (2 i "is" b ts)
  then obtain f t b1 where f: "i < length ts" "ts ! i = Step f" "f b = Some (t, b1)" "play is b1 (ts[i := t]) = Some (b', ts')"
    by (auto split: if_splits thread.splits simp: bind_eq_Some_conv)
  have "weave E limit (W b (take i ts @ Step f # drop (Suc i) ts) ms) (W b1 (take i ts @ t # drop (Suc i) ts) ms)"
    by (rule weave_turn[of f, OF f(3)])
  then have "weave E limit (W b ts ms) (W b1 (ts[i := t]) ms)"
    using f(1,2) by (metis id_take_nth_drop upd_conv_take_nth_drop)
  moreover have "weaves E limit (W b1 (ts[i := t]) ms) (W b' ts' ms)" using 2 f by auto
  ultimately show ?case by (rule converse_rtranclp_into_rtranclp)
qed simp

text \<open>Schedules start when all threads have taken their message and read the level of its sender.\<close>

lemma weave_ask: "weave E limit (W b (ts @ ask q k # us) ms) (W b (ts @ k (q b) # us) ms)"
  unfolding ask_def by (rule weave_turn) simp

lemma weaves_ask: "weaves E limit (W b (ts @ k (q b) # us) ms) S \<Longrightarrow> weaves E limit (W b (ts @ ask q k # us) ms) S"
  by (rule converse_rtranclp_into_rtranclp[where r = "weave E limit", OF weave_ask])

lemma weave_level: "weaves E limit (W b (ts @ level_thread E ch nm k # us) ms) (W b (ts @ k (getUserLevel E b ch nm) # us) ms)"
  unfolding level_thread_def getUserLevel_def Let_def
proof (rule weaves_ask, cases "db_get E b NICKTOUSER_DB nm")
  case (Some l)
  show "weaves E limit (W b (ts @ (case db_get E b NICKTOUSER_DB nm of None \<Rightarrow> k NoneLevel | Some l \<Rightarrow>
     (case ch of None \<Rightarrow> ask (\<lambda>b. db_get E b ACCESS_DB (Some l)) (\<lambda>m. k (if m \<noteq> None then MasterLevel else LoggedLevel))
      | Some c \<Rightarrow> ask (\<lambda>b. db_get E b ACCESS_DB (Some (l @ c))) (\<lambda>r. case r of
          None \<Rightarrow> ask (\<lambda>b. db_get E b ACCESS_DB (Some l)) (\<lambda>m. k (if m \<noteq> None then MasterLevel else LoggedLevel))
        | Some r \<Rightarrow> k (if strchr r (CHR ''o'') \<noteq> None then OwnerLevel
             else if strchr r (CHR ''v'') \<noteq> None then FriendLevel else LoggedLevel)))) # us) ms)
    (W b (ts @ k (case db_get E b NICKTOUSER_DB nm of None \<Rightarrow> NoneLevel | Some l \<Rightarrow> (case ch of
         None \<Rightarrow> if db_get E b ACCESS_DB (Some l) \<noteq> None then MasterLevel else LoggedLevel
       | Some c \<Rightarrow> (case db_get E b ACCESS_DB (Some (l @ c)) of
            None \<Rightarrow> if db_get E b ACCESS_DB (Some l) \<noteq> None then MasterLevel else LoggedLevel
          | Some r \<Rightarrow> if strchr r (CHR ''o'') \<noteq> None then OwnerLevel
             else if strchr r (CHR ''v'') \<noteq> None then FriendLevel else LoggedLevel))) # us) ms)"
    unfolding Some by (cases ch) (auto simp del: V_get intro!: weaves_ask split: option.splits)
qed simp

definition ready :: "'f env \<Rightarrow> 'f bot \<Rightarrow> MsgBuf_t \<Rightarrow> bool" where
  "ready E b m \<longleftrightarrow> identify m \<noteq> CMD_NONE \<and> identify m \<noteq> CMD_COUNT \<and> (case pMsgLine m of None \<Rightarrow> False
     | Some line \<Rightarrow> AccessRight (UserLevel (message_item E b (identify m) line)) (identify m))"

definition command_of :: "'f env \<Rightarrow> 'f bot \<Rightarrow> MsgBuf_t \<Rightarrow> 'f thread" where
  "command_of E b m = CommandThread (identify m) E (message_item E b (identify m) (the (pMsgLine m)))"

lemma weave_command:
  assumes "ready E b m"
  shows "weaves E limit (W b (ts @ message_thread E m # us) ms) (W b (ts @ command_of E b m # us) ms)"
proof -
  obtain line where line: "pMsgLine m = Some line" "AccessRight (UserLevel (message_item E b (identify m) line)) (identify m)"
    using assms by (auto simp: ready_def split: option.splits)
  have id: "CMD_NONE \<noteq> identify m" "cmd_id (identify m) < cmd_id CMD_COUNT"
    using assms cmd_id_less[of "identify m"] by (auto simp: ready_def)
  obtain k where k: "message_thread E m = level_thread E (getAccessChannel (Some line)) (getNetmask (Some line)) k"
    "\<And>lv. k lv = (let item = item_with (identify m) line lv in if AccessRight (UserLevel item) (identify m) then
         (if CMD_NONE \<noteq> identify m \<and> cmd_id (identify m) < cmd_id CMD_COUNT then CommandThread (identify m) E item else Stop)
       else tell (\<lambda>b. Some (notice E (pCallingNick item) (Some ''Access denied'') b)) Stop)"
    unfolding message_thread_def need_def line option.case Let_def by blast
  have "k (getUserLevel E b (getAccessChannel (Some line)) (getNetmask (Some line))) = command_of E b m"
    unfolding k(2) item_with_level Let_def command_of_def line(1) option.sel using id line(2) by simp
  with weave_level[of E limit b ts "getAccessChannel (Some line)" "getNetmask (Some line)" k us ms] k(1) show ?thesis by simp
qed

lemma weave_commands:
  "list_all (ready E b) ms \<Longrightarrow> weaves E limit (W b (ts @ map (message_thread E) ms) os) (W b (ts @ map (command_of E b) ms) os)"
proof (induction ms arbitrary: ts)
  case (Cons m ms)
  have "weaves E limit (W b (ts @ message_thread E m # map (message_thread E) ms) os)
      (W b (ts @ command_of E b m # map (message_thread E) ms) os)" by (rule weave_command) (use Cons.prems in simp)
  moreover have "weaves E limit (W b ((ts @ [command_of E b m]) @ map (message_thread E) ms) os)
      (W b ((ts @ [command_of E b m]) @ map (command_of E b) ms) os)" by (rule Cons.IH) (use Cons.prems in simp)
  ultimately show ?case by simp
qed simp

lemma play_run:
  assumes "env_ok E" "length ms \<le> limit" "list_all (ready E b) ms" "play is b (map (command_of E b) ms) = Some (b', ts)"
  shows "weaves E limit (idle b) (W b' ts ms)"
proof -
  have "weaves E limit (idle b) (W b (map (message_thread E) ms) ms)"
    using weave_take_all[OF assms(1), of "[]" ms limit b "[]"] assms(2) by (simp add: idle_def)
  also have "weaves E limit (W b (map (message_thread E) ms) ms) (W b (map (command_of E b) ms) ms)"
    using weave_commands[OF assms(3), of limit "[]" ms] by simp
  also have "weaves E limit (W b (map (command_of E b) ms) ms) (W b' ts ms)" by (rule play_weaves[OF assms(4)])
  finally show ?thesis .
qed

section \<open>Safe threads\<close>

text \<open>
  A thread is safe for a property of the bot if each of its steps keeps it, whatever bot with this property the step
  finds; only the states with \<open>R\<close> are looked at.
\<close>

inductive safe :: "('f bot \<Rightarrow> bool) \<Rightarrow> ('f bot \<Rightarrow> bool) \<Rightarrow> 'f thread \<Rightarrow> bool" for P R where
  safe_stop [intro]: "safe P R Stop"
| safe_step: "(\<And>b t b'. P b \<Longrightarrow> R b \<Longrightarrow> f b = Some (t, b') \<Longrightarrow> P b') \<Longrightarrow>
    (\<And>b t b'. P b \<Longrightarrow> R b \<Longrightarrow> f b = Some (t, b') \<Longrightarrow> safe P R t) \<Longrightarrow> safe P R (Step f)"

inductive_cases safe_StepE: "safe P R (Step f)"

lemma safe_ask: "(\<And>b. P b \<Longrightarrow> R b \<Longrightarrow> safe P R (k (q b))) \<Longrightarrow> safe P R (ask q k)"
  unfolding ask_def by (rule safe_step) auto

lemma safe_act: "(\<And>b. P b \<Longrightarrow> P (snd (f b))) \<Longrightarrow> (\<And>x. safe P R (k x)) \<Longrightarrow> safe P R (act f k)"
  unfolding act_def by (rule safe_step) auto

lemma safe_tell: "(\<And>b. P b \<Longrightarrow> ensures P (m b)) \<Longrightarrow> safe P R k \<Longrightarrow> safe P R (tell m k)"
  unfolding tell_def by (rule safe_step) (auto simp: bind_eq_Some_conv dest: ensuresD)

lemma safe_crash: "safe P R crash"
  unfolding crash_def by (rule safe_step) auto

lemma safe_need: "(\<And>v. x = Some v \<Longrightarrow> safe P R (k v)) \<Longrightarrow> safe P R (need x k)"
  unfolding need_def by (auto simp: safe_crash split: option.splits)

lemma safe_if: "(c \<Longrightarrow> safe P R t) \<Longrightarrow> (\<not> c \<Longrightarrow> safe P R u) \<Longrightarrow> safe P R (if c then t else u)" by simp

lemma safe_option:
  "(x = None \<Longrightarrow> safe P R t) \<Longrightarrow> (\<And>v. x = Some v \<Longrightarrow> safe P R (f v)) \<Longrightarrow> safe P R (case x of None \<Rightarrow> t | Some v \<Rightarrow> f v)"
  by (cases x) auto

lemma safe_each: "(\<And>x k. safe P R k \<Longrightarrow> safe P R (body x k)) \<Longrightarrow> safe P R k \<Longrightarrow> safe P R (each body xs k)"
  by (induction xs) auto

lemmas safe = safe_stop safe_tell safe_crash safe_need safe_if safe_option

text \<open>The level that a thread finds when the bot is \<open>b1\<close>, \<open>b2\<close> and \<open>b3\<close> at its three readings.\<close>

definition level_seen :: "'f env \<Rightarrow> 'f bot \<Rightarrow> 'f bot \<Rightarrow> 'f bot \<Rightarrow> string option \<Rightarrow> string option \<Rightarrow> UserLevel_t" where
  "level_seen E b1 b2 b3 ch nm = (case db_get E b1 NICKTOUSER_DB nm of None \<Rightarrow> NoneLevel | Some l \<Rightarrow>
     (case (case ch of None \<Rightarrow> None | Some c \<Rightarrow> db_get E b2 ACCESS_DB (Some (l @ c))) of
        Some r \<Rightarrow> if strchr r (CHR ''o'') \<noteq> None then OwnerLevel else if strchr r (CHR ''v'') \<noteq> None then FriendLevel else LoggedLevel
      | None \<Rightarrow> if db_get E b3 ACCESS_DB (Some l) \<noteq> None then MasterLevel else LoggedLevel))"

lemma level_seen_same: "level_seen E b b b ch nm = getUserLevel E b ch nm"
  by (simp add: level_seen_def getUserLevel_def split: option.splits)

lemma safe_level:
  assumes k: "\<And>b1 b2 b3. P b1 \<Longrightarrow> R b1 \<Longrightarrow> R b2 \<Longrightarrow> R b3 \<Longrightarrow> safe P R (k (level_seen E b1 b2 b3 ch nm))"
  shows "safe P R (level_thread E ch nm k)"
  unfolding level_thread_def Let_def
proof (intro safe_option safe_ask)
  fix b1 assume "P b1" "R b1" "db_get E b1 NICKTOUSER_DB nm = None"
  then show "safe P R (k NoneLevel)" using k[of b1 b1 b1] by (simp add: level_seen_def)
next
  fix b1 l b3 assume "P b1" "R b1" "db_get E b1 NICKTOUSER_DB nm = Some l" "ch = None" "P b3" "R b3"
  then show "safe P R (k (if db_get E b3 ACCESS_DB (Some l) \<noteq> None then MasterLevel else LoggedLevel))"
    using k[of b1 b1 b3] by (simp add: level_seen_def)
next
  fix b1 l c b2 b3 assume "P b1" "R b1" "db_get E b1 NICKTOUSER_DB nm = Some l" "ch = Some c" "P b2" "R b2"
    "db_get E b2 ACCESS_DB (Some (l @ c)) = None" "P b3" "R b3"
  then show "safe P R (k (if db_get E b3 ACCESS_DB (Some l) \<noteq> None then MasterLevel else LoggedLevel))"
    using k[of b1 b2 b3] by (simp add: level_seen_def)
next
  fix b1 l c b2 r assume "P b1" "R b1" "db_get E b1 NICKTOUSER_DB nm = Some l" "ch = Some c" "P b2" "R b2"
    "db_get E b2 ACCESS_DB (Some (l @ c)) = Some r"
  then show "safe P R (k (if strchr r (CHR ''o'') \<noteq> None then OwnerLevel
           else if strchr r (CHR ''v'') \<noteq> None then FriendLevel else LoggedLevel))"
    using k[of b1 b2 b1] by (simp add: level_seen_def)
qed

text \<open>
  The keys that a command may write: \<open>!hello\<close> the nick of the sender, \<open>!pass\<close> a login that the sender's netmask was found
  under, \<open>!usermode\<close> for owners the rights in the channel of the request, the others the record of this channel.
\<close>

definition targets :: "'f env \<Rightarrow> ('f bot \<Rightarrow> bool) \<Rightarrow> Cmd_t \<Rightarrow> MsgItem_t \<Rightarrow> int \<Rightarrow> string \<Rightarrow> bool" where
  "targets E R c pMsg db k \<longleftrightarrow> c \<in> writers db \<and> (case c of
       CMD_HELLO \<Rightarrow> pCallingNick pMsg = Some k
     | CMD_PASS \<Rightarrow> \<exists>b. R b \<and> db_get E b NICKTOUSER_DB (pNetmask pMsg) = Some k
     | CMD_ACCOUNTMODE \<Rightarrow> UserLevel pMsg = MasterLevel \<or> (\<exists>l ch. pAccessChannel pMsg = Some ch \<and> k = l @ ch)
     | _ \<Rightarrow> pAccessChannel pMsg = Some k)"

section \<open>The contract of an invariant of threads\<close>

text \<open>
  In addition to \<open>bot_invariant\<close>, the store and the removal keep the property even when the test before them was made in another
  state; the store only has to for the keys that are \<open>mine\<close>.  What is read from the channel database is \<open>readable\<close>, and only readable records are written.
\<close>

locale thread_invariant = bot_invariant E P "\<lambda>_ _. True" writes removes restarts
  for E :: "'f env" and P :: "'f bot \<Rightarrow> bool" and writes removes :: "int set" and restarts :: bool +
  fixes readable :: "string \<Rightarrow> bool" and mine :: "int \<Rightarrow> string \<Rightarrow> bool"
  assumes P_store: "P b \<Longrightarrow> db \<in> {USER_DB, ACCESS_DB} \<Longrightarrow> mine db k \<Longrightarrow> P (snd (db_store E flag db k v b))"
    and P_store_channel: "P b \<Longrightarrow> mine CHANNEL_DB k \<Longrightarrow> readable v \<Longrightarrow> P (snd (db_store E flag CHANNEL_DB k v b))"
    and P_erase: "P b \<Longrightarrow> db \<noteq> NICKTOUSER_DB \<Longrightarrow> db \<noteq> USERTONICK_DB \<Longrightarrow> db \<in> removes \<Longrightarrow> P (snd (db_erase E db k b))"
    and P_tables: "P b \<Longrightarrow> P (log_on_tables E n l b)"
    and P_read: "P b \<Longrightarrow> db_get E b CHANNEL_DB (Some k) = Some s \<Longrightarrow> readable s"
    and readable_new: "readable [TAB, TAB]"
    and readable_changed: "readable s \<Longrightarrow> StrToChannelData s = Some d \<Longrightarrow> (wf_data d \<longrightarrow> wf_data d') \<Longrightarrow> readable (ChannelDataToStr d')"
    and P_log: "P b \<Longrightarrow> P (snd (db_store E flag TIMELOG_DB k v b))"
begin

lemma safe_add:
  "db \<in> {USER_DB, ACCESS_DB} \<Longrightarrow> (\<And>n. key = Some n \<Longrightarrow> mine db n) \<Longrightarrow> (\<And>r. safe P R (k r)) \<Longrightarrow>
    safe P R (add_thread E db key v k)"
  "mine CHANNEL_DB n \<Longrightarrow> readable s \<Longrightarrow> (\<And>r. safe P R (k r)) \<Longrightarrow> safe P R (add_thread E CHANNEL_DB (Some n) (Some s) k)"
  unfolding add_thread_def by (auto intro!: safe_ask safe_act P_store P_store_channel split: option.splits)

lemma safe_replace:
  "db \<in> {USER_DB, ACCESS_DB} \<Longrightarrow> (\<And>n. key = Some n \<Longrightarrow> mine db n) \<Longrightarrow> (\<And>r. safe P R (k r)) \<Longrightarrow>
    safe P R (replace_thread E db key v k)"
  "mine CHANNEL_DB n \<Longrightarrow> readable s \<Longrightarrow> (\<And>r. safe P R (k r)) \<Longrightarrow> safe P R (replace_thread E CHANNEL_DB (Some n) (Some s) k)"
  unfolding replace_thread_def by (auto intro!: safe_ask safe_act P_store P_store_channel split: option.splits)

lemma safe_del:
  "db \<noteq> NICKTOUSER_DB \<Longrightarrow> db \<noteq> USERTONICK_DB \<Longrightarrow> db \<in> removes \<Longrightarrow> (\<And>r. safe P R (k r)) \<Longrightarrow> safe P R (del_thread E db key k)"
  unfolding del_thread_def by (auto intro!: safe_ask safe_act P_erase split: option.splits)

lemma safe_check: "(\<And>r. safe P R (k r)) \<Longrightarrow> safe P R (check_thread E db key v k)"
  unfolding check_thread_def by (auto intro!: safe_ask safe_need split: option.splits)

lemma safe_log_on: "safe P R k \<Longrightarrow> safe P R (log_on_thread E n l k)"
  unfolding log_on_thread_def add_thread_def replace_thread_def by (auto intro!: safe_act safe_ask P_tables P_log)

lemma safe_log_out: "safe P R k \<Longrightarrow> safe P R (log_out_thread E l k)"
  unfolding log_out_thread_def by (auto intro!: safe_act P_log_out)

lemma safe_rights: "ACCESS_DB \<in> removes \<Longrightarrow> safe P R k \<Longrightarrow> safe P R (rmAccessRights_thread E l k)"
  unfolding rmAccessRights_thread_def by (intro safe_del safe_ask safe_need safe_each) auto

lemma safe_rmAccount: "{ACCESS_DB, USER_DB, TIMELOG_DB} \<subseteq> removes \<Longrightarrow> safe P R k \<Longrightarrow> safe P R (rmAccount_thread E l k)"
  unfolding rmAccount_thread_def by (intro safe_log_out safe_rights safe_del) auto

lemmas safe_thread = safe safe_ask safe_check safe_log_on safe_log_out safe_each

lemma safe_hello:
  "(\<And>n. pCallingNick pMsg = Some n \<Longrightarrow> mine USER_DB n) \<Longrightarrow> (\<And>n. pCallingNick pMsg = Some n \<Longrightarrow> mine ACCESS_DB n) \<Longrightarrow>
    safe P R (hello_thread E pMsg)"
  unfolding hello_thread_def hello_listed_thread_def hello_master_thread_def Let_def
  by (intro safe_thread safe_add safe_replace steps) simp_all

lemma safe_password:
  "(\<And>l. \<exists>b. R b \<and> db_get E b NICKTOUSER_DB (pNetmask pMsg) = Some l \<Longrightarrow> mine USER_DB l) \<Longrightarrow> safe P R (password_thread E pMsg)"
  unfolding password_thread_def Let_def by (intro safe_thread safe_replace steps) auto

lemma safe_logoff: "safe P R (logoff_thread E pMsg)"
  unfolding logoff_thread_def logoff_channel_thread_def by (intro safe_thread steps)

lemma safe_ident: "safe P R (ident_thread E pMsg)"
  unfolding ident_thread_def ident_login_thread_def ident_channel_thread_def by (intro safe_thread steps)

lemma safe_hNickChange: "safe P R (hNickChange_thread E pMsg)"
  unfolding hNickChange_thread_def Let_def by (intro safe_thread)

lemma safe_channels:
  "(\<And>ch. pAccessChannel pMsg = Some ch \<Longrightarrow> mine CHANNEL_DB ch) \<Longrightarrow> safe P R (addChannel_thread E pMsg)" "CHANNEL_DB \<in> removes \<Longrightarrow> safe P R (rmChannel_thread E pMsg)"
  subgoal unfolding addChannel_thread_def by (intro safe_thread safe_add readable_new ensures_Some steps) simp_all
  subgoal unfolding rmChannel_thread_def by (intro safe_thread safe_del ensures_Some steps ensures_if) (simp_all add: steps)
  done

lemma safe_settings:
  "(\<And>ch. pAccessChannel pMsg = Some ch \<Longrightarrow> mine CHANNEL_DB ch) \<Longrightarrow> safe P R (setGreeting_thread E pMsg)" "(\<And>ch. pAccessChannel pMsg = Some ch \<Longrightarrow> mine CHANNEL_DB ch) \<Longrightarrow> safe P R (setTopic_thread E pMsg)"
  "(\<And>ch. pAccessChannel pMsg = Some ch \<Longrightarrow> mine CHANNEL_DB ch) \<Longrightarrow> safe P R (chanmode_thread E pMsg)"
  subgoal unfolding setGreeting_thread_def Let_def
    by (intro safe_thread safe_replace steps readable_changed[OF P_read]) (auto simp: wf_data_def intro: wf_parameters)
  subgoal unfolding setTopic_thread_def Let_def
    by (intro safe_thread safe_replace steps ensures_Some readable_changed[OF P_read]) (auto simp: wf_data_def intro: wf_parameters)
  subgoal unfolding chanmode_thread_def Let_def
    by (intro safe_thread safe_replace steps readable_changed[OF P_read])
      (auto simp: wf_data_def intro!: wf_merge_modes dest!: StrToChannelMode_wf[rotated] getParameters_trimmed)
  done

lemma safe_accountmode_rights:
  "mine ACCESS_DB (if m1 = CHR ''m'' then l else l @ ch) \<Longrightarrow> ACCESS_DB \<in> removes \<Longrightarrow> safe P R k \<Longrightarrow>
    safe P R (accountmode_rights_thread E ch l old m0 m1 k)"
  unfolding accountmode_rights_thread_def Let_def
  by (intro safe_thread safe_rights safe_add safe_replace safe_del) simp_all

lemma safe_accountmode_nick: "safe P R k \<Longrightarrow> safe P R (accountmode_nick_thread E ch l old m0 m1 k)"
  unfolding accountmode_nick_thread_def Let_def by (intro safe_thread steps)

lemma safe_accountmode_set:
  "mine ACCESS_DB (l @ ch) \<Longrightarrow> (UserLevel pMsg = MasterLevel \<Longrightarrow> mine ACCESS_DB l) \<Longrightarrow> ACCESS_DB \<in> removes \<Longrightarrow>
    safe P R (accountmode_set_thread E pMsg ch l pPos old)"
  unfolding accountmode_set_thread_def by (intro safe_thread safe_accountmode_rights safe_accountmode_nick steps) auto

lemma safe_accountmode:
  "(\<And>ch l. pAccessChannel pMsg = Some ch \<Longrightarrow> mine ACCESS_DB (l @ ch)) \<Longrightarrow>
    (\<And>l. UserLevel pMsg = MasterLevel \<Longrightarrow> mine ACCESS_DB l) \<Longrightarrow> ACCESS_DB \<in> removes \<Longrightarrow> safe P R (accountmode_thread E pMsg)"
  unfolding accountmode_thread_def Let_def by (intro safe_thread safe_accountmode_set steps)

lemma safe_rmaccount: "{ACCESS_DB, USER_DB, TIMELOG_DB} \<subseteq> removes \<Longrightarrow> safe P R (rmaccount_thread E pMsg)"
  unfolding rmaccount_thread_def Let_def by (intro safe_thread safe_rmAccount steps)

lemma safe_command:
  assumes "\<And>db k. targets E R c pMsg db k \<Longrightarrow> mine db k" "\<And>db. c \<in> removers db \<Longrightarrow> db \<in> removes" "c = CMD_RESTART \<Longrightarrow> restarts"
  shows "safe P R (CommandThread c E pMsg)"
proof -
  have "safe P R (tell (CommandHandler c E pMsg) Stop)" if "\<And>db. c \<notin> writers db"
    by (intro safe P_CommandHandler) (use assms(2,3) that in auto)
  then show ?thesis
    using assms(1)[of USER_DB] assms(1)[of ACCESS_DB] assms(1)[of CHANNEL_DB]
      assms(2)[of USER_DB] assms(2)[of ACCESS_DB] assms(2)[of CHANNEL_DB] assms(2)[of TIMELOG_DB]
    by (cases c) (simp_all add: targets_def CommandThread_def writers_def removers_def safe_hello safe_password safe_logoff safe_ident
      safe_hNickChange safe_channels safe_settings safe_accountmode safe_rmaccount)
qed

lemma safe_message:
  assumes "\<And>line b1 b2 b3 item. R b1 \<Longrightarrow> R b2 \<Longrightarrow> R b3 \<Longrightarrow> pMsgLine m = Some line \<Longrightarrow>
      item = item_with (identify m) line (level_seen E b1 b2 b3 (getAccessChannel (Some line)) (getNetmask (Some line))) \<Longrightarrow>
      AccessRight (UserLevel item) (identify m) \<Longrightarrow>
      (\<forall>db k. targets E R (identify m) item db k \<longrightarrow> mine db k) \<and> (\<forall>db. identify m \<in> removers db \<longrightarrow> db \<in> removes)
      \<and> (identify m = CMD_RESTART \<longrightarrow> restarts)"
  shows "safe P R (message_thread E m)"
  unfolding message_thread_def Let_def
proof (intro safe_need safe_level)
  fix line b1 b2 b3 assume a: "R b1" "R b2" "R b3" "pMsgLine m = Some line"
  let ?item = "item_with (identify m) line (level_seen E b1 b2 b3 (getAccessChannel (Some line)) (getNetmask (Some line)))"
  from assms[OF a refl] show "safe P R (if AccessRight (UserLevel ?item) (identify m)
       then if CMD_NONE \<noteq> identify m \<and> cmd_id (identify m) < cmd_id CMD_COUNT then CommandThread (identify m) E ?item else Stop
       else tell (\<lambda>b. Some (notice E (pCallingNick ?item) (Some ''Access denied'') b)) Stop)"
    by (intro safe_thread safe_command ensures_Some steps) blast+
qed

end

text \<open>The store and the removal on the maps that the databases stand for.\<close>

lemma V_store:
  assumes "env_ok E"
  shows "V E (snd (db_store E flag db k v b)) =
    (if valid_db db \<and> (flag = GDBM_REPLACE \<or> V E b db (StrToLower k) = None)
     then (V E b)(db := (V E b db)(StrToLower k \<mapsto> db_value (crypt E) db v)) else V E b)"
proof (cases "valid_db db")
  case True
  have G: "gdbm_ok (gdbm E)" using assms by (simp add: env_ok_def)
  show ?thesis
    using True G by (cases flag; cases "gdbm_fetch (gdbm E) (dbs b db) (StrToLower k)")
      (auto simp: gdbm_ok_def db_store_def view_def get_dbf_def split_beta fun_eq_iff)
qed (auto simp: db_store_def get_dbf_def)

lemma V_erase:
  assumes "env_ok E"
  shows "V E (snd (db_erase E db k b)) = (if valid_db db then (V E b)(db := (V E b db)(StrToLower k := None)) else V E b)"
proof (cases "valid_db db")
  case True
  have G: "gdbm_ok (gdbm E)" using assms by (simp add: env_ok_def)
  show ?thesis using True G by (auto simp: gdbm_ok_def db_erase_def view_def get_dbf_def split_beta fun_eq_iff)
qed (auto simp: db_erase_def get_dbf_def)

section \<open>Invariants of interleaved runs\<close>

abbreviation record_text :: "string \<Rightarrow> bool" where
  "record_text s \<equiv> \<exists>d. wf_data d \<and> s = ChannelDataToStr d"

lemma record_text_changed:
  assumes "record_text s" "StrToChannelData s = Some d" "wf_data d \<longrightarrow> wf_data d'"
  shows "record_text (ChannelDataToStr d')"
proof -
  obtain d0 where d0: "wf_data d0" "s = ChannelDataToStr d0" using assms(1) by blast
  with assms(2) have "d = d0" using channel_records.dec_enc[of d0] by simp
  with d0(1) assms(3) show ?thesis by blast
qed

lemma record_text_new: "record_text [TAB, TAB]"
  using blank_record by metis

lemma stored_tables: "env_ok E \<Longrightarrow> stored_ok E b \<Longrightarrow> stored_ok E (log_on_tables E n l b)"
  unfolding log_on_tables_def Let_def
  by (auto intro!: stored_add stored_replace stored_add_any stored_del split: option.splits)

interpretation woven_records: thread_invariant E "\<lambda>b. env_ok E \<longrightarrow> stored_ok E b"
  "{USER_DB, ACCESS_DB, TIMELOG_DB, CHANNEL_DB}" "- {NICKTOUSER_DB, USERTONICK_DB}" True "\<lambda>s. env_ok E \<longrightarrow> record_text s" "\<lambda>_ _. True"
  for E :: "'f env"
proof (rule thread_invariant.intro[OF records.bot_invariant_axioms], unfold_locales)
  fix s d d' assume "env_ok E \<longrightarrow> record_text s" "StrToChannelData s = Some d" "wf_data d \<longrightarrow> wf_data d'"
  then show "env_ok E \<longrightarrow> record_text (ChannelDataToStr d')" using record_text_changed by blast
next
  fix b :: "'f bot" and n l assume "env_ok E \<longrightarrow> stored_ok E b"
  then show "env_ok E \<longrightarrow> stored_ok E (log_on_tables E n l b)" using stored_tables by blast
qed (use record_text_new in \<open>auto simp: V_store V_erase stored_ok_def keys_lower_def split: if_splits\<close>)

interpretation woven_unwritten: thread_invariant E "\<lambda>b. env_ok E \<and> guarded db \<longrightarrow> lacks E db k v b"
  "{USER_DB, ACCESS_DB, TIMELOG_DB, CHANNEL_DB} - {db}" "- {NICKTOUSER_DB, USERTONICK_DB}" True "\<lambda>_. True"
  "\<lambda>db' k'. db' \<noteq> db \<or> StrToLower k' \<noteq> k" for E :: "'f env" and db k v
  by (rule thread_invariant.intro[OF unwritten.bot_invariant_axioms], unfold_locales)
    (auto simp: V_store V_erase lacks_def log_on_tables_frame split: if_splits)

lemma taken_grow: "weaves E limit S S' \<Longrightarrow> set (w_taken S) \<subseteq> set (w_taken S')"
  by (induction rule: rtranclp_induct) (auto elim!: weave.cases)

text \<open>The states of the bot in a run that leads to \<open>S\<close>.\<close>

definition met :: "'f env \<Rightarrow> nat \<Rightarrow> 'f bot \<Rightarrow> 'f woven \<Rightarrow> 'f bot \<Rightarrow> bool" where
  "met E limit b0 S b \<longleftrightarrow> (\<exists>S1. weaves E limit (idle b0) S1 \<and> weaves E limit S1 S \<and> w_bot S1 = b)"

text \<open>If the threads of all messages taken are safe for a property that the other threads keep, it holds.\<close>

lemma weave_keeps_step:
  assumes outside: "\<And>E'. like E E' \<Longrightarrow> kept_outside E' P"
    and threads: "\<And>E' m. like E E' \<Longrightarrow> m \<in> M \<Longrightarrow> safe P R (message_thread E' m)"
    and "weave E limit S S'" "set (w_taken S') \<subseteq> M" "P (w_bot S)" "R (w_bot S)" "\<forall>t \<in> set (w_threads S). safe P R t"
  shows "P (w_bot S') \<and> (\<forall>t \<in> set (w_threads S'). safe P R t)"
  using assms(3-7)
proof (cases rule: weave.cases)
  case (take ts us E' m)
  then show ?thesis using threads[of E' m] assms(4,5,7) by auto
next
  case (turn ts f us t b)
  have "safe P R (Step f)" using assms(7) turn by auto
  then have "P b \<and> safe P R t" using turn assms(5,6) by (auto elim!: safe_StepE)
  then show ?thesis using turn assms(7) by auto
next
  case (finish ts us)
  then show ?thesis using assms(5,7) by auto
next
  case (others b)
  have "P b" by (rule run_keeps[where ok = "\<lambda>_ _. False", OF outside others(2) assms(5)]) auto
  then show ?thesis using others assms(7) by auto
qed

lemma weave_keeps:
  assumes outside: "\<And>E'. like E E' \<Longrightarrow> kept_outside E' P"
    and run: "weaves E limit (idle b0) S" "P b0"
    and threads: "\<And>E' m. like E E' \<Longrightarrow> m \<in> set (w_taken S) \<Longrightarrow> safe P (met E limit b0 S) (message_thread E' m)"
  shows "P (w_bot S)"
proof -
  have "weaves E limit S' S \<Longrightarrow> P (w_bot S') \<and> (\<forall>t \<in> set (w_threads S'). safe P (met E limit b0 S) t)"
    if "weaves E limit (idle b0) S'" for S' using that
  proof (induction rule: rtranclp_induct)
    case base
    then show ?case using run(2) by (simp add: idle_def)
  next
    case (step S1 S2)
    have later: "weaves E limit S1 S" using step(2,4) by (rule converse_rtranclp_into_rtranclp)
    have "met E limit b0 S (w_bot S1)" unfolding met_def using step(1) later by blast
    then show ?case
      using weave_keeps_step[OF outside threads step(2) taken_grow[OF step(4)]] step.IH[OF later] by blast
  qed
  from this[OF run(1)] show ?thesis by simp
qed

lemma logged_bot_stored: "stored_ok exact_env logged_bot"
proof -
  have "V exact_env empty_bot db = Map.empty" for db
    by (auto simp: fun_eq_iff view_def exact_env_def empty_bot_def empty_dbs_def get_dbf_def alist_gdbm_def)
  then have "V exact_env logged_bot CHANNEL_DB = [StrToLower ''#c'' \<mapsto> [TAB, TAB]]"
    unfolding logged_bot_def by (simp add: V_log_on V_log_on_tables)
  then show ?thesis using logged_bot_ok(2) record_text_new by (simp add: stored_ok_def)
qed

text \<open>The threads refine the handlers: a command thread that nobody interrupts has exactly the effect and the undefined
  cases of the handler of its command, and every run in which commands are executed as a whole is one of the
  interleaved runs, for every limit on the number of threads.\<close>

lemma threads_refine_handlers:
  "run_alone (message_thread E m) b = execute_message E m b
   \<and> (0 < limit \<longrightarrow> run E (\<lambda>_ _. True) b0 b' \<longrightarrow> (\<exists>ms. weaves E limit (idle b0) (W b' [] ms)))"
  using run_alone_message weave_run by blast

lemma records_interleaved:
  assumes "stored_ok E b0" "weaves E limit (idle b0) S"
  shows "stored_ok E (w_bot S)"
proof (rule weave_keeps[where P = "stored_ok E", OF _ assms(2)])
  show "stored_ok E b0" by (rule assms(1))
  fix E' assume l: "like E E'"
  show "kept_outside E' (stored_ok E)" using records.P_outside[of E'] unfolding like_stored[OF l] by simp
  fix m show "safe (stored_ok E) (met E limit b0 S) (message_thread E' m)"
    using woven_records.safe_message[of "met E limit b0 S" m E'] writers_removers unfolding like_stored[OF l] by blast
qed

text \<open>C12: However the scheduler lets the command threads interrupt each other between two accesses to the databases, and whatever
  the other threads do in between: every channel record can be decoded and is the text of a well-formed record.\<close>

theorem records_readable_interleaved:
  assumes "env_ok E" "stored_ok E b0" "weaves E limit (idle b0) S" "db_get E (w_bot S) CHANNEL_DB (Some ch) = Some s"
  shows "\<exists>d. wf_data d \<and> StrToChannelData s = Some d \<and> s = ChannelDataToStr d"
  by (rule stored_decodes[OF records_interleaved[OF assms(2,3)] assms(4)])

definition request_of :: "Cmd_t \<Rightarrow> string \<Rightarrow> MsgBuf_t" where
  "request_of c s = \<lparr>identify = c, pMsgLine = Some s\<rparr>"

text \<open>The lost update: \<open>!topic\<close> is interrupted by \<open>!greeting\<close> between the reading and the writing of the record.\<close>

definition topic_and_greeting :: "MsgBuf_t list" where
  "topic_and_greeting = [request_of CMD_SET_TOPIC '':bob!u@h PRIVMSG #c :!topic news'',
     request_of CMD_SET_GREATING '':bob!u@h PRIVMSG #c :!greeting hi'']"

lemma topic_and_greeting_ready: "list_all (ready exact_env logged_bot) topic_and_greeting"
  by code_simp

lemma lost_update:
  "map_option (\<lambda>(b, ts). (db_get exact_env b CHANNEL_DB (Some ''#c''), map (\<lambda>t. case t of Stop \<Rightarrow> True | _ \<Rightarrow> False) ts))
     (play (0 # replicate 4 1 @ replicate 4 0) logged_bot (map (command_of exact_env logged_bot) topic_and_greeting))
   = Some (Some (TAB # ''news'' @ [TAB]), [True, True])"
  by code_simp

lemma records_readable_interleaved_witness:
  "\<exists>d. wf_data d \<and> StrToChannelData (TAB # ''news'' @ [TAB]) = Some d"
proof -
  obtain b ts where b: "play (0 # replicate 4 1 @ replicate 4 0) logged_bot (map (command_of exact_env logged_bot) topic_and_greeting)
      = Some (b, ts)" "db_get exact_env b CHANNEL_DB (Some ''#c'') = Some (TAB # ''news'' @ [TAB])"
    using lost_update by auto
  have "weaves exact_env 2 (idle logged_bot) (W b ts topic_and_greeting)"
    by (rule play_run[OF exact_env_ok _ topic_and_greeting_ready b(1)]) (simp add: topic_and_greeting_def)
  from records_readable_interleaved[OF exact_env_ok logged_bot_stored this] b(2) show ?thesis by fastforce
qed


text \<open>
  The condition on \<open>!hello\<close> of a whole command, that there is no account at all, does not survive: when two users say
  \<open>!hello\<close> to a bot without accounts and both threads have listed the accounts before one adds an account, both are masters.
\<close>

definition two_hellos :: "MsgBuf_t list" where
  "two_hellos = [request_of CMD_HELLO '':ann!u@h PRIVMSG #c :!hello'', request_of CMD_HELLO '':bob!v@h PRIVMSG #c :!hello'']"

lemma two_hellos_ready: "list_all (ready exact_env empty_bot) two_hellos"
  by code_simp

lemma two_masters:
  "map_option (\<lambda>(b, ts). (db_get exact_env b ACCESS_DB (Some ''ann''), db_get exact_env b ACCESS_DB (Some ''bob''),
       map (\<lambda>t. case t of Stop \<Rightarrow> True | _ \<Rightarrow> False) ts))
     (play ([0, 1] @ replicate 13 0 @ replicate 13 1) empty_bot (map (command_of exact_env empty_bot) two_hellos))
   = Some (Some ''m'', Some ''m'', [True, True])"
  by code_simp


end
