(* ===== verification/Logins.thy ===== *)
theory Logins
  imports Interleaving
begin

text \<open>
  What interruptions leave of the inverse login tables.  The schedule of \<open>Races.two_logins\<close> breaks \<open>logins_ok\<close>, but only in one
  direction: the table that levels are computed from always points to an account that points back.
\<close>

definition points_back :: "'f env \<Rightarrow> 'f bot \<Rightarrow> bool" where
  "points_back E b \<longleftrightarrow> (\<forall>n l. V E b NICKTOUSER_DB n = Some l \<longrightarrow>
     (\<exists>n'. V E b USERTONICK_DB (StrToLower l) = Some n' \<and> StrToLower n' = n))"

lemma points_backD:
  "points_back E b \<Longrightarrow> V E b NICKTOUSER_DB n = Some l \<Longrightarrow> \<exists>n'. V E b USERTONICK_DB (StrToLower l) = Some n' \<and> StrToLower n' = n"
  by (simp add: points_back_def)

lemma logins_ok_points: "logins_ok E b \<Longrightarrow> points_back E b"
  by (simp add: logins_ok_def points_back_def)

lemma points_cong:
  "V E b' NICKTOUSER_DB = V E b NICKTOUSER_DB \<Longrightarrow> V E b' USERTONICK_DB = V E b USERTONICK_DB \<Longrightarrow> points_back E b' = points_back E b"
  by (simp add: points_back_def)

lemma points_same: "dbs b' = dbs b \<Longrightarrow> points_back E b' = points_back E b"
  by (rule points_cong) simp_all

lemma points_fields [simp]: "points_back E (b\<lparr>callbacks := cs\<rparr>) = points_back E b" "points_back E (b\<lparr>pBotname := nk\<rparr>) = points_back E b"
    "points_back E (b\<lparr>stop := w\<rparr>) = points_back E b" "points_back E (b\<lparr>again := w\<rparr>) = points_back E b"
  by (rule points_same; simp)+

text \<open>A new entry that points to an account that points back, and a removal of the entries of one netmask.\<close>

lemma points_change:
  assumes "points_back E b"
    and user: "\<And>l. l \<noteq> k \<Longrightarrow> V E b' USERTONICK_DB l = V E b USERTONICK_DB l"
    and nick: "\<And>n l. V E b' NICKTOUSER_DB n = Some l \<Longrightarrow> V E b NICKTOUSER_DB n = Some l \<and> StrToLower l \<noteq> k
      \<or> StrToLower l = k \<and> (\<exists>n'. V E b' USERTONICK_DB k = Some n' \<and> StrToLower n' = n)"
  shows "points_back E b'"
  unfolding points_back_def
proof (intro allI impI)
  fix n l assume "V E b' NICKTOUSER_DB n = Some l"
  from nick[OF this] points_backD[OF assms(1), of n l] user
  show "\<exists>n'. V E b' USERTONICK_DB (StrToLower l) = Some n' \<and> StrToLower n' = n" by metis
qed

lemma points_log_out:
  assumes "env_ok E" "points_back E b"
  shows "points_back E (log_out E l b)"
proof (rule points_change[OF assms(2), where k = "StrToLower l"])
  fix n x assume a: "V E (log_out E l b) NICKTOUSER_DB n = Some x"
  then have "V E b NICKTOUSER_DB n = Some x" using assms(1) by (auto simp: V_log_out split: option.splits if_splits)
  with points_backD[OF assms(2) this] a assms(1)
  show "V E b NICKTOUSER_DB n = Some x \<and> StrToLower x \<noteq> StrToLower l
      \<or> StrToLower x = StrToLower l \<and> (\<exists>n'. V E (log_out E l b) USERTONICK_DB (StrToLower l) = Some n' \<and> StrToLower n' = n)"
    by (auto simp: V_log_out split: option.splits if_splits)
qed (use assms(1) in \<open>auto simp: V_log_out split: option.splits\<close>)

lemma points_log_on_tables:
  assumes "env_ok E" "points_back E b"
  shows "points_back E (log_on_tables E n l b)"
proof (rule points_change[OF assms(2), where k = "StrToLower l"])
  show "V E (log_on_tables E n l b) USERTONICK_DB x = V E b USERTONICK_DB x" if "x \<noteq> StrToLower l" for x
    using that assms(1) by (cases n) (auto simp: log_on_tables_def Let_def split: option.splits)
  fix m x assume a: "V E (log_on_tables E n l b) NICKTOUSER_DB m = Some x"
  show "V E b NICKTOUSER_DB m = Some x \<and> StrToLower x \<noteq> StrToLower l
      \<or> StrToLower x = StrToLower l \<and> (\<exists>n'. V E (log_on_tables E n l b) USERTONICK_DB (StrToLower l) = Some n' \<and> StrToLower n' = m)"
    using a points_backD[OF assms(2), of m x] assms(1)
    by (cases n) (auto simp: log_on_tables_def Let_def split: option.splits if_splits)
qed

lemma points_log_on: "env_ok E \<Longrightarrow> points_back E b \<Longrightarrow> points_back E (log_on E n l b)"
  using points_log_on_tables[of E b n l] points_cong[of E "log_on E n l b" "log_on_tables E n l b"] by (simp add: V_log_on)

lemma points_other:
  assumes "env_ok E" "points_back E b" "db \<noteq> NICKTOUSER_DB" "db \<noteq> USERTONICK_DB"
  shows "points_back E (snd (db_del E db (Some k) b))" "points_back E (snd (db_add E db (Some k) (Some v) b))"
    "points_back E (snd (db_replace E db (Some k) (Some v) b))" "points_back E (snd (db_store E flag db k v b))"
    "points_back E (snd (db_erase E db k b))"
proof -
  have *: "points_back E b'" if "valid_db db \<Longrightarrow> \<forall>d. d \<noteq> db \<longrightarrow> V E b' d = V E b d" "\<not> valid_db db \<Longrightarrow> V E b' = V E b" for b'
    using that assms points_cong[of E b' b] by (cases "valid_db db") (metis, simp)
  show "points_back E (snd (db_del E db (Some k) b))" "points_back E (snd (db_add E db (Some k) (Some v) b))"
    "points_back E (snd (db_replace E db (Some k) (Some v) b))" "points_back E (snd (db_store E flag db k v b))"
    "points_back E (snd (db_erase E db k b))"
    by (rule *; use assms(1) in \<open>auto simp: V_store V_erase\<close>)+
qed

interpretation points: bot_invariant E "\<lambda>b. env_ok E \<longrightarrow> points_back E b" "\<lambda>_ _. True"
  "{USER_DB, ACCESS_DB, TIMELOG_DB, CHANNEL_DB}" "- {NICKTOUSER_DB, USERTONICK_DB}" True for E :: "'f env"
proof unfold_locales
  fix b :: "'f bot" and db k v assume a: "env_ok E \<longrightarrow> points_back E b"
  show "db \<in> {USER_DB, ACCESS_DB, TIMELOG_DB} \<Longrightarrow> env_ok E \<longrightarrow> points_back E (snd (db_add E db (Some k) (Some v) b))"
    "db \<in> {USER_DB, ACCESS_DB, TIMELOG_DB} \<Longrightarrow> env_ok E \<longrightarrow> points_back E (snd (db_replace E db (Some k) (Some v) b))"
    using a by (auto intro!: points_other)
qed (use points_same in \<open>auto simp: points_log_out points_log_on points_other dest: sends_fields\<close>)

interpretation woven_points: thread_invariant E "\<lambda>b. env_ok E \<longrightarrow> points_back E b"
  "{USER_DB, ACCESS_DB, TIMELOG_DB, CHANNEL_DB}" "- {NICKTOUSER_DB, USERTONICK_DB}" True "\<lambda>_. True" "\<lambda>_ _. True"
  for E :: "'f env"
  by (rule thread_invariant.intro[OF points.bot_invariant_axioms], unfold_locales)
    (auto simp: points_log_on_tables points_other)

lemma like_points: "like E E' \<Longrightarrow> (\<lambda>b. env_ok E' \<longrightarrow> points_back E' b) = points_back E"
  by (simp add: fun_eq_iff like_def points_back_def)

lemma points_interleaved:
  assumes "points_back E b0" "weaves E limit (idle b0) S"
  shows "points_back E (w_bot S)"
proof (rule weave_keeps[where P = "points_back E", OF _ assms(2)])
  show "points_back E b0" by (rule assms(1))
  fix E' assume l: "like E E'"
  show "kept_outside E' (points_back E)" using points.P_outside[of E'] unfolding like_points[OF l] by simp
  fix m show "safe (points_back E) (met E limit b0 S) (message_thread E' m)"
    using woven_points.safe_message[of "met E limit b0 S" m E'] writers_removers unfolding like_points[OF l] by blast
qed

text \<open>C10: No account is ever logged on from two netmasks, however the threads interrupt each other and even if the server gives
  a netmask to two connections: whenever two netmasks are logged on to the same account they are the same
  netmask, and it is the one that is stored for the account.\<close>

theorem logins_unique_interleaved:
  assumes "env_ok E" "logins_ok E b0" "weaves E limit (idle b0) S"
    and "db_get E (w_bot S) NICKTOUSER_DB (Some n) = Some l" "db_get E (w_bot S) NICKTOUSER_DB (Some n') = Some l'"
    and "StrToLower l = StrToLower l'"
  shows "StrToLower n = StrToLower n' \<and> (\<exists>m. db_get E (w_bot S) USERTONICK_DB (Some l) = Some m \<and> StrToLower m = StrToLower n)"
proof -
  have "points_back E (w_bot S)" by (rule points_interleaved[OF logins_ok_points[OF assms(2)] assms(3)])
  from points_backD[OF this, of "StrToLower n" l] points_backD[OF this, of "StrToLower n'" l'] assms(4-6) show ?thesis by auto
qed

definition two_accounts :: "(string \<times> string) list bot" where
  "two_accounts = snd (db_add exact_env USER_DB (Some ''bob'') (Some ''bb'')
     (snd (db_add exact_env USER_DB (Some ''ann'') (Some ''aa'') empty_bot)))"

definition two_idents :: "MsgBuf_t list" where
  "two_idents = [request_of CMD_IDENT '':x!u@h PRIVMSG bot :!ident ann aa'', request_of CMD_IDENT '':x!u@h PRIVMSG bot :!ident bob bb'']"

text \<open>
  The other direction does not survive: \<open>!ident\<close> tests outside of \<open>mutexAccount\<close> that the netmask is not logged on, \<open>log_on\<close> does not test
  it again, and one netmask is stored for two accounts.
\<close>

lemma two_idents_ready: "list_all (ready exact_env two_accounts) two_idents"
  by code_simp

lemma two_logins:
  "map_option (\<lambda>(b, ts). (db_get exact_env b NICKTOUSER_DB (Some ''x!u@h''), db_get exact_env b USERTONICK_DB (Some ''ann''),
       db_get exact_env b USERTONICK_DB (Some ''bob'')))
     (play ([0, 1] @ replicate 3 0 @ replicate 3 1) two_accounts (map (command_of exact_env two_accounts) two_idents))
   = Some (Some ''ann'', Some ''x!u@h'', Some ''x!u@h'')"
  by code_simp

lemma logins_unique_interleaved_witness:
  "\<exists>m. StrToLower m = StrToLower ''x!u@h''
    \<and> (\<exists>S. weaves exact_env 2 (idle two_accounts) S \<and> db_get exact_env (w_bot S) USERTONICK_DB (Some ''ann'') = Some m)"
proof -
  obtain b ts where b: "play ([0, 1] @ replicate 3 0 @ replicate 3 1) two_accounts (map (command_of exact_env two_accounts) two_idents)
      = Some (b, ts)" "db_get exact_env b NICKTOUSER_DB (Some ''x!u@h'') = Some ''ann''"
    using two_logins by auto
  have r: "weaves exact_env 2 (idle two_accounts) (W b ts two_idents)"
    by (rule play_run[OF exact_env_ok _ two_idents_ready b(1)]) (simp add: two_idents_def)
  have "V exact_env empty_bot db = Map.empty" for db
    by (auto simp: fun_eq_iff view_def exact_env_def empty_bot_def empty_dbs_def get_dbf_def alist_gdbm_def)
  then have "logins_ok exact_env two_accounts" unfolding two_accounts_def by (simp add: logins_ok_def exact_env_ok)
  from logins_unique_interleaved[OF exact_env_ok this r, of "''x!u@h''" "''ann''" "''x!u@h''" "''ann''"] b(2) r
  show ?thesis by fastforce
qed

end
