(* ===== verification/Pool.thy ===== *)
theory Pool
  imports Logins
begin

text \<open>
  The threads of \<open>AppMain\<close> while it runs: the main loop, the command threads that it creates, which wait in \<open>popQueue\<close>
  for messages, and the timing and the joining thread.  The steps are those of the code, with the command threads
  interrupting each other between two sections; so a run of the pool is an interleaved run, and what is proved for these
  holds here.  New are the queue between the main loop and the threads, and the end, at which the main thread
  empties the queue and joins the command threads one after the other.
\<close>

section \<open>The threads and their queue\<close>

text \<open>
  A command thread is at the test of its loop, inside of \<open>popQueue\<close>, inside of a command, or at its end.  The main thread reads lines,
  tests in \<open>flushQueue\<close> whether the queue is full, has entered \<open>popQueue\<close> there, or joins the threads.
\<close>

datatype 'f worker = AtLoop | InPop | Busy "'f thread" | Exited

datatype main_thread = Reading | Flushing | FlushPop | Joining

record 'f pool =
  p_bot :: "'f bot"
  p_workers :: "'f worker list"
  p_queue :: "MsgBuf_t list"
  p_main :: main_thread
  p_timer :: timer
  p_joined :: bool
  p_taken :: "MsgBuf_t list"

definition pool_start :: "nat \<Rightarrow> 'f bot \<Rightarrow> 'f pool" where
  "pool_start n b = \<lparr>p_bot = b, p_workers = replicate n AtLoop, p_queue = [], p_main = Reading, p_timer = timer_init,
     p_joined = False, p_taken = []\<rparr>"

text \<open>
  In \<open>popQueue\<close> a thread waits as long as the queue is empty: the call makes a step only when there is a message, as
  \<open>Queue.popQueue\<close> is blocked on an empty ring.  The broadcast of \<open>flushQueue\<close> wakes the waiting
  threads, which find the queue empty and wait on, so it is no step.  The timing thread is joined before the
  command threads.
\<close>

inductive pool_step :: "'f env \<Rightarrow> ConfigSetup_t \<Rightarrow> 'f pool \<Rightarrow> 'f pool \<Rightarrow> bool" for E :: "'f env" and cfg :: ConfigSetup_t where
  line: "p_main S = Reading \<Longrightarrow> like E E' \<Longrightarrow> preParser E' l (p_bot S) = Some (m, b) \<Longrightarrow>
    pool_step E cfg S (S\<lparr>p_bot := b, p_queue := (if identify m \<noteq> CMD_NONE then p_queue S @ [m] else p_queue S)\<rparr>)"
| hangup: "p_main S = Reading \<Longrightarrow> like E E' \<Longrightarrow> pool_step E cfg S (S\<lparr>p_bot := (p_bot S)\<lparr>stop := True\<rparr>\<rparr>)"
| leave: "p_main S = Reading \<Longrightarrow> stop (p_bot S) \<Longrightarrow> pool_step E cfg S (S\<lparr>p_main := Flushing\<rparr>)"
| full: "p_main S = Flushing \<Longrightarrow> p_queue S \<noteq> [] \<Longrightarrow> pool_step E cfg S (S\<lparr>p_main := FlushPop\<rparr>)"
| remove: "p_main S = FlushPop \<Longrightarrow> p_queue S = m # q \<Longrightarrow> pool_step E cfg S (S\<lparr>p_main := Flushing, p_queue := q\<rparr>)"
| flushed: "p_main S = Flushing \<Longrightarrow> p_queue S = [] \<Longrightarrow> pool_step E cfg S (S\<lparr>p_main := Joining\<rparr>)"
| again: "i < length (p_workers S) \<Longrightarrow> p_workers S ! i = AtLoop \<Longrightarrow>
    pool_step E cfg S (S\<lparr>p_workers := (p_workers S)[i := if stop (p_bot S) then Exited else InPop]\<rparr>)"
| pop: "i < length (p_workers S) \<Longrightarrow> p_workers S ! i = InPop \<Longrightarrow> p_queue S = m # q \<Longrightarrow> like E E' \<Longrightarrow>
    pool_step E cfg S (S\<lparr>p_workers := (p_workers S)[i := Busy (message_thread E' m)], p_queue := q, p_taken := p_taken S @ [m]\<rparr>)"
| turn: "i < length (p_workers S) \<Longrightarrow> p_workers S ! i = Busy (Step f) \<Longrightarrow> f (p_bot S) = Some (t, b) \<Longrightarrow>
    pool_step E cfg S (S\<lparr>p_bot := b, p_workers := (p_workers S)[i := Busy t]\<rparr>)"
| served: "i < length (p_workers S) \<Longrightarrow> p_workers S ! i = Busy Stop \<Longrightarrow>
    pool_step E cfg S (S\<lparr>p_workers := (p_workers S)[i := AtLoop]\<rparr>)"
| tick: "p_main S \<noteq> Joining \<Longrightarrow> like E E' \<Longrightarrow> timing_turn E' cfg t (p_timer S) (p_bot S) = Some (tm, b) \<Longrightarrow>
    pool_step E cfg S (S\<lparr>p_bot := b, p_timer := tm\<rparr>)"
| join_all: "\<not> p_joined S \<Longrightarrow> like E E' \<Longrightarrow> JoinAllChannelsThread E' (p_bot S) = Some b \<Longrightarrow>
    pool_step E cfg S (S\<lparr>p_bot := b, p_joined := True\<rparr>)"
| signal: "like E E' \<Longrightarrow> pool_step E cfg S (S\<lparr>p_bot := stopParser E' (p_bot S)\<rparr>)"

abbreviation pool_run :: "'f env \<Rightarrow> ConfigSetup_t \<Rightarrow> 'f pool \<Rightarrow> 'f pool \<Rightarrow> bool" where
  "pool_run E cfg \<equiv> (pool_step E cfg)\<^sup>*\<^sup>*"

section \<open>A run of the pool is an interleaved run\<close>

definition busy :: "'f worker list \<Rightarrow> 'f thread list" where
  "busy ws = concat (map (\<lambda>w. case w of Busy t \<Rightarrow> [t] | _ \<Rightarrow> []) ws)"

lemma busy_simps [simp]:
  "busy [] = []" "busy (AtLoop # ws) = busy ws" "busy (InPop # ws) = busy ws" "busy (Exited # ws) = busy ws"
  "busy (Busy t # ws) = t # busy ws" "busy (ws @ us) = busy ws @ busy us"
  by (simp_all add: busy_def)

lemma length_busy: "length (busy ws) \<le> length ws"
  by (induction ws) (auto simp: busy_def split: worker.splits)

lemma busy_split: "i < length ws \<Longrightarrow> busy ws = busy (take i ws) @ busy (ws ! i # drop (Suc i) ws)"
  by (metis busy_simps(6) id_take_nth_drop)

lemma busy_update: "i < length ws \<Longrightarrow> busy (ws[i := w]) = busy (take i ws) @ busy (w # drop (Suc i) ws)"
  by (simp add: upd_conv_take_nth_drop)

definition woven_of :: "'f pool \<Rightarrow> 'f woven" where
  "woven_of S = \<lparr>w_bot = p_bot S, w_threads = busy (p_workers S), w_taken = p_taken S\<rparr>"

lemma woven_other:
  assumes "run E (\<lambda>_ _. False) (p_bot S) b" "p_bot S' = b" "p_workers S' = p_workers S" "p_taken S' = p_taken S"
  shows "weaves E limit (woven_of S) (woven_of S')"
  using weave.others[of E "woven_of S" b limit] assms by (auto simp: woven_of_def)

lemma woven_same:
  "p_bot S' = p_bot S \<Longrightarrow> busy (p_workers S') = busy (p_workers S) \<Longrightarrow> p_taken S' = p_taken S \<Longrightarrow> weaves E limit (woven_of S) (woven_of S')"
  by (simp add: woven_of_def)

lemma pool_weaves_step:
  assumes "pool_step E cfg S S'"
  shows "weaves E (length (p_workers S)) (woven_of S) (woven_of S') \<and> length (p_workers S') = length (p_workers S)"
  using assms
proof (cases rule: pool_step.cases)
  case (line E' l m b)
  then show ?thesis using woven_other[OF run.read[OF run.start line(3,4)], of S'] by simp
next
  case (hangup E')
  then show ?thesis using woven_other[OF run.hangup[OF run.start hangup(3)], of S' S] by simp
next
  case (again i)
  then show ?thesis by (intro conjI woven_same) (auto simp: busy_split[of i] busy_update)
next
  case (pop i m q E')
  let ?ts = "busy (take i (p_workers S))" and ?us = "busy (drop (Suc i) (p_workers S))"
  have "length (take i (p_workers S)) + length (drop (Suc i) (p_workers S)) < length (p_workers S)" using pop(2) by simp
  then have "length (?ts @ ?us) < length (p_workers S)"
    using length_busy[of "take i (p_workers S)"] length_busy[of "drop (Suc i) (p_workers S)"] by simp
  from weave_take_at[OF this pop(5)] pop show ?thesis
    by (auto simp: woven_of_def busy_split[of i "p_workers S"] busy_update)
next
  case (turn i f t b)
  have w: "p_workers S ! i = Busy (Step f)" using turn(3) .
  from weave_turn[of f "p_bot S" t b E "length (p_workers S)" "busy (take i (p_workers S))" "busy (drop (Suc i) (p_workers S))" "p_taken S"] turn
  show ?thesis by (auto simp: woven_of_def busy_split[of i "p_workers S"] busy_update w)
next
  case (served i)
  from weave_finish[of E "length (p_workers S)" "p_bot S" "busy (take i (p_workers S))" "busy (drop (Suc i) (p_workers S))" "p_taken S"] served
  show ?thesis by (auto simp: woven_of_def busy_split[of i "p_workers S"] busy_update)
next
  case (tick E' t tm b)
  then show ?thesis using woven_other[OF run.timing[OF run.start tick(3,4)], of S'] by simp
next
  case (join_all E' b)
  then show ?thesis using woven_other[OF run.joining[OF run.start join_all(3,4)], of S'] by simp
next
  case (signal E')
  then show ?thesis using woven_other[OF run.signalled[OF run.start signal(2)], of S' S] by simp
qed (auto intro: woven_same)

text \<open>A run of the pool, seen without its queue, is a run in which the command threads interrupt each other.\<close>

lemma pool_weaves:
  assumes "pool_run E cfg S S'"
  shows "weaves E (length (p_workers S)) (woven_of S) (woven_of S') \<and> length (p_workers S') = length (p_workers S)"
  using assms
proof (induction rule: rtranclp_induct)
  case (step S1 S2)
  then show ?case using pool_weaves_step[OF step(2)] by (metis rtranclp_trans)
qed simp

lemma woven_start: "woven_of (pool_start n b) = idle b"
proof -
  have "busy (replicate n AtLoop) = []" by (induction n) simp_all
  then show ?thesis by (simp add: woven_of_def pool_start_def idle_def)
qed

lemma pool_keeps:
  assumes "pool_run E cfg (pool_start n b) S" "stored_ok E b" "points_back E b"
  shows "stored_ok E (p_bot S) \<and> points_back E (p_bot S)"
proof -
  have "weaves E n (idle b) (woven_of S)" using pool_weaves[OF assms(1)] woven_start by (metis length_replicate pool.simps(2) pool_start_def)
  from records_interleaved[OF assms(2) this] points_interleaved[OF assms(3) this] show ?thesis by (simp add: woven_of_def)
qed

section \<open>The end of the threads\<close>

text \<open>When the main thread joins the threads, the queue is empty, and nothing fills it any more; so a thread that waits
  in \<open>popQueue\<close> waits for ever.\<close>

definition hanging :: "nat \<Rightarrow> 'f pool \<Rightarrow> bool" where
  "hanging i S \<longleftrightarrow> p_main S = Joining \<and> p_queue S = [] \<and> i < length (p_workers S) \<and> p_workers S ! i = InPop"

lemma joining_empty:
  assumes "pool_run E cfg (pool_start n b) S" "p_main S = Joining"
  shows "p_queue S = []"
proof -
  have "p_main S = Joining \<longrightarrow> p_queue S = []"
    using assms(1) by (induction rule: rtranclp_induct) (auto simp: pool_start_def elim!: pool_step.cases)
  then show ?thesis using assms(2) by blast
qed

lemma hanging_step: "pool_step E cfg S S' \<Longrightarrow> hanging i S \<Longrightarrow> hanging i S'"
  by (cases rule: pool_step.cases) (auto simp: hanging_def nth_list_update)

lemma hanging_run: "pool_run E cfg S S' \<Longrightarrow> hanging i S \<Longrightarrow> hanging i S'"
  by (induction rule: rtranclp_induct) (auto dest: hanging_step)

text \<open>With no thread inside of a command or waiting, all threads of a stopped bot come to their end.\<close>

lemma workers_exit:
  assumes "stop (p_bot S)" "p_workers S = replicate n AtLoop"
  shows "pool_run E cfg S (S\<lparr>p_workers := replicate n Exited\<rparr>)"
proof -
  have "pool_run E cfg S (S\<lparr>p_workers := replicate k Exited @ replicate (n - k) AtLoop\<rparr>)" if "k \<le> n" for k
    using that
  proof (induction k)
    case 0
    have "S\<lparr>p_workers := replicate n AtLoop\<rparr> = S" using assms(2) by (metis pool.surjective pool.update_convs(2))
    then show ?case by simp
  next
    case (Suc k)
    let ?ws = "replicate k Exited @ replicate (n - k) AtLoop :: 'a worker list"
    have ws: "n - k = Suc (n - Suc k)" using Suc.prems by simp
    have "pool_step E cfg (S\<lparr>p_workers := ?ws\<rparr>) (S\<lparr>p_workers := ?ws[k := Exited]\<rparr>)"
      using pool_step.again[of k "S\<lparr>p_workers := ?ws\<rparr>" E cfg] assms(1) Suc.prems by (simp add: nth_append)
    moreover have e: "replicate (Suc k) (Exited :: 'a worker) = replicate k Exited @ [Exited]" by (simp add: replicate_append_same)
    moreover from ws have r: "replicate (n - k) (AtLoop :: 'a worker) = AtLoop # replicate (n - Suc k) AtLoop" by simp
    have "?ws[k := Exited] = replicate (Suc k) Exited @ replicate (n - Suc k) AtLoop"
      unfolding r e by (simp add: list_update_append del: replicate_Suc)
    ultimately show ?case using Suc by (metis Suc_leD rtranclp.rtrancl_into_rtrancl)
  qed
  from this[of n] show ?thesis by simp
qed

end
