(* ===== verification/Options.thy ===== *)
theory Options
  imports Config Account
begin

text \<open>
  How \<open>AppMain\<close> arrives at its setup: the defaults, the first look at the command line for the
  options that come before the configuration file, the file, the command line parser of \<open>parameter.c\<close> and the
  adjustment of the times; and \<open>dialogMaster\<close>, which creates the account of a master.
\<close>

abbreviation PARAMETER_CHAR :: char where "PARAMETER_CHAR \<equiv> CHR ''-''"

text \<open>The character after the dash, the null byte if there is none.\<close>

definition option_char :: "string \<Rightarrow> char" where
  "option_char a = (if length a > 1 then a ! 1 else CHR 0x00)"

definition is_option :: "string \<Rightarrow> bool" where
  "is_option a \<longleftrightarrow> a \<noteq> [] \<and> hd a = PARAMETER_CHAR"

section \<open>The command line parser\<close>

definition value_options :: "char list" where
  "value_options = ''sbugrptanelikdc''"

text \<open>The value of an option; \<open>Inl\<close> is the error the parser returns.\<close>

definition checked :: "string \<Rightarrow> (int \<Rightarrow> bool) \<Rightarrow> (int \<Rightarrow> ConfigSetup_t) \<Rightarrow> (int + ConfigSetup_t) c_result" where
  "checked v ok upd = do { tmp \<leftarrow> atoi v; Some (if ok tmp then Inr (upd tmp) else Inl EDOM) }"

definition store_option :: "char \<Rightarrow> string \<Rightarrow> ConfigSetup_t \<Rightarrow> (int + ConfigSetup_t) c_result" where
  "store_option c v s =
     (if c = CHR ''s'' then
        Some (if strpbrk v SERVER_NOT_ALLOW_CHAR then Inl EINVAL else Inr (s\<lparr>cfg_sHostname := v\<rparr>))
      else if c = CHR ''b'' then
        Some (if \<not> NickStringCheck (Some v) then Inl EINVAL else Inr (s\<lparr>cfg_pBotname := v\<rparr>))
      else if c = CHR ''u'' then Some (Inr (s\<lparr>sExeUser := v\<rparr>))
      else if c = CHR ''g'' then Some (Inr (s\<lparr>sExeGroup := v\<rparr>))
      else if c = CHR ''r'' then Some (Inr (s\<lparr>cfg_realname := v\<rparr>))
      else if c = CHR ''p'' then checked v (\<lambda>n. \<not> (n < 1 \<or> n > 65535)) (\<lambda>_. s\<lparr>sPort := v\<rparr>)
      else if c = CHR ''t'' then checked v (\<lambda>n. \<not> (n < 1 \<or> n > MAX_THREADS_LIMIT)) (\<lambda>n. s\<lparr>thread_limit := n\<rparr>)
      else if c = CHR ''a'' then checked v (\<lambda>n. \<not> n < 1) (\<lambda>n. s\<lparr>AutoLoggoff := n\<rparr>)
      else if c = CHR ''n'' then checked v (\<lambda>n. \<not> n \<le> 0) (\<lambda>n. s\<lparr>iSendDelay := n\<rparr>)
      else if c = CHR ''e'' then checked v (\<lambda>n. \<not> n \<le> 0) (\<lambda>n. s\<lparr>nSlowSendDelay := n\<rparr>)
      else if c = CHR ''l'' then checked v (\<lambda>n. \<not> n < 0) (\<lambda>n. s\<lparr>nFastSendingCharLimit := n\<rparr>)
      else if c = CHR ''i'' then checked v (\<lambda>n. \<not> n < 0) (\<lambda>n. s\<lparr>nSettling := n\<rparr>)
      else if c = CHR ''k'' then checked v (\<lambda>n. \<not> n < 1) (\<lambda>n. s\<lparr>AccountLiveTime := n\<rparr>)
      else if c = CHR ''d'' then Some (Inr (s\<lparr>pDatabasePath := v\<rparr>))
      else checked v (\<lambda>n. \<not> n < 60) (\<lambda>n. s\<lparr>iTimeout := n\<rparr>))"

text \<open>
  The arguments without the name of the program.  The result is the value returned, the error number and
  the setup.  The parser returns 1 at the end and 0 for an unknown option, and the error
  number itself for a missing or wrong value.
\<close>

fun CommandLineParser :: "string list \<Rightarrow> int \<Rightarrow> ConfigSetup_t \<Rightarrow> (int \<times> int \<times> ConfigSetup_t) c_result" where
  "CommandLineParser [] e s = Some (1, e, s)"
| "CommandLineParser (a # rest) e s =
     (if \<not> is_option a then Some (0, ENOSYS, s)
      else if option_char a \<in> set value_options then
        (case rest of
           [] \<Rightarrow> Some (EINVAL, EINVAL, s)
         | v # rest' \<Rightarrow> do {
             r \<leftarrow> store_option (option_char a) v s;
             (case r of Inl err \<Rightarrow> Some (err, err, s) | Inr s' \<Rightarrow> CommandLineParser rest' e s') })
      else if option_char a = CHR ''m'' then CommandLineParser rest e (s\<lparr>newMaster := True\<rparr>)
      else if option_char a = CHR ''V'' \<or> option_char a = CHR ''f'' then
        (case rest of [] \<Rightarrow> Some (1, e, s) | v # rest' \<Rightarrow> CommandLineParser rest' e s)
      else Some (0, EINVAL, s))"

section \<open>The setup of AppMain\<close>

text \<open>
  The first look at the command line: \<open>stat\<close> gives the error number for a path, or whether it is a
  regular file.  \<open>Inl\<close> is the value with which \<open>AppMain\<close> returns.
\<close>

fun scan_options :: "(string \<Rightarrow> int + bool) \<Rightarrow> string list \<Rightarrow> ConfigSetup_t \<Rightarrow> (int + ConfigSetup_t) c_result" where
  "scan_options stat [] s = Some (Inr s)"
| "scan_options stat (a # rest) s =
     (if \<not> is_option a then scan_options stat rest s
      else if option_char a = CHR ''V'' then
        (case rest of [] \<Rightarrow> Some (Inl EINVAL)
         | v # rest' \<Rightarrow> do {
             tmp \<leftarrow> atoi v;
             if tmp < 0 \<or> tmp > MAX_LOGLEVEL then Some (Inl EDOM)
             else scan_options stat rest'
                    (s\<lparr>nLogLevel := convertVerboseToLogLevel tmp, bLogLevelWasSet := 1\<rparr>) })
      else if option_char a = CHR ''f'' then
        (case rest of [] \<Rightarrow> Some (Inl EINVAL)
         | v # rest' \<Rightarrow>
             (case stat v of Inl err \<Rightarrow> Some (Inl err)
              | Inr regular \<Rightarrow> if regular then scan_options stat rest' (s\<lparr>configfile := v\<rparr>) else Some (Inl EINVAL)))
      else if option_char a \<in> {CHR ''v'', CHR ''h'', CHR ''?''} then Some (Inl 0)
      else scan_options stat rest s)"

definition read_options :: "string list \<Rightarrow> ConfigSetup_t \<Rightarrow> (int + ConfigSetup_t) c_result" where
  "read_options args s =
     (if args \<noteq> [] then do {
        (ret, err, s) \<leftarrow> CommandLineParser args 0 s;
        Some (if ret = 0 then Inl err else Inr s) }
      else Some (Inr s))"

definition adjust_times :: "ConfigSetup_t \<Rightarrow> ConfigSetup_t" where
  "adjust_times s =
     (let s = (if AccountLiveTime s < AutoLoggoff s then s\<lparr>AutoLoggoff := AccountLiveTime s\<rparr> else s)
      in if nSlowSendDelay s < iSendDelay s then s\<lparr>nSlowSendDelay := iSendDelay s\<rparr> else s)"

text \<open>
  The default paths.  \<open>home\<close> is the directory that \<open>getpwuid\<close> gives for the user; without an entry of the user the null pointer is
  read.  The directory of the user that is created here belongs to the file system.
\<close>

abbreviation DEFAULT_USER_DATABASEDIR :: string where "DEFAULT_USER_DATABASEDIR \<equiv> ''/db''"
abbreviation DEFAULT_USER_CONFDIR :: string where "DEFAULT_USER_CONFDIR \<equiv> ''/.ebotula''"
abbreviation CONFFILE :: string where "CONFFILE \<equiv> ''/ebotula.conf''"

definition default_paths :: "bool \<Rightarrow> string \<Rightarrow> string \<Rightarrow> string option \<Rightarrow> (string \<times> string) c_result" where
  "default_paths bRunAsRoot DATABASEDIR CONFDIR home =
     (if bRunAsRoot then Some (DATABASEDIR, CONFDIR @ CONFFILE)
      else do {
        pw_dir \<leftarrow> home;
        let sDirDummy = pw_dir @ DEFAULT_USER_CONFDIR;
        Some (sDirDummy @ DEFAULT_USER_DATABASEDIR, sDirDummy @ CONFFILE) })"

text \<open>The steps in order; \<open>open_file\<close> gives the content of a file that can be read.\<close>

definition AppMain_setup :: "(string \<Rightarrow> int + bool) \<Rightarrow> (string \<Rightarrow> string option) \<Rightarrow> string list \<Rightarrow> string \<Rightarrow> string \<Rightarrow> int
    \<Rightarrow> InputValueStruct_t list \<Rightarrow> ConfigSetup_t \<Rightarrow> (int + InputValueStruct_t list \<times> ConfigSetup_t) c_result" where
  "AppMain_setup stat open_file args databases config_path loglevel table s = do {
     r \<leftarrow> scan_options stat args (default_setup databases config_path loglevel s);
     (case r of Inl ret \<Rightarrow> Some (Inl ret)
      | Inr s \<Rightarrow> do {
          r \<leftarrow> ConfigFileParser (open_file (configfile s)) table s;
          (case r of Inl err \<Rightarrow> Some (Inl err)
           | Inr (table, s) \<Rightarrow> do {
               r \<leftarrow> read_options args s;
               Some (case r of Inl ret \<Rightarrow> Inl ret | Inr s \<Rightarrow> Inr (table, adjust_times s)) }) }) }"

section \<open>The help of the command line\<close>

text \<open>What \<open>printCmdLineHelp\<close> prints for the options \<open>-h\<close> and \<open>-?\<close>, untranslated; \<open>package\<close> is the name of the package.\<close>

definition printCmdLineHelp :: "string \<Rightarrow> string list" where
  "printCmdLineHelp package =
    [[NL] @ package @ '' [Options]'' @ [NL],
     [NL] @ [TAB] @ ''Options:'' @ [NL],
     [TAB] @ ''-a days'' @ [TAB] @ [TAB] @ ''Set the time in days for the automatic logoff.'' @ [NL],
     [TAB] @ ''-b name'' @ [TAB] @ [TAB] @ ''Set the name of the bot.'' @ [NL],
     [TAB] @ ''-c sec'' @ [TAB] @ [TAB] @ ''Set the ping timeout of the network connection.'' @ [NL],
     [TAB] @ ''-d path'' @ [TAB] @ [TAB] @ ''Set the path of the database directory'' @ [NL],
     [TAB] @ ''-L Level'' @ [TAB] @ ''Set the logging level (0-3)'' @ [NL],
     [TAB] @ ''-e ms'' @ [TAB] @ [TAB] @ ''Set the delay time in millisecond for the slow sending.'' @ [NL],
     [TAB] @ ''-f file'' @ [TAB] @ [TAB] @ ''Set the config file.'' @ [NL],
     [TAB] @ ''-g group'' @ [TAB] @ ''Set the group under which the bot runs (only root).'' @ [NL],
     [TAB] @ ''-h'' @ [TAB] @ [TAB] @ ''Print this help information.'' @ [NL],
     [TAB] @ ''-i sec'' @ [TAB] @ [TAB] @ ''Set the delay of the channel initialization.'' @ [NL],
     [TAB] @ ''-k days'' @ [TAB] @ [TAB] @ ''Set the account live time in days.'' @ [NL],
     [TAB] @ ''-l char/min'' @ [TAB] @ ''Set the charakter limit for the first sending delay level.'' @ [NL],
     [TAB] @ ''-m'' @ [TAB] @ [TAB] @ ''Start the dialog for creating of a new master.'' @ [NL],
     [TAB] @ ''-n ms'' @ [TAB] @ [TAB] @ ''Set the delay time in millisecond for the fast sending.'' @ [NL],
     [TAB] @ ''-p port'' @ [TAB] @ [TAB] @ ''Set the portnumber of the irc server.'' @ [NL],
     [TAB] @ ''-r string'' @ [TAB] @ ''Set the output for a request of the real name.'' @ [NL],
     [TAB] @ ''-s server'' @ [TAB] @ ''Set the irc server name.'' @ [NL],
     [TAB] @ ''-t count'' @ [TAB] @ ''Set the number of created  threads.'' @ [NL],
     [TAB] @ ''-u user'' @ [TAB] @ [TAB] @ ''Set the user under which the bot run (root only).'' @ [NL],
     [TAB] @ ''-v'' @ [TAB] @ [TAB] @ ''Print version.'' @ [NL]]"

text \<open>The letters in the help, and the letters that the two parsers know.\<close>

definition help_letters :: "char list" where
  "help_letters = map (\<lambda>l. l ! 2) (drop 2 (printCmdLineHelp ''ebotula''))"

text \<open>The help has a letter \<open>-L\<close> that the parsers refuse, and does not have \<open>-V\<close>.\<close>

lemma help_and_options:
  "distinct help_letters"
  "set help_letters - (set value_options \<union> set ''mVfvh?'') = {CHR ''L''}"
  "(set value_options \<union> set ''mVfvh?'') - set help_letters = {CHR ''V'', CHR ''?''}"
  by code_simp+

lemma help_option_refused:
  "CommandLineParser [''-L'', ''2''] 0 s = Some (0, EINVAL, s)"
  by code_simp

section \<open>The dialog for a new master\<close>

text \<open>A read from the terminal; at its end the buffer stays uninitialised.\<close>

definition fgets :: "nat \<Rightarrow> string \<Rightarrow> (string \<times> string) c_result" where
  "fgets size_arg input = (if input = [] then None else let (l, r) = fgets_take (size_arg - 1) input in Some (c_string l, r))"

abbreviation LOGIN_LENGTH :: nat where "LOGIN_LENGTH \<equiv> 8"
abbreviation PASSWD_LENGTH :: nat where "PASSWD_LENGTH \<equiv> 8"

definition dialogMaster :: "'f env \<Rightarrow> string \<Rightarrow> 'f bot \<Rightarrow> (bool \<times> 'f bot) c_result" where
  "dialogMaster E input b = do {
     (name, input) \<leftarrow> fgets LOGIN_LENGTH input;
     let name = trim name;
     if \<not> NickStringCheck (Some name) \<or> name = [] then Some (False, b)
     else do {
       (passwd, input) \<leftarrow> fgets (PASSWD_LENGTH + 1) input;
       (repasswd, input) \<leftarrow> fgets (PASSWD_LENGTH + 1) input;
       if passwd \<noteq> repasswd then Some (False, b)
       else if strpbrk passwd [SP, TAB] then Some (False, b)
       else
         let passwd = trim passwd;
             (added, b) = db_add E USER_DB (Some name) (Some passwd) b
         in if \<not> added then Some (False, b)
            else let (added, b) = db_add E ACCESS_DB (Some name) (Some ''+m'') b
              in if \<not> added then Some (False, snd (db_del E USER_DB (Some name) b))
                 else Some (True, b) } }"

section \<open>Bounds\<close>

lemma setup_updates:
  "setup_ok s \<Longrightarrow> \<not> strpbrk v SERVER_NOT_ALLOW_CHAR \<Longrightarrow> setup_ok (s\<lparr>cfg_sHostname := v\<rparr>)"
  "setup_ok s \<Longrightarrow> NickStringCheck (Some v) \<Longrightarrow> setup_ok (s\<lparr>cfg_pBotname := v\<rparr>)"
  "setup_ok s \<Longrightarrow> setup_ok (s\<lparr>sExeUser := v\<rparr>)" "setup_ok s \<Longrightarrow> setup_ok (s\<lparr>sExeGroup := v\<rparr>)"
  "setup_ok s \<Longrightarrow> setup_ok (s\<lparr>cfg_realname := v\<rparr>)" "setup_ok s \<Longrightarrow> setup_ok (s\<lparr>pDatabasePath := v\<rparr>)"
  "setup_ok s \<Longrightarrow> setup_ok (s\<lparr>configfile := v\<rparr>)" "setup_ok s \<Longrightarrow> setup_ok (s\<lparr>newMaster := w\<rparr>)"
  "setup_ok s \<Longrightarrow> atoi v = Some n \<Longrightarrow> 1 \<le> n \<Longrightarrow> n \<le> 65535 \<Longrightarrow> setup_ok (s\<lparr>sPort := v\<rparr>)"
  "setup_ok s \<Longrightarrow> 1 \<le> n \<Longrightarrow> n \<le> MAX_THREADS_LIMIT \<Longrightarrow> setup_ok (s\<lparr>thread_limit := n\<rparr>)"
  "setup_ok s \<Longrightarrow> 0 \<le> n \<Longrightarrow> n < 2 ^ 31 \<Longrightarrow> setup_ok (s\<lparr>AutoLoggoff := n\<rparr>)"
  "setup_ok s \<Longrightarrow> 0 \<le> n \<Longrightarrow> n < 2 ^ 31 \<Longrightarrow> setup_ok (s\<lparr>AccountLiveTime := n\<rparr>)"
  "setup_ok s \<Longrightarrow> 0 \<le> n \<Longrightarrow> n < 2 ^ 31 \<Longrightarrow> setup_ok (s\<lparr>iSendDelay := n\<rparr>)"
  "setup_ok s \<Longrightarrow> 0 \<le> n \<Longrightarrow> n < 2 ^ 31 \<Longrightarrow> setup_ok (s\<lparr>nSlowSendDelay := n\<rparr>)"
  "setup_ok s \<Longrightarrow> 0 \<le> n \<Longrightarrow> n < 2 ^ 31 \<Longrightarrow> setup_ok (s\<lparr>nFastSendingCharLimit := n\<rparr>)"
  "setup_ok s \<Longrightarrow> 0 \<le> n \<Longrightarrow> n < 2 ^ 31 \<Longrightarrow> setup_ok (s\<lparr>nSettling := n\<rparr>)"
  "setup_ok s \<Longrightarrow> 1 \<le> n \<Longrightarrow> n < 2 ^ 31 \<Longrightarrow> setup_ok (s\<lparr>iTimeout := n\<rparr>)"
  "setup_ok s \<Longrightarrow> 0 \<le> n \<Longrightarrow> n \<le> MAX_LOGLEVEL \<Longrightarrow> setup_ok (s\<lparr>nLogLevel := n, bLogLevelWasSet := m\<rparr>)"
  by (simp_all add: setup_ok_def days_ok_def port_ok_def)

lemma checked_Inr: "checked v ok upd = Some (Inr s') \<longleftrightarrow> (\<exists>n. atoi v = Some n \<and> n < 2 ^ 31 \<and> ok n \<and> s' = upd n)"
  using atoi_bounds[of v] by (cases "atoi v") (auto simp: checked_def)

lemma checked_Inl: "checked v ok upd = Some (Inl err) \<longleftrightarrow> (\<exists>n. atoi v = Some n \<and> \<not> ok n \<and> err = EDOM)"
  by (cases "atoi v") (auto simp: checked_def)

lemma store_option_ok: "setup_ok s \<Longrightarrow> store_option c v s = Some (Inr s') \<Longrightarrow> setup_ok s'"
  unfolding store_option_def
  by (auto simp: checked_Inr split: if_split_asm intro: setup_updates)

lemma store_option_error: "store_option c v s = Some (Inl err) \<Longrightarrow> err \<in> {EINVAL, EDOM}"
  unfolding store_option_def by (auto simp: checked_Inl split: if_split_asm)

lemma CommandLineParser_ok:
  "setup_ok s \<Longrightarrow> CommandLineParser args e s = Some (ret, err, s') \<Longrightarrow> setup_ok s'"
proof (induction args e s rule: CommandLineParser.induct)
  case (2 a rest e s)
  have master: "setup_ok (s\<lparr>newMaster := True\<rparr>)" using "2.prems"(1) by (simp add: setup_ok_def)
  show ?case
  proof (cases "is_option a \<and> option_char a \<in> set value_options")
    case True
    show ?thesis
    proof (cases rest)
      case (Cons v rest')
      with "2.prems"(2) True obtain r where r: "store_option (option_char a) v s = Some r"
        "(case r of Inl err \<Rightarrow> Some (err, err, s) | Inr s' \<Rightarrow> CommandLineParser rest' e s') = Some (ret, err, s')"
        by (auto simp: bind_eq_Some_conv)
      show ?thesis
      proof (cases r)
        case (Inr s1)
        with r(1) store_option_ok "2.prems"(1) have "setup_ok s1" by blast
        with "2.IH"(1)[OF _ _ Cons, of "Inr s1" s1] True r Inr show ?thesis by simp
      qed (use r "2.prems"(1) in simp)
    qed (use True "2.prems" in simp)
  next
    case False
    with "2.prems" "2.IH"(2,3) master show ?thesis by (auto split: if_split_asm list.split_asm)
  qed
qed simp

lemma scan_options_ok:
  "setup_ok s \<Longrightarrow> scan_options stat args s = Some (Inr s') \<Longrightarrow> setup_ok s'"
proof (induction stat args s rule: scan_options.induct)
  case (2 stat a rest s)
  have level: "setup_ok (s\<lparr>nLogLevel := convertVerboseToLogLevel n, bLogLevelWasSet := 1\<rparr>)" for n
    using "2.prems"(1) by (intro setup_updates) (auto simp: convertVerboseToLogLevel_def)
  consider "\<not> is_option a" | "is_option a" "option_char a = CHR ''V''" | "is_option a" "option_char a = CHR ''f''"
    | "is_option a" "option_char a \<noteq> CHR ''V''" "option_char a \<noteq> CHR ''f''" by blast
  then show ?case
  proof cases
    case 1
    then show ?thesis using "2.IH"(1) "2.prems" by simp
  next
    case 2
    then obtain v rest' n where r: "rest = v # rest'" "atoi v = Some n"
      "scan_options stat rest' (s\<lparr>nLogLevel := convertVerboseToLogLevel n, bLogLevelWasSet := 1\<rparr>) = Some (Inr s')"
      using "2.prems"(2) by (auto simp: bind_eq_Some_conv split: list.splits if_splits)
    then show ?thesis using "2.IH"(2)[of v rest' n] 2 level[of n] "2.prems"(2)
      by (auto simp: bind_eq_Some_conv split: if_splits)
  next
    case 3
    then obtain v rest' where r: "rest = v # rest'" "stat v = Inr True"
      "scan_options stat rest' (s\<lparr>configfile := v\<rparr>) = Some (Inr s')"
      using "2.prems"(2) by (auto split: list.splits if_splits sum.splits)
    moreover have "setup_ok (s\<lparr>configfile := v\<rparr>)" using "2.prems"(1) by (intro setup_updates)
    ultimately show ?thesis using "2.IH"(3)[of v rest' True] 3 by simp
  next
    case 4
    then show ?thesis using "2.IH"(4) "2.prems" by (auto split: if_splits)
  qed
qed simp

lemma adjust_times_ok: "setup_ok s \<Longrightarrow> setup_ok (adjust_times s) \<and> AutoLoggoff (adjust_times s) \<le> AccountLiveTime (adjust_times s)
    \<and> iSendDelay (adjust_times s) \<le> nSlowSendDelay (adjust_times s)"
  by (auto simp: adjust_times_def Let_def setup_ok_def)

text \<open>The step that reads the file and the options.\<close>

lemma AppMain_setup_Inr:
  "AppMain_setup stat open_file args d c l t s = Some (Inr (t', s')) \<longleftrightarrow>
     (\<exists>s1 s2 s3. scan_options stat args (default_setup d c l s) = Some (Inr s1)
        \<and> ConfigFileParser (open_file (configfile s1)) t s1 = Some (Inr (t', s2))
        \<and> read_options args s2 = Some (Inr s3) \<and> s' = adjust_times s3)"
  (is "_ \<longleftrightarrow> ?R")
proof
  assume a: "AppMain_setup stat open_file args d c l t s = Some (Inr (t', s'))"
  then obtain r where r: "scan_options stat args (default_setup d c l s) = Some r"
    by (cases "scan_options stat args (default_setup d c l s)") (auto simp: AppMain_setup_def)
  with a obtain s1 where s1: "r = Inr s1" by (cases r) (auto simp: AppMain_setup_def)
  with a r obtain r2 where r2: "ConfigFileParser (open_file (configfile s1)) t s1 = Some r2"
    by (cases "ConfigFileParser (open_file (configfile s1)) t s1") (auto simp: AppMain_setup_def)
  with a r s1 obtain t2 s2 where s2: "r2 = Inr (t2, s2)" by (cases r2) (auto simp: AppMain_setup_def)
  with a r s1 r2 obtain r3 where r3: "read_options args s2 = Some r3"
    by (cases "read_options args s2") (auto simp: AppMain_setup_def)
  with a r s1 r2 s2 show ?R by (cases r3) (auto simp: AppMain_setup_def)
qed (auto simp: AppMain_setup_def)

section \<open>Answers to the dialog\<close>

lemma fgets_line: "plain_text l \<Longrightarrow> length l + 1 < m \<Longrightarrow> fgets m (l @ NL # r) = Some (l @ [NL], r)"
proof -
  assume l: "plain_text l" "length l + 1 < m"
  then have "NL \<notin> set l" "c_string (l @ [NL]) = l @ [NL]"
    by (auto simp: plain_text_def is_ws_def c_string_def takeWhile_eq_all_conv)
  with l(2) show ?thesis by (simp add: fgets_def fgets_take_line)
qed

lemma fgets_full: "plain_text l \<Longrightarrow> l \<noteq> [] \<Longrightarrow> length l + 1 = m \<Longrightarrow> fgets m (l @ r) = Some (l, r)"
proof -
  assume l: "plain_text l" "l \<noteq> []" "length l + 1 = m"
  have "NL \<notin> set l \<Longrightarrow> fgets_take (length l) (l @ r) = (l, r)" for l by (induction l) auto
  moreover from l have "NL \<notin> set l" "c_string l = l"
    by (auto simp: plain_text_def is_ws_def c_string_def takeWhile_eq_all_conv)
  ultimately show ?thesis using l by (auto simp: fgets_def)
qed

lemma fgets_newline: "1 < m \<Longrightarrow> fgets m (NL # r) = Some ([NL], r)"
  using fgets_line[of "[]" m r] by (simp add: plain_text_def)

lemma fgets_starts:
  assumes "plain_text (c # l)" "1 < m" shows "\<exists>l' r'. fgets m ((c # l) @ r) = Some (c # l', r')"
proof -
  obtain k where m: "m = Suc (Suc k)" using assms(2) by (metis One_nat_def less_natE plus_1_eq_Suc)
  obtain l' r' where "fgets_take k (l @ r) = (l', r')" by fastforce
  moreover have "c \<noteq> NL" "c \<noteq> CHR 0x00" using assms(1) by (auto simp: plain_text_def is_ws_def)
  ultimately show ?thesis by (simp add: fgets_def m c_string_def)
qed

lemma plain_trimmed: "plain_text l \<Longrightarrow> trimmed l"
  using single_spaced_plain[of l False "[]"] by (simp add: trimmed_def plain_text_def)

lemma plain_no_space: "plain_text l \<Longrightarrow> \<not> strpbrk (l @ [NL]) [SP, TAB]"
  by (auto simp: strpbrk_def list_ex_iff plain_text_def is_ws_def)

text \<open>A start without options and with a file that sets the port.\<close>

lemma sample_start: "AppMain_setup (\<lambda>_. Inl 2) (\<lambda>_. Some (''port=7000'' @ [NL])) [] ''/db'' ''/ebotula.conf'' 5 vsInputConfig zero_setup
    = Some (Inr (port_marked, sample_setup\<lparr>sPort := ''7000''\<rparr>))"
  unfolding AppMain_setup_Inr
  by (rule exI[of _ sample_setup], rule exI[of _ "sample_setup\<lparr>sPort := ''7000''\<rparr>"],
      rule exI[of _ "sample_setup\<lparr>sPort := ''7000''\<rparr>"], intro conjI)
     (simp, rule port_line, simp add: read_options_def, simp add: adjust_times_def default_setup_def)

section \<open>Properties\<close>

text \<open>C24: However the bot is started, the setup with which it connects is within its bounds: thread limit, delays, times,
  log level, port, host and nick name are what the checkers of the file or of the command line allow, nobody is
  logged on longer than accounts live, and the slow delay is not below the fast one.\<close>

theorem setup_in_bounds:
  assumes "0 \<le> loglevel" "loglevel \<le> MAX_LOGLEVEL" "table_ok t"
    and "0 \<le> nEnableNickServIdent s" "nEnableNickServIdent s \<le> 1" "days_ok (nNickServIdentTimeout s)"
    and "AppMain_setup stat open_file args databases config_path loglevel t s = Some (Inr (t', s'))"
  shows "setup_ok s' \<and> table_ok t' \<and> AutoLoggoff s' \<le> AccountLiveTime s' \<and> iSendDelay s' \<le> nSlowSendDelay s'"
proof -
  obtain s1 s2 s3 where st: "scan_options stat args (default_setup databases config_path loglevel s) = Some (Inr s1)"
    "ConfigFileParser (open_file (configfile s1)) t s1 = Some (Inr (t', s2))"
    "read_options args s2 = Some (Inr s3)" "s' = adjust_times s3"
    using assms(7) unfolding AppMain_setup_Inr by blast
  have "setup_ok s1" using scan_options_ok[OF _ st(1)] default_ok assms by blast
  from table_setup_ok[OF st(2) assms(3) this] have "setup_ok s2" "table_ok t'" by auto
  then have "setup_ok s3"
    using st(3) CommandLineParser_ok by (auto simp: read_options_def bind_eq_Some_conv split: if_splits)
  from adjust_times_ok[OF this] show ?thesis using st(4) \<open>table_ok t'\<close> by simp
qed

lemma setup_in_bounds_witness:
  "setup_ok (sample_setup\<lparr>sPort := ''7000''\<rparr>)"
  using setup_in_bounds[OF _ _ table_ok_init _ _ _ sample_start] by (simp add: zero_setup_def days_ok_def)



text \<open>C35: A restart forgets the configuration file.  When the bot starts again in the same process, without options and
  with the same file, it stores the defaults first and then skips every line of the file, because
  the settings are still marked as found: it goes on with the defaults.\<close>

theorem restart_forgets_file:
  assumes "open_file config_path = Some content"
    and "AppMain_setup stat open_file [] databases config_path loglevel vsInputConfig s = Some (Inr (t, s'))"
  shows "AppMain_setup stat open_file [] databases config_path loglevel t s'
     = Some (Inr (t, adjust_times (default_setup databases config_path loglevel s')))"
proof -
  have cf: "configfile (default_setup databases config_path loglevel s0) = config_path" for s0
    by (simp add: default_setup_def)
  obtain s2 where "ConfigFileParser (Some content) vsInputConfig (default_setup databases config_path loglevel s) = Some (Inr (t, s2))"
    using assms unfolding AppMain_setup_Inr by (auto simp: cf)
  from config_again[OF this] show ?thesis
    unfolding AppMain_setup_Inr by (auto simp: cf assms(1) read_options_def)
qed

lemma restart_forgets_file_witness:
  "AppMain_setup (\<lambda>_. Inl 2) (\<lambda>_. Some (''port=7000'' @ [NL])) [] ''/db'' ''/ebotula.conf'' 5 port_marked (sample_setup\<lparr>sPort := ''7000''\<rparr>)
     = Some (Inr (port_marked, sample_setup))"
  using restart_forgets_file[OF _ sample_start, of "''port=7000'' @ [NL]"]
  by (simp add: adjust_times_def default_setup_def)

text \<open>Longer answers are cut into pieces that are taken for the following answers: the login \<open>abcdefgx\<close> with the
  password \<open>x\<close> makes a master \<open>abcdefg\<close>, and a password of sixteen characters that says the same eight twice is
  accepted as these eight.\<close>

lemma long_answers_accepted:
  "map (\<lambda>t. map_option (\<lambda>(ok, b). (ok, db_get exact_env b USER_DB (Some ''abcdefg''), db_get exact_env b USER_DB (Some ''boss'')))
       (dialogMaster exact_env t empty_bot))
     [''abcdefgx'' @ NL # ''x'' @ NL # ''x'' @ [NL], ''boss'' @ NL # ''password'' @ ''password'' @ NL # ''password'' @ ''password'' @ [NL]]
   = [Some (True, Some (crypt exact_env ''x''), None), Some (True, None, Some (crypt exact_env ''password''))]"
  by code_simp



end
