(* ===== verification/Program.thy ===== *)
theory Program
  imports Pool Options
begin

text \<open>
  The program from its start: \<open>main\<close> calls \<open>AppMain\<close> again as long as a restart is wanted.  \<open>AppMain\<close> reads its setup, opens the
  databases, connects and starts the threads (the steps of Pool), and when it has joined the command threads closes the
  databases, so that their files are what the next call opens.
\<close>

section \<open>What a call of AppMain meets\<close>

text \<open>
  The answers of the operating system and of the server: files and directories, the text typed at the terminal, the
  results of the network functions and the error number that a failing call leaves.
\<close>

record world =
  w_stat :: "string \<Rightarrow> int + bool"
  w_open_file :: "string \<Rightarrow> string option"
  w_euid :: int
  w_home :: "int \<Rightarrow> string option"
  w_databasedir :: string
  w_confdir :: string
  w_loglevel :: int
  w_dir_exists :: "string \<Rightarrow> bool"
  w_mkdir_ok :: "string \<Rightarrow> bool"
  w_can_open :: "string \<Rightarrow> bool"
  w_input :: string
  w_resolved :: "string \<Rightarrow> bool"
  w_protocol :: bool
  w_sockid :: int
  w_connect :: "string \<Rightarrow> int \<Rightarrow> int"
  w_recv :: "nat \<Rightarrow> recv_result"
  w_errno :: int

text \<open>What one call leaves for the next: the files of the databases, the global variables and the flag \<open>again\<close>.\<close>

record 'f process =
  db_files :: "string \<Rightarrow> 'f"
  input_table :: "InputValueStruct_t list"
  sSetup :: ConfigSetup_t
  restarting :: bool
  bRunAsRoot :: bool

definition db_path :: "string \<Rightarrow> string \<Rightarrow> string" where
  "db_path path name = path @ ''/'' @ name"

text \<open>
  \<open>gdbm_open\<close>: with \<open>GDBM_NEWDB\<close> the database is new, otherwise it has the content of the file, \<open>empty_file\<close> if there
  was none.
\<close>

definition gopen :: "'f \<Rightarrow> (string \<Rightarrow> 'f) \<Rightarrow> (string \<Rightarrow> bool) \<Rightarrow> string \<Rightarrow> gdbm_access \<Rightarrow> 'f option" where
  "gopen empty_file fs can p access = (if can p then Some (if access = GDBM_NEWDB then empty_file else fs p) else None)"

text \<open>The files after the databases of a list have been closed with the content \<open>d\<close>.\<close>

definition close_files :: "string \<Rightarrow> (int \<times> string \<times> gdbm_access) list \<Rightarrow> 'f databases \<Rightarrow> (string \<Rightarrow> 'f) \<Rightarrow> string \<Rightarrow> 'f" where
  "close_files path es d = fold (\<lambda>(i, name, _) fs. fs(db_path path name := d i)) es"

text \<open>\<open>closeDatabase\<close> closes all databases.\<close>

definition closeDatabase :: "'f process \<Rightarrow> 'f bot \<Rightarrow> 'f process" where
  "closeDatabase p b = p\<lparr>db_files := close_files (pDatabasePath (sSetup p)) pDB (dbs b) (db_files p)\<rparr>"

text \<open>When not all databases can be opened, those before the first that cannot be stay as they were opened.\<close>

definition abandoned :: "'f \<Rightarrow> (string \<Rightarrow> bool) \<Rightarrow> 'f process \<Rightarrow> 'f process" where
  "abandoned empty_file can p = (let path = pDatabasePath (sSetup p);
      es = takeWhile (\<lambda>(i, name, _). can (db_path path name)) pDB
    in p\<lparr>db_files := fold (\<lambda>(i, name, access) fs.
          fs(db_path path name := the (gopen empty_file fs can (db_path path name) access))) es (db_files p)\<rparr>)"

section \<open>AppMain up to its threads\<close>

text \<open>
  The part after the databases are open: the dialog for a master, the connection and the nick name.  \<open>Inl\<close> is the value with which
  \<open>AppMain\<close> returns, \<open>Inr\<close> the bot that its threads start with.
\<close>

definition AppMain_connect :: "'f env \<Rightarrow> world \<Rightarrow> 'f process \<Rightarrow> 'f databases
    \<Rightarrow> ((int \<times> 'f process) + ('f process \<times> 'f bot)) c_result" where
  "AppMain_connect E w p d = do {
     let s = sSetup p;
     let b = \<lparr>dbs = d, callbacks = [], sent = [], pBotname = cfg_pBotname s, sHostname = cfg_sHostname s,
              realname = cfg_realname s, stop = False, again = restarting p\<rparr>;
     (created, b) \<leftarrow> (if newMaster s then dialogMaster E (w_input w) b else Some (True, b));
     if \<not> created then Some (Inl (- 1, closeDatabase p b))
     else do {
       connected \<leftarrow> connectServer (w_resolved w) (w_protocol w) (w_sockid w) (w_connect w)
         (Some (cfg_sHostname s)) (Some (sPort s));
       if \<not> connected then Some (Inl (w_errno w, closeDatabase p b))
       else do {
         (named, b) \<leftarrow> ConnectToIrc E (w_recv w) b;
         if \<not> named then Some (Inl (w_errno w, closeDatabase p b))
         else Some (Inr (p, b\<lparr>stop := False, again := False\<rparr>)) } } }"

text \<open>The setup that a failing start leaves behind is only kept when the setup was complete.\<close>

definition AppMain_from :: "'f env \<Rightarrow> 'f \<Rightarrow> world \<Rightarrow> string list \<Rightarrow> string \<times> string \<Rightarrow> 'f process
    \<Rightarrow> ((int \<times> 'f process) + ('f process \<times> 'f bot)) c_result" where
  "AppMain_from E empty_file w args paths p = do {
     r \<leftarrow> AppMain_setup (w_stat w) (w_open_file w) args (fst paths) (snd paths) (w_loglevel w) (input_table p) (sSetup p);
     (case r of
        Inl ret \<Rightarrow> Some (Inl (ret, p))
      | Inr (t, s) \<Rightarrow>
          let p = p\<lparr>input_table := t, sSetup := s\<rparr>;
              path = pDatabasePath s;
              (opened, d) = initDatabases (w_dir_exists w path) (w_mkdir_ok w path)
                 (gopen empty_file (db_files p) (w_can_open w)) path (\<lambda>_. empty_file)
          in if \<not> opened then
               Some (Inl (w_errno w, if w_dir_exists w path \<or> w_mkdir_ok w path then abandoned empty_file (w_can_open w) p else p))
             else AppMain_connect E w p d) }"

text \<open>The flag \<open>bRunAsRoot\<close> survives a restart, when the effective user is no longer root.\<close>

definition AppMain_start :: "'f env \<Rightarrow> 'f \<Rightarrow> world \<Rightarrow> string list \<Rightarrow> 'f process
    \<Rightarrow> ((int \<times> 'f process) + ('f process \<times> 'f bot)) c_result" where
  "AppMain_start E empty_file w args p = do {
     let p = p\<lparr>bRunAsRoot := (if w_euid w = 0 \<and> \<not> bRunAsRoot p then True else bRunAsRoot p)\<rparr>;
     paths \<leftarrow> default_paths (bRunAsRoot p) (w_databasedir w) (w_confdir w) (w_home w (w_euid w));
     AppMain_from E empty_file w args paths p }"

lemma AppMain_start_from:
  assumes "AppMain_start E empty_file w args p = Some r"
  obtains paths root where "AppMain_from E empty_file w args paths (p\<lparr>bRunAsRoot := root\<rparr>) = Some r"
  using assms by (auto simp: AppMain_start_def Let_def bind_eq_Some_conv)

section \<open>The program\<close>

text \<open>
  Where \<open>main\<close> is: between two calls of \<open>AppMain\<close>, with its threads running, or at its end.  The environment keeps its
  database library; each call meets a world of its own.  \<open>AppMain\<close> creates as many command threads as the setup says, and
  closes the databases when it has joined all of them; \<open>main\<close> calls it again if this is wanted and the result is zero.
\<close>

datatype 'f phase = Between "'f process" | Running "'f process" "'f pool" | Ended "'f process"

definition first_process :: "(string \<Rightarrow> 'f) \<Rightarrow> 'f process" where
  "first_process fs = \<lparr>db_files = fs, input_table = vsInputConfig, sSetup = zero_setup, restarting = False, bRunAsRoot = False\<rparr>"

inductive program_step :: "'f env \<Rightarrow> 'f \<Rightarrow> string list \<Rightarrow> 'f phase \<Rightarrow> 'f phase \<Rightarrow> bool"
  for E :: "'f env" and empty_file :: 'f and args :: "string list" where
  started: "like E E' \<Longrightarrow> AppMain_start E' empty_file w args p = Some (Inr (p', b)) \<Longrightarrow>
    program_step E empty_file args (Between p) (Running p' (pool_start (nat (thread_limit (sSetup p'))) b))"
| failed: "like E E' \<Longrightarrow> AppMain_start E' empty_file w args p = Some (Inl (nRet, p')) \<Longrightarrow>
    program_step E empty_file args (Between p) (if restarting p \<and> nRet = 0 then Between p' else Ended p')"
| threads: "pool_step E (sSetup p) S S' \<Longrightarrow> program_step E empty_file args (Running p S) (Running p S')"
| joined: "p_main S = Joining \<Longrightarrow> \<forall>w \<in> set (p_workers S). w = Exited \<Longrightarrow>
    program_step E empty_file args (Running p S)
      (if again (p_bot S) then Between ((closeDatabase p (p_bot S))\<lparr>restarting := True\<rparr>)
       else Ended ((closeDatabase p (p_bot S))\<lparr>restarting := False\<rparr>))"

abbreviation program_run :: "'f env \<Rightarrow> 'f \<Rightarrow> string list \<Rightarrow> 'f phase \<Rightarrow> 'f phase \<Rightarrow> bool" where
  "program_run E empty_file args \<equiv> (program_step E empty_file args)\<^sup>*\<^sup>*"

definition reached :: "'f env \<Rightarrow> 'f \<Rightarrow> string list \<Rightarrow> (string \<Rightarrow> 'f) \<Rightarrow> 'f phase \<Rightarrow> bool" where
  "reached E empty_file args fs x \<longleftrightarrow> program_run E empty_file args (Between (first_process fs)) x"

section \<open>The files of the databases\<close>

text \<open>Every file of a database in every directory holds what the bot writes there.\<close>

definition file_ok :: "'f env \<Rightarrow> int \<Rightarrow> 'f \<Rightarrow> bool" where
  "file_ok E i f \<longleftrightarrow> (\<forall>k. gdbm_fetch (gdbm E) f k \<noteq> None \<longrightarrow> lowercase k)
     \<and> (i = CHANNEL_DB \<longrightarrow> (\<forall>k s. gdbm_fetch (gdbm E) f k = Some s \<longrightarrow> (\<exists>d. wf_data d \<and> s = ChannelDataToStr d)))"

definition files_ok :: "'f env \<Rightarrow> (string \<Rightarrow> 'f) \<Rightarrow> bool" where
  "files_ok E fs \<longleftrightarrow> (\<forall>path i name access. (i, name, access) \<in> set pDB \<longrightarrow> file_ok E i (fs (db_path path name)))"

lemma V_dbs: "V E b db = (if valid_db db then gdbm_fetch (gdbm E) (dbs b db) else (\<lambda>_. None))"
  by (auto simp: view_def get_dbf_def)

lemma stored_files: "stored_ok E b \<longleftrightarrow> (\<forall>db. valid_db db \<longrightarrow> file_ok E db (dbs b db))"
  by (auto simp: stored_ok_def keys_lower_def file_ok_def V_dbs dest: spec[of _ CHANNEL_DB])

text \<open>The names of the databases differ, and so do the paths.\<close>

lemma append_sep:
  assumes "c \<notin> set n" "c \<notin> set n'"
  shows "p @ c # n = p' @ c # n' \<longleftrightarrow> p = p' \<and> n = n'"
proof
  assume e: "p @ c # n = p' @ c # n'"
  have r: "rev (x @ c # y) = rev y @ c # rev x" for x y by simp
  have "rev n @ c # rev p = rev n' @ c # rev p'" using e r by metis
  then have "takeWhile (\<lambda>x. x \<noteq> c) (rev n @ c # rev p) = takeWhile (\<lambda>x. x \<noteq> c) (rev n' @ c # rev p')" by simp
  then have "rev n = rev n'" using assms by (simp add: takeWhile_upto)
  then show "p = p' \<and> n = n'" using e by simp
qed simp

lemma pDB_names:
  "\<forall>e \<in> set pDB. CHR ''/'' \<notin> set (fst (snd e))"
  "\<forall>e \<in> set pDB. \<forall>e' \<in> set pDB. (fst (snd e) = fst (snd e')) = (fst e = fst e')"
  by code_simp+

lemma db_path_eq:
  assumes "(i, n, a) \<in> set pDB" "(i', n', a') \<in> set pDB"
  shows "db_path p n = db_path p' n' \<longleftrightarrow> p = p' \<and> i = i'"
  using append_sep[of "CHR ''/''" n n' p p'] pDB_names(1)[rule_format, OF assms(1)] pDB_names(1)[rule_format, OF assms(2)]
    pDB_names(2)[rule_format, OF assms] by (simp add: db_path_def)

lemma files_ok_upd:
  assumes "files_ok E fs" "(i, n, a) \<in> set pDB" "file_ok E i f"
  shows "files_ok E (fs(db_path p n := f))"
  unfolding files_ok_def
proof (intro allI impI)
  fix p' i' n' a' assume e: "(i', n', a') \<in> set pDB"
  show "file_ok E i' ((fs(db_path p n := f)) (db_path p' n'))"
  proof (cases "db_path p' n' = db_path p n")
    case True
    then show ?thesis using assms(3) db_path_eq[OF e assms(2), of p' p] by simp
  next
    case False
    then show ?thesis using assms(1) e unfolding files_ok_def by auto
  qed
qed

text \<open>Files that are replaced one after the other by good ones stay good.\<close>

lemma files_ok_fold:
  assumes "\<And>i n a fs. (i, n, a) \<in> set es \<Longrightarrow> files_ok E fs \<Longrightarrow> file_ok E i (g fs (i, n, a))"
  shows "files_ok E fs \<Longrightarrow> set es \<subseteq> set pDB \<Longrightarrow> files_ok E (fold (\<lambda>(i, n, a) fs. fs(db_path path n := g fs (i, n, a))) es fs)"
  using assms
proof (induction es arbitrary: fs)
  case (Cons e es)
  obtain i n a where e: "e = (i, n, a)" by (cases e)
  have "files_ok E (fs(db_path path n := g fs (i, n, a)))"
    by (rule files_ok_upd[where i = i and a = a]) (use Cons.prems e in simp_all)
  then have "files_ok E (fold (\<lambda>(i, n, a) fs. fs(db_path path n := g fs (i, n, a))) es (fs(db_path path n := g fs (i, n, a))))"
    by (rule Cons.IH) (use Cons.prems(2,3) e in simp_all)
  then show ?case unfolding e by (simp only: fold.simps comp_def prod.case)
qed (simp only: fold.simps id_apply)

lemma pDB_valid: "(i, n, a) \<in> set pDB \<Longrightarrow> valid_db i"
  by (auto simp: pDB_def)

lemma close_ok:
  assumes "files_ok E (db_files p)" "stored_ok E b"
  shows "files_ok E (db_files (closeDatabase p b))"
proof -
  have "file_ok E i (dbs b i)" if "(i, n, a) \<in> set pDB" for i n a
    using assms(2) pDB_valid[OF that] by (simp add: stored_files)
  from files_ok_fold[of pDB E "\<lambda>_ (i, _, _). dbs b i", OF _ assms(1) subset_refl] this
  show ?thesis by (simp add: closeDatabase_def close_files_def)
qed

lemma gopen_ok:
  assumes "files_ok E fs" "gdbm_fetch (gdbm E) empty_file = Map.empty" "(i, n, a) \<in> set pDB"
    and "gopen empty_file fs can (db_path path n) access = Some f"
  shows "file_ok E i f"
proof -
  have "file_ok E i (fs (db_path path n))" using assms(1,3) unfolding files_ok_def by blast
  moreover have "file_ok E i empty_file" using assms(2) by (simp add: file_ok_def)
  ultimately show ?thesis using assms(4) by (auto simp: gopen_def split: if_splits)
qed

lemma abandoned_ok:
  assumes "files_ok E (db_files p)" "gdbm_fetch (gdbm E) empty_file = Map.empty"
  shows "files_ok E (db_files (abandoned empty_file can p))"
proof -
  let ?path = "pDatabasePath (sSetup p)"
  let ?es = "takeWhile (\<lambda>(i, name, _). can (db_path ?path name)) pDB"
  have sub: "set ?es \<subseteq> set pDB" by (auto dest: set_takeWhileD)
  have "file_ok E i (the (gopen empty_file fs can (db_path ?path n) a))" if "(i, n, a) \<in> set ?es" "files_ok E fs" for i n a fs
  proof -
    have "(i, n, a) \<in> set pDB" "can (db_path ?path n)" using set_takeWhileD[OF that(1)] by auto
    with gopen_ok[OF that(2) assms(2) this(1), of can ?path a] show ?thesis by (auto simp: gopen_def)
  qed
  from files_ok_fold[of ?es E "\<lambda>fs (i, n, a). the (gopen empty_file fs can (db_path ?path n) a)", OF _ assms(1) sub] this
  show ?thesis by (simp add: abandoned_def Let_def)
qed

section \<open>The databases at the start\<close>

lemma open_all_opens:
  "open_all op path es s = (True, d) \<Longrightarrow> distinct (map fst es) \<Longrightarrow>
     (\<forall>i. i \<notin> fst ` set es \<longrightarrow> d i = s i) \<and> (\<forall>i n a. (i, n, a) \<in> set es \<longrightarrow> op (db_path path n) a = Some (d i))"
proof (induction es arbitrary: s)
  case (Cons e es)
  obtain i n a where e: "e = (i, n, a)" by (cases e)
  then obtain f where f: "op (db_path path n) a = Some f" "open_all op path es (s(i := f)) = (True, d)"
    using Cons.prems(1) by (auto simp: db_path_def split: option.splits)
  have "i \<notin> fst ` set es" "distinct (map fst es)" using Cons.prems(2) e by simp_all
  with Cons.IH[OF f(2)] f(1) e show ?case by auto
qed simp

lemma pDB_ids: "distinct (map fst pDB)" "set (map fst pDB) = {0..<MAX_DB}"
  by (simp add: pDB_def, auto simp: pDB_def)

text \<open>What the bot finds when it starts: the content of the files, and nobody logged on.\<close>

lemma opened_databases:
  assumes "initDatabases dir mk (gopen empty_file fs can) path s = (True, d)" "valid_db db"
  shows "d db = (if db = USERTONICK_DB \<or> db = NICKTOUSER_DB then empty_file else fs (db_path path (fst (snd (pDB ! nat db)))))"
proof -
  have all: "open_all (gopen empty_file fs can) path pDB s = (True, d)"
    using assms by (auto simp: initDatabases_def split: if_splits)
  have "\<forall>db \<in> set [0..6]. pDB ! nat db \<in> set pDB \<and> fst (pDB ! nat db) = db
      \<and> (snd (snd (pDB ! nat db)) = GDBM_NEWDB \<longleftrightarrow> db = USERTONICK_DB \<or> db = NICKTOUSER_DB)" by code_simp
  moreover have "db \<in> set [0..6]" using assms(2) by simp
  ultimately obtain n a where e: "pDB ! nat db = (db, n, a)" "(db, n, a) \<in> set pDB"
    "a = GDBM_NEWDB \<longleftrightarrow> db = USERTONICK_DB \<or> db = NICKTOUSER_DB" by (metis prod.collapse)
  from open_all_opens[OF all pDB_ids(1)] e(2) have "gopen empty_file fs can (db_path path n) a = Some (d db)" by blast
  then show ?thesis using e(1,3) by (auto simp: gopen_def split: if_splits)
qed

lemma opened_ok:
  assumes "files_ok E fs" "gdbm_fetch (gdbm E) empty_file = Map.empty"
    and "initDatabases dir mk (gopen empty_file fs can) path s = (True, d)" "dbs b = d"
  shows "stored_ok E b" "logins_ok E b"
proof -
  have all: "open_all (gopen empty_file fs can) path pDB s = (True, d)"
    using assms(3) by (auto simp: initDatabases_def split: if_splits)
  have "file_ok E i (d i)" if "valid_db i" for i
  proof -
    have "i \<in> set (map fst pDB)" using that pDB_ids(2) by simp
    then obtain n a where e: "(i, n, a) \<in> set pDB" by auto
    from open_all_opens[OF all pDB_ids(1)] e have "gopen empty_file fs can (db_path path n) a = Some (d i)" by blast
    from gopen_ok[OF assms(1,2) e this] show ?thesis .
  qed
  then show "stored_ok E b" using assms(4) by (simp add: stored_files)
  have "V E b USERTONICK_DB = Map.empty" "V E b NICKTOUSER_DB = Map.empty"
    using opened_databases[OF assms(3), of USERTONICK_DB] opened_databases[OF assms(3), of NICKTOUSER_DB] assms(2,4)
    by (simp_all add: view_def get_dbf_def)
  then show "logins_ok E b" by (simp add: logins_ok_def)
qed

section \<open>The bot at the start\<close>

lemma connect_loop_dbs: "connect_loop E recv t b = Some (r, b') \<Longrightarrow> dbs b' = dbs b"
proof (induction "4 - t" arbitrary: t b rule: less_induct)
  case less
  obtain f d where rv: "RecvLine RECV_BUFFER_SIZE (recv (t + 1)) = Some (f, d)"
    using less.prems by (subst (asm) connect_loop.simps) (auto simp: bind_eq_Some_conv)
  obtain b1 where b1: "dbs b1 = dbs b" "connect_loop E recv t b = (if t + 1 > MAX_NICKS then Some (False, b1)
      else if nick_refused d then connect_loop E recv (t + 1) b1 else Some (True, b1))"
    using connect_step[where recv = recv and t = t, OF rv, of b E] by blast
  show ?case
  proof (cases "t + 1 > MAX_NICKS \<or> \<not> nick_refused d")
    case False
    then have "connect_loop E recv (t + 1) b1 = Some (r, b')" "4 - (t + 1) < 4 - t" using less.prems b1(2) by auto
    from less.hyps[OF this(2,1)] b1(1) show ?thesis by simp
  qed (use less.prems b1 in \<open>auto split: if_splits\<close>)
qed

lemma ConnectToIrc_dbs: "ConnectToIrc E recv b = Some (r, b') \<Longrightarrow> dbs b' = dbs b"
  unfolding ConnectToIrc_def by (drule connect_loop_dbs) (simp add: user_def SendLine_def Let_def)

lemma dialogMaster_ok:
  assumes "env_ok E" "dialogMaster E input b = Some (r, b')"
  shows "stored_ok E b \<Longrightarrow> stored_ok E b'" "logins_ok E b \<Longrightarrow> logins_ok E b'"
proof -
  have *: "stored_ok E c \<Longrightarrow> stored_ok E (snd (db_add E db (Some k) (Some v) c))"
    "logins_ok E c \<Longrightarrow> logins_ok E (snd (db_add E db (Some k) (Some v) c))"
    if "db = USER_DB \<or> db = ACCESS_DB" for db k v c
    using that stored_add[OF assms(1), of c db k "Some v"] logins_other(2)[OF assms(1), of c db k v] by auto
  have d: "stored_ok E c \<Longrightarrow> stored_ok E (snd (db_del E USER_DB (Some k) c))"
    "logins_ok E c \<Longrightarrow> logins_ok E (snd (db_del E USER_DB (Some k) c))" for k c
    using stored_del[OF assms(1)] logins_other(1)[OF assms(1), of c USER_DB k] by auto
  show "stored_ok E b \<Longrightarrow> stored_ok E b'" "logins_ok E b \<Longrightarrow> logins_ok E b'"
    using assms(2) * d by (auto simp: dialogMaster_def bind_eq_Some_conv Let_def split_beta split: if_splits)
qed

text \<open>A start leaves good files, and its bot has records that can be read and nobody logged on.\<close>

abbreviation good_start :: "'f env \<Rightarrow> ((int \<times> 'f process) + ('f process \<times> 'f bot)) \<Rightarrow> bool" where
  "good_start E r \<equiv> (case r of Inl (ret, p) \<Rightarrow> files_ok E (db_files p)
    | Inr (p, b) \<Rightarrow> files_ok E (db_files p) \<and> stored_ok E b \<and> logins_ok E b \<and> \<not> stop b \<and> \<not> again b)"

lemma AppMain_connect_ok:
  assumes "env_ok E" "files_ok E (db_files p)" "\<And>b. dbs b = d \<Longrightarrow> stored_ok E b \<and> logins_ok E b"
    and "AppMain_connect E w p d = Some r"
  shows "good_start E r"
proof -
  let ?s = "sSetup p"
  let ?b = "\<lparr>dbs = d, callbacks = [], sent = [], pBotname = cfg_pBotname ?s, sHostname = cfg_sHostname ?s,
              realname = cfg_realname ?s, stop = False, again = restarting p\<rparr>"
  obtain created b where c: "(if newMaster ?s then dialogMaster E (w_input w) ?b else Some (True, ?b)) = Some (created, b)"
    using assms(4) unfolding AppMain_connect_def Let_def bind_eq_Some_conv by auto
  have b: "stored_ok E b" "logins_ok E b"
    using c assms(3)[of ?b] dialogMaster_ok[OF assms(1)] by (auto split: if_splits)
  have close: "files_ok E (db_files (closeDatabase p c))" if "dbs c = dbs b" for c
    using close_ok[OF assms(2)] b(1) stored_cong[OF that] by blast
  have same: "stored_ok E c \<and> logins_ok E c" if "dbs c = dbs b" for c
    using b stored_cong[OF that] logins_same[OF that] by blast
  show ?thesis
  proof (cases created)
    case True
    let ?c = "connectServer (w_resolved w) (w_protocol w) (w_sockid w) (w_connect w) (Some (cfg_sHostname ?s)) (Some (sPort ?s))"
    let ?k = "\<lambda>n. if \<not> n then Some (Inl (w_errno w, closeDatabase p b)) else do {
         (named, b) \<leftarrow> ConnectToIrc E (w_recv w) b;
         if \<not> named then Some (Inl (w_errno w, closeDatabase p b))
         else Some (Inr (p, b\<lparr>stop := False, again := False\<rparr>)) }"
    have "Some r = ?c \<bind> ?k"
      using assms(4) True unfolding AppMain_connect_def Let_def c bind.bind_lunit prod.case by simp
    then obtain n where n: "Some r = ?k n" by (cases ?c) simp_all
    show ?thesis
    proof (cases n)
      case True
      then obtain named b' where n': "ConnectToIrc E (w_recv w) b = Some (named, b')"
        "r = (if \<not> named then Inl (w_errno w, closeDatabase p b') else Inr (p, b'\<lparr>stop := False, again := False\<rparr>))"
        using n by (auto simp: bind_eq_Some_conv split: bind_splits if_splits)
      from ConnectToIrc_dbs[OF n'(1)] n'(2) close[of b'] same[of "b'\<lparr>stop := False, again := False\<rparr>"] assms(2)
      show ?thesis by simp
    qed (use n close in simp)
  next
    case False
    then have "r = Inl (- 1, closeDatabase p b)"
      using assms(4) c unfolding AppMain_connect_def Let_def bind_eq_Some_conv by auto
    then show ?thesis using close by simp
  qed
qed

lemma AppMain_from_ok:
  assumes "env_ok E" "gdbm_fetch (gdbm E) empty_file = Map.empty" "files_ok E (db_files p)"
    and "AppMain_from E empty_file w args paths p = Some r"
  shows "good_start E r"
proof -
  obtain q where q: "AppMain_setup (w_stat w) (w_open_file w) args (fst paths) (snd paths) (w_loglevel w) (input_table p) (sSetup p) = Some q"
    using assms(4) by (auto simp: AppMain_from_def bind_eq_Some_conv)
  show ?thesis
  proof (cases q)
    case (Inl ret)
    then show ?thesis using assms(3,4) q by (auto simp: AppMain_from_def)
  next
    case (Inr ts)
    obtain t s where ts: "ts = (t, s)" by (cases ts)
    let ?p = "p\<lparr>input_table := t, sSetup := s\<rparr>" and ?path = "pDatabasePath s"
    obtain opened d where i: "initDatabases (w_dir_exists w ?path) (w_mkdir_ok w ?path)
        (gopen empty_file (db_files ?p) (w_can_open w)) ?path (\<lambda>_. empty_file) = (opened, d)" by (meson surj_pair)
    have fp: "files_ok E (db_files ?p)" using assms(3) by simp
    have r: "Some r = (if \<not> opened then Some (Inl (w_errno w, if w_dir_exists w ?path \<or> w_mkdir_ok w ?path
        then abandoned empty_file (w_can_open w) ?p else ?p)) else AppMain_connect E w ?p d)"
      using assms(4) unfolding AppMain_from_def q Inr ts by (simp only: bind.bind_lunit sum.case prod.case Let_def i)
    show ?thesis
    proof (cases opened)
      case True
      have d: "stored_ok E b \<and> logins_ok E b" if "dbs b = d" for b
        using opened_ok[OF fp assms(2) i[unfolded True[THEN eqTrueI]] that] by blast
      have "AppMain_connect E w ?p d = Some r" using r True by simp
      from AppMain_connect_ok[OF assms(1) fp d this] show ?thesis .
    qed (use r fp abandoned_ok[OF fp assms(2)] in simp)
  qed
qed

lemma AppMain_start_ok:
  assumes "env_ok E" "gdbm_fetch (gdbm E) empty_file = Map.empty" "files_ok E (db_files p)"
    and "AppMain_start E empty_file w args p = Some r"
  shows "good_start E r"
proof (rule AppMain_start_from[OF assms(4)])
  fix paths root assume "AppMain_from E empty_file w args paths (p\<lparr>bRunAsRoot := root\<rparr>) = Some r"
  from AppMain_from_ok[OF assms(1,2) _ this] assms(3) show ?thesis by simp
qed

section \<open>The whole program\<close>

lemma like_files: "like E E' \<Longrightarrow> files_ok E' fs = files_ok E fs"
  by (simp add: files_ok_def file_ok_def like_def)

lemma like_start:
  assumes "like E E'" "gdbm_fetch (gdbm E) empty_file = Map.empty" "files_ok E (db_files p)"
    and "AppMain_start E' empty_file w args p = Some r"
  shows "good_start E r"
proof -
  have e: "env_ok E'" "gdbm_fetch (gdbm E') empty_file = Map.empty" using assms(1,2) by (simp_all add: like_def)
  have s: "stored_ok E' b = stored_ok E b" "logins_ok E' b = logins_ok E b" for b
    using fun_cong[OF like_stored[OF assms(1)], of b] fun_cong[OF like_logins[OF assms(1)], of b] e(1) by simp_all
  have "good_start E' r"
    by (rule AppMain_start_ok[OF e _ assms(4)]) (simp only: like_files[OF assms(1)] assms(3))
  then show ?thesis by (simp only: like_files[OF assms(1)] s)
qed

text \<open>What the files and the databases of a phase satisfy; a running phase is one that its own threads lead to.\<close>

definition phase_ok :: "'f env \<Rightarrow> 'f phase \<Rightarrow> bool" where
  "phase_ok E x \<longleftrightarrow> (case x of Between p \<Rightarrow> files_ok E (db_files p)
    | Running p S \<Rightarrow> files_ok E (db_files p) \<and> (\<exists>b. stored_ok E b \<and> points_back E b
        \<and> pool_run E (sSetup p) (pool_start (nat (thread_limit (sSetup p))) b) S)
    | Ended p \<Rightarrow> files_ok E (db_files p))"

lemma phase_step:
  assumes "gdbm_fetch (gdbm E) empty_file = Map.empty" "program_step E empty_file args x x'" "phase_ok E x"
  shows "phase_ok E x'"
  using assms(2)
proof (cases rule: program_step.cases)
  case (started E' w p p' b)
  then have "good_start E (Inr (p', b))" using like_start[OF started(3) assms(1) _ started(4)] assms(3) by (simp add: phase_ok_def)
  then show ?thesis using started logins_ok_points[of E b] by (auto simp: phase_ok_def)
next
  case (failed E' w p nRet p')
  then show ?thesis using like_start[OF failed(3) assms(1) _ failed(4)] assms(3) by (simp add: phase_ok_def)
next
  case (threads p S S')
  then show ?thesis using assms(3) by (auto simp: phase_ok_def intro: rtranclp.rtrancl_into_rtrancl)
next
  case (joined S p)
  then obtain b where b: "files_ok E (db_files p)" "stored_ok E b" "points_back E b"
      "pool_run E (sSetup p) (pool_start (nat (thread_limit (sSetup p))) b) S" using assms(3) by (auto simp: phase_ok_def)
  have "files_ok E (db_files (closeDatabase p (p_bot S)))" using close_ok[OF b(1)] pool_keeps[OF b(4,2,3)] by blast
  then show ?thesis using joined by (simp add: phase_ok_def)
qed

lemma phase_run:
  assumes "gdbm_fetch (gdbm E) empty_file = Map.empty" "files_ok E fs" "reached E empty_file args fs x"
  shows "phase_ok E x"
  using assms(3) unfolding reached_def
proof (induction rule: rtranclp_induct)
  case base
  then show ?case using assms(2) by (simp add: phase_ok_def first_process_def)
next
  case (step x x')
  then show ?case using phase_step[OF assms(1)] by blast
qed

text \<open>C14: From the first start on, through any number of restarts and failed starts, however the threads interrupt each other and whatever
  the server does in between: the files of the databases, in whatever directory, only hold records that the bot can
  read.  While it runs its own records are readable, and every netmask that is logged on is the
  one that is stored for its account, so that no account is logged on from two netmasks.\<close>

theorem program_invariant:
  assumes "env_ok E" "gdbm_fetch (gdbm E) empty_file = Map.empty" "files_ok E fs" "reached E empty_file args fs x"
  shows "case x of Between p \<Rightarrow> files_ok E (db_files p)
    | Running p S \<Rightarrow> files_ok E (db_files p) \<and> stored_ok E (p_bot S)
        \<and> (\<forall>n l. db_get E (p_bot S) NICKTOUSER_DB (Some n) = Some l \<longrightarrow>
            (\<exists>m. db_get E (p_bot S) USERTONICK_DB (Some l) = Some m \<and> StrToLower m = StrToLower n))
    | Ended p \<Rightarrow> files_ok E (db_files p)"
proof -
  have ok: "phase_ok E x" by (rule phase_run[OF assms(2-4)])
  show ?thesis
  proof (cases x)
    case (Running p S)
    then obtain b where b: "files_ok E (db_files p)" "stored_ok E b" "points_back E b"
      "pool_run E (sSetup p) (pool_start (nat (thread_limit (sSetup p))) b) S" using ok by (auto simp: phase_ok_def)
    from pool_keeps[OF b(4,2,3)] b(1) show ?thesis
      using assms(1) points_backD[of E "p_bot S"] by (simp add: Running)
  qed (use ok in \<open>simp_all add: phase_ok_def\<close>)
qed

definition sample_world :: world where
  "sample_world = \<lparr>w_stat = (\<lambda>_. Inl 2), w_open_file = (\<lambda>_. None), w_euid = 1000,
     w_home = (\<lambda>_. Some ''/home/bot''), w_databasedir = ''/var/db'', w_confdir = ''/etc'',
     w_loglevel = 5, w_dir_exists = (\<lambda>_. True), w_mkdir_ok = (\<lambda>_. False), w_can_open = (\<lambda>_. True), w_input = [],
     w_resolved = (\<lambda>_. True), w_protocol = True, w_sockid = 3, w_connect = (\<lambda>_ _. 0),
     w_recv = (\<lambda>_. Received (''welcome'' @ CRLF)), w_errno = 5\<rparr>"

definition sample_process :: "(string \<times> string) list process" where
  "sample_process = \<lparr>db_files = (\<lambda>_. []), input_table = vsInputConfig, sSetup = zero_setup, restarting = False, bRunAsRoot = False\<rparr>"

lemma sample_start_process:
  "map_option (\<lambda>r. case r of Inl x \<Rightarrow> None | Inr (p, b) \<Rightarrow> Some (thread_limit (sSetup p), again b, stop b))
     (AppMain_start exact_env [] sample_world [] sample_process) = Some (Some (3, False, False))"
  by code_simp

lemma sample_start_bot:
  obtains p b where "AppMain_start exact_env [] sample_world [] sample_process = Some (Inr (p, b))"
    "thread_limit (sSetup p) = 3" "\<not> again b" "\<not> stop b"
proof -
  obtain r where r: "AppMain_start exact_env [] sample_world [] sample_process = Some r"
    "(case r of Inl x \<Rightarrow> None | Inr (p, b) \<Rightarrow> Some (thread_limit (sSetup p), again b, stop b)) = Some (3, False, False)"
    using sample_start_process by auto
  then show thesis using that by (cases r) auto
qed

lemma exact_empty: "gdbm_fetch (gdbm exact_env) [] = Map.empty"
  by (simp add: exact_env_def alist_gdbm_def fun_eq_iff)

text \<open>The program starts with three command threads.  One of them may wait for a message when a signal stops
  the bot, or all of them may still be at the test of their loop.\<close>

lemma sample_started:
  obtains p b where "reached exact_env [] [] (\<lambda>_. []) (Running p (pool_start 3 b))" "\<not> again b" "\<not> stop b"
proof -
  obtain p b where p: "AppMain_start exact_env [] sample_world [] sample_process = Some (Inr (p, b))" "thread_limit (sSetup p) = 3"
    "\<not> again b" "\<not> stop b"
    by (rule sample_start_bot)
  have "program_step exact_env [] [] (Between sample_process) (Running p (pool_start (nat (thread_limit (sSetup p))) b))"
    by (rule program_step.started[OF like_refl[OF exact_env_ok] p(1)])
  moreover have "sample_process = first_process (\<lambda>_. [])" by (simp add: first_process_def sample_process_def)
  ultimately have "reached exact_env [] [] (\<lambda>_. []) (Running p (pool_start 3 b))" using p(2) by (auto simp: reached_def)
  then show thesis using that p(3,4) by blast
qed

lemma reached_threads:
  "pool_run E (sSetup p) S S' \<Longrightarrow> reached E empty_file args fs (Running p S) \<Longrightarrow> reached E empty_file args fs (Running p S')"
proof (induction rule: rtranclp_induct)
  case (step S1 S2)
  then have "program_run E empty_file args (Between (first_process fs)) (Running p S1)" by (simp add: reached_def)
  then show ?case using program_step.threads[OF step(2)] unfolding reached_def by (meson rtranclp.rtrancl_into_rtrancl)
qed simp

lemma stopped_pool:
  assumes "env_ok E" "p_main S = Reading" "p_queue S = []"
  shows "pool_run E cfg S (S\<lparr>p_main := Joining, p_bot := stopParser E (p_bot S)\<rparr>)"
proof -
  let ?S1 = "S\<lparr>p_bot := stopParser E (p_bot S)\<rparr>"
  let ?S2 = "?S1\<lparr>p_main := Flushing\<rparr>"
  have "pool_step E cfg S ?S1" by (rule pool_step.signal[OF like_refl[OF assms(1)]])
  moreover have "pool_step E cfg ?S1 ?S2" by (rule pool_step.leave) (simp_all add: assms(2) stopParser_def Let_def)
  moreover have "pool_step E cfg ?S2 (?S2\<lparr>p_main := Joining\<rparr>)" by (rule pool_step.flushed) (simp_all add: assms(3))
  moreover have "?S2\<lparr>p_main := Joining\<rparr> = S\<lparr>p_main := Joining, p_bot := stopParser E (p_bot S)\<rparr>" by simp
  ultimately show ?thesis by (metis converse_rtranclp_into_rtranclp rtranclp.rtrancl_refl)
qed

lemma program_invariant_witness:
  "\<exists>p. reached exact_env [] [] (\<lambda>_. []) (Ended p) \<and> files_ok exact_env (db_files p)"
proof -
  obtain p b where r: "reached exact_env [] [] (\<lambda>_. []) (Running p (pool_start 3 b))" "\<not> again b" by (rule sample_started)
  let ?S = "(pool_start 3 b)\<lparr>p_main := Joining, p_bot := stopParser exact_env b\<rparr>"
  have s: "stop (stopParser exact_env b)" "\<not> again (stopParser exact_env b)" using r(2) by (simp_all add: stopParser_def quit_def Let_def)
  have "pool_run exact_env (sSetup p) (pool_start 3 b) ?S"
    using stopped_pool[OF exact_env_ok, of "pool_start 3 b" "sSetup p"] by (simp add: pool_start_def)
  moreover have "pool_run exact_env (sSetup p) ?S (?S\<lparr>p_workers := replicate 3 Exited\<rparr>)"
    by (rule workers_exit) (use s in \<open>simp_all add: pool_start_def\<close>)
  ultimately have "reached exact_env [] [] (\<lambda>_. []) (Running p (?S\<lparr>p_workers := replicate 3 Exited\<rparr>))"
    by (intro reached_threads[OF _ r(1)]) (rule rtranclp_trans)
  moreover have "program_step exact_env [] [] (Running p (?S\<lparr>p_workers := replicate 3 Exited\<rparr>))
      (Ended ((closeDatabase p (stopParser exact_env b))\<lparr>restarting := False\<rparr>))"
    using program_step.joined[of "?S\<lparr>p_workers := replicate 3 Exited\<rparr>" exact_env "[]" "[]" p] s(2) by simp
  ultimately have e: "reached exact_env [] [] (\<lambda>_. []) (Ended ((closeDatabase p (stopParser exact_env b))\<lparr>restarting := False\<rparr>))"
    unfolding reached_def by (meson rtranclp.rtrancl_into_rtrancl)
  have "files_ok exact_env (\<lambda>_. [])" by (simp add: files_ok_def file_ok_def exact_empty)
  from program_invariant[OF exact_env_ok exact_empty this e] e show ?thesis by auto
qed

section \<open>A bot that cannot stop\<close>

lemma running_pool:
  assumes "reached E empty_file args fs (Running p S)"
  shows "\<exists>n b. pool_run E (sSetup p) (pool_start n b) S"
proof -
  have "\<forall>p S. x = Running p S \<longrightarrow> (\<exists>n b. pool_run E (sSetup p) (pool_start n b) S)" if "reached E empty_file args fs x" for x
    using that unfolding reached_def
  proof (induction rule: rtranclp_induct)
    case (step x x')
    from step(2,3) show ?case
      by (cases rule: program_step.cases) (auto split: if_splits intro: rtranclp.rtrancl_into_rtrancl)
  qed simp
  then show ?thesis using assms by blast
qed

text \<open>C11: A command thread that is idle when the bot stops keeps it from ending, whether a signal, \<open>!die\<close> or \<open>!restart\<close> stops it: if the
  main thread has emptied the queue and joins the command threads while one of them still waits in \<open>popQueue\<close>, then, whatever
  the threads and the server do later, \<open>AppMain\<close> never returns: the queue stays empty and the thread waits for ever, so that the databases
  are never closed and the bot is not started again.\<close>

theorem idle_thread_blocks_stop:
  assumes "reached E empty_file args fs (Running p S)" "p_main S = Joining" "i < length (p_workers S)" "p_workers S ! i = InPop"
    and "program_run E empty_file args (Running p S) x"
  shows "\<exists>S'. x = Running p S' \<and> p_main S' = Joining \<and> p_queue S' = [] \<and> p_workers S' ! i = InPop"
proof -
  obtain n b where "pool_run E (sSetup p) (pool_start n b) S" using running_pool[OF assms(1)] by blast
  then have h: "hanging i S" using joining_empty assms(2-4) by (auto simp: hanging_def)
  have "\<exists>S'. x = Running p S' \<and> hanging i S'" using assms(5)
  proof (induction rule: rtranclp_induct)
    case (step x x')
    then obtain S1 where S1: "x = Running p S1" "hanging i S1" by blast
    then have "i < length (p_workers S1)" "p_workers S1 ! i \<noteq> Exited" by (auto simp: hanging_def)
    then have "p_workers S1 ! i \<in> set (p_workers S1)" "p_workers S1 ! i \<noteq> Exited" by auto
    with step(2) S1 show ?case by (cases rule: program_step.cases) (auto dest: hanging_step)
  qed (use h in blast)
  then show ?thesis by (auto simp: hanging_def)
qed

lemma idle_thread_blocks_stop_witness:
  "\<exists>p (S :: (string \<times> string) list pool). reached exact_env [] [] (\<lambda>_. []) (Running p S) \<and> stop (p_bot S) \<and> p_main S = Joining
     \<and> (\<forall>x. program_run exact_env [] [] (Running p S) x \<longrightarrow> (\<exists>S'. x = Running p S'))"
proof -
  obtain p b where r: "reached exact_env [] [] (\<lambda>_. []) (Running p (pool_start 3 b))" "\<not> stop b" by (rule sample_started)
  let ?S1 = "(pool_start 3 b)\<lparr>p_workers := (replicate 3 AtLoop)[0 := InPop]\<rparr>"
  let ?S = "?S1\<lparr>p_main := Joining, p_bot := stopParser exact_env b\<rparr>"
  have "pool_step exact_env (sSetup p) (pool_start 3 b) ?S1"
    using pool_step.again[of 0 "pool_start 3 b" exact_env "sSetup p"] r(2) by (simp add: pool_start_def)
  moreover have "pool_run exact_env (sSetup p) ?S1 ?S"
    using stopped_pool[OF exact_env_ok, of ?S1 "sSetup p"] by (simp add: pool_start_def)
  ultimately have e: "reached exact_env [] [] (\<lambda>_. []) (Running p ?S)"
    by (intro reached_threads[OF _ r(1)]) (rule converse_rtranclp_into_rtranclp)
  have "\<exists>S'. x = Running p S'" if "program_run exact_env [] [] (Running p ?S) x" for x
    using idle_thread_blocks_stop[OF e _ _ _ that, of 0] by auto
  moreover have "stop (p_bot ?S)" "p_main ?S = Joining" by (simp_all add: stopParser_def Let_def)
  ultimately show ?thesis using e by blast
qed

section \<open>What a restart keeps\<close>

lemma connect_inr:
  assumes "AppMain_connect E w p d = Some (Inr (p', b))" "\<not> newMaster (sSetup p)"
  shows "p' = p \<and> dbs b = d"
proof -
  show ?thesis
    using assms ConnectToIrc_dbs[of E "w_recv w"]
    by (fastforce simp: AppMain_connect_def Let_def bind_eq_Some_conv split: if_splits)
qed

lemma connect_setup: "AppMain_connect E w p d = Some (Inr (p', b)) \<Longrightarrow> p' = p"
  by (auto simp: AppMain_connect_def Let_def bind_eq_Some_conv split: if_splits)

lemma from_inr:
  assumes "AppMain_from E empty_file w args paths p = Some (Inr (p', b))" "\<not> newMaster (sSetup p')"
  obtains dir mk where "initDatabases dir mk (gopen empty_file (db_files p) (w_can_open w)) (pDatabasePath (sSetup p')) (\<lambda>_. empty_file)
    = (True, dbs b)"
proof -
  obtain t s where ts: "AppMain_setup (w_stat w) (w_open_file w) args (fst paths) (snd paths) (w_loglevel w) (input_table p) (sSetup p)
      = Some (Inr (t, s))"
  proof -
    obtain q where q: "AppMain_setup (w_stat w) (w_open_file w) args (fst paths) (snd paths) (w_loglevel w) (input_table p) (sSetup p) = Some q"
      using assms(1) by (auto simp: AppMain_from_def bind_eq_Some_conv)
    then show thesis using assms(1) that by (cases q) (auto simp: AppMain_from_def)
  qed
  let ?p = "p\<lparr>input_table := t, sSetup := s\<rparr>" and ?path = "pDatabasePath s"
  obtain opened d where i: "initDatabases (w_dir_exists w ?path) (w_mkdir_ok w ?path)
      (gopen empty_file (db_files ?p) (w_can_open w)) ?path (\<lambda>_. empty_file) = (opened, d)" by (meson surj_pair)
  have "Some (Inr (p', b)) = (if \<not> opened then Some (Inl (w_errno w, if w_dir_exists w ?path \<or> w_mkdir_ok w ?path
      then abandoned empty_file (w_can_open w) ?p else ?p)) else AppMain_connect E w ?p d)"
    using assms(1) unfolding AppMain_from_def ts by (simp only: bind.bind_lunit sum.case prod.case Let_def i)
  then have c: "opened" "AppMain_connect E w ?p d = Some (Inr (p', b))" by (simp_all split: if_splits)
  have "sSetup p' = s \<and> dbs b = d"
    using connect_inr[OF c(2)] connect_setup[OF c(2)] assms(2) by auto
  then show thesis using that[of "w_dir_exists w ?path" "w_mkdir_ok w ?path"] i c(1) by simp
qed

lemma start_inr:
  assumes "AppMain_start E empty_file w args p = Some (Inr (p', b))" "\<not> newMaster (sSetup p')"
  obtains dir mk where "initDatabases dir mk (gopen empty_file (db_files p) (w_can_open w)) (pDatabasePath (sSetup p')) (\<lambda>_. empty_file)
    = (True, dbs b)"
proof (rule AppMain_start_from[OF assms(1)])
  fix paths root assume "AppMain_from E empty_file w args paths (p\<lparr>bRunAsRoot := root\<rparr>) = Some (Inr (p', b))"
  then show thesis by (rule from_inr[OF _ assms(2)]) (use that in simp)
qed

lemma pDB_entry:
  assumes "valid_db db"
  shows "\<exists>a. (db, fst (snd (pDB ! nat db)), a) \<in> set pDB"
proof -
  have "\<forall>db \<in> set [0..6]. pDB ! nat db \<in> set pDB \<and> fst (pDB ! nat db) = db" by code_simp
  moreover have "db \<in> set [0..6]" using assms by simp
  ultimately show ?thesis by (metis prod.collapse)
qed

lemma closeDatabase_files: "db_files (closeDatabase p b) = close_files (pDatabasePath (sSetup p)) pDB (dbs b) (db_files p)"
  by (simp add: closeDatabase_def)

lemma closed_files:
  assumes "valid_db db"
  shows "close_files path pDB d fs (db_path path (fst (snd (pDB ! nat db)))) = d db"
proof -
  have f: "close_files path es d fs (db_path path n) = (if (\<exists>a. (db, n, a) \<in> set es) then d db else fs (db_path path n))"
    if "set es \<subseteq> set pDB" "(db, n, a) \<in> set pDB" for es n a
    using that(1)
  proof (induction es arbitrary: fs)
    case (Cons e es)
    obtain i n' a' where e: "e = (i, n', a')" by (cases e)
    have "(i, n', a') \<in> set pDB" using Cons.prems e by simp
    from db_path_eq[OF this that(2), of path path] pDB_names(2)[rule_format, OF this that(2)] Cons e
    show ?case by (auto simp: close_files_def)
  qed (simp add: close_files_def)
  obtain a where "(db, fst (snd (pDB ! nat db)), a) \<in> set pDB" using pDB_entry[OF assms] by blast
  from f[OF subset_refl this] this show ?thesis by auto
qed

text \<open>C15: A restart forgets no account: if the bot stops to start itself again, and the next call of \<open>AppMain\<close> gets as far as its
  threads with the same directory of databases and without the dialog for a new master, then it finds every account, right,
  time stamp, channel record and ban as it was at the end, while nobody is logged on any more.\<close>

theorem restart_keeps_accounts:
  assumes "gdbm_fetch (gdbm E) empty_file = Map.empty" "like E E'"
    and "AppMain_start E' empty_file w args ((closeDatabase p b0)\<lparr>restarting := True\<rparr>) = Some (Inr (p', b))"
    and "pDatabasePath (sSetup p') = pDatabasePath (sSetup p)" "\<not> newMaster (sSetup p')"
  shows "db_get E b db (Some k) = (if db = USERTONICK_DB \<or> db = NICKTOUSER_DB then None else db_get E b0 db (Some k))"
proof (cases "valid_db db")
  case True
  obtain dir mk where i: "initDatabases dir mk (gopen empty_file (db_files (closeDatabase p b0)) (w_can_open w))
      (pDatabasePath (sSetup p')) (\<lambda>_. empty_file) = (True, dbs b)"
    using start_inr[OF assms(3,5)] by auto
  have "dbs b db = (if db = USERTONICK_DB \<or> db = NICKTOUSER_DB then empty_file else dbs b0 db)"
    unfolding opened_databases[OF i True] unfolding assms(4) closeDatabase_files closed_files[OF True] ..
  then show ?thesis using assms(1) True by (simp add: V_dbs)
qed (auto simp: V_dbs)

lemma restart_process:
  "map_option (\<lambda>r. case r of Inl x \<Rightarrow> None | Inr (p, b) \<Rightarrow> Some (pDatabasePath (sSetup p), newMaster (sSetup p)))
     (AppMain_start exact_env [] sample_world [] ((closeDatabase (sample_process\<lparr>sSetup := sample_setup\<lparr>pDatabasePath := ''/home/bot/.ebotula/db''\<rparr>\<rparr>) logged_bot)\<lparr>restarting := True\<rparr>))
   = Some (Some (''/home/bot/.ebotula/db'', False))"
  by code_simp

lemma restart_keeps_accounts_witness:
  "\<exists>b. db_get exact_env b USER_DB (Some ''bob'') = Some ''wp'' \<and> db_get exact_env b NICKTOUSER_DB (Some ''bob!u@h'') = None"
proof -
  let ?p = "sample_process\<lparr>sSetup := sample_setup\<lparr>pDatabasePath := ''/home/bot/.ebotula/db''\<rparr>\<rparr>"
  obtain r where r: "AppMain_start exact_env [] sample_world [] ((closeDatabase ?p logged_bot)\<lparr>restarting := True\<rparr>) = Some r"
    "(case r of Inl x \<Rightarrow> None | Inr (p, b) \<Rightarrow> Some (pDatabasePath (sSetup p), newMaster (sSetup p))) = Some (''/home/bot/.ebotula/db'', False)"
    using restart_process by auto
  then obtain p b where p: "r = Inr (p, b)" "pDatabasePath (sSetup p) = pDatabasePath (sSetup ?p)" "\<not> newMaster (sSetup p)"
    by (cases r) (auto simp: default_setup_def)
  have "like exact_env exact_env" by (simp add: like_def)
  note k = restart_keeps_accounts[OF exact_empty \<open>like exact_env exact_env\<close> _ p(2,3), of sample_world "[]" logged_bot b, OF r(1)[unfolded p(1)]]
  have "db_get exact_env logged_bot USER_DB (Some ''bob'') = Some ''wp''" by code_simp
  with k[of USER_DB "''bob''"] k[of NICKTOUSER_DB "''bob!u@h''"] show ?thesis by (auto simp del: V_get)
qed

end
