(* ===== verification/Tools.thy ===== *)
theory Tools
  imports Database
begin

text \<open>
  The database tool of \<open>tools/\<close>: a command line program that dumps a database file of the bot
  and stores, deletes, fetches and looks up single entries.  Keys and values pass through
  \<open>quote_string\<close> on the way out and \<open>dequote_string\<close> on the way in.  Keys and values are
  stored with their terminating null byte, as the bot does, so that both see the same entries.
\<close>

section \<open>Quoting\<close>

abbreviation BSLASH :: char where "BSLASH \<equiv> CHR 0x5C"

definition str_quotes :: string where
  "str_quotes = [SP, DQ, BSLASH]"

definition sym_quotes :: string where
  "sym_quotes = [CHR 0x07, CHR 0x08, CHR 0x0C, NL, CR, TAB, CHR 0x0B]"

text \<open>The letter of an escape sequence and the control character it stands for.\<close>

definition escape_letter :: "char \<Rightarrow> char" where
  "escape_letter c =
     (if c = CHR 0x07 then CHR ''a'' else if c = CHR 0x08 then CHR ''b''
      else if c = CHR 0x0C then CHR ''f'' else if c = NL then CHR ''n''
      else if c = CR then CHR ''r'' else if c = TAB then CHR ''t''
      else if c = CHR 0x0B then CHR ''v'' else CHR 0x00)"

definition escape_value :: "char \<Rightarrow> char" where
  "escape_value c =
     (if c = CHR ''a'' then CHR 0x07 else if c = CHR ''b'' then CHR 0x08
      else if c = CHR ''f'' then CHR 0x0C else if c = CHR ''n'' then NL
      else if c = CHR ''r'' then CR else if c = CHR ''t'' then TAB
      else if c = CHR ''v'' then CHR 0x0B else c)"

definition quote_char :: "char \<Rightarrow> string" where
  "quote_char c =
     (if c \<in> set str_quotes then [BSLASH, c]
      else if c \<in> set sym_quotes then [BSLASH, escape_letter c]
      else [c])"

text \<open>
  The buffer of \<open>quote_string\<close> is zeroed, so that the text needs its null byte too; writing past
  the end of it is undefined.
\<close>

definition quote_buffer :: "string \<Rightarrow> string" where
  "quote_buffer s = DQ # concat (map quote_char s) @ [DQ]"

definition quote_string :: "string option \<Rightarrow> string option c_result" where
  "quote_string pIn = (case pIn of
       None \<Rightarrow> Some None
     | Some s \<Rightarrow>
         if s = [] then Some None
         else if length (quote_buffer s) + 1 \<le> 2 + (2 * length s + 1) then Some (Some (quote_buffer s))
         else None)"

text \<open>
  One turn of the loop of \<open>dequote_string\<close> over the state flag, write position and buffer;
  \<open>last\<close> says that the next character is the null byte.  The character an escape sequence stands
  for is written, and the letter of the sequence is written over it.
\<close>

definition dequote_step :: "char \<Rightarrow> bool \<Rightarrow> nat \<times> nat \<times> string \<Rightarrow> nat \<times> nat \<times> string" where
  "dequote_step c at_end = (\<lambda>(bSlash, i, buf).
     let (bSlash, buf) = (if bSlash = 1 then (2, buf[i := escape_value c]) else (bSlash, buf)) in
     if c = BSLASH \<and> bSlash = 0 then (1, i, buf)
     else (0, if at_end then i else i + 1, buf[i := c]))"

fun dequote_loop :: "string \<Rightarrow> nat \<times> nat \<times> string \<Rightarrow> string" where
  "dequote_loop [] (bSlash, i, buf) = take i buf"
| "dequote_loop (c # cs) st = dequote_loop cs (dequote_step c (cs = []) st)"

definition dequote_string :: "string option \<Rightarrow> string option" where
  "dequote_string pIn = (case pIn of
       None \<Rightarrow> None
     | Some [] \<Rightarrow> None
     | Some (c # cs) \<Rightarrow>
         if c \<noteq> DQ then Some (c # cs)
         else Some (dequote_loop cs (0, 0, replicate (length (c # cs) + 1) (CHR 0x00))))"

section \<open>Operations on a database file\<close>

text \<open>
  The file is \<open>None\<close> for the null pointer.  A quoted key that is empty makes \<open>dequote_string\<close>
  return the null pointer, which \<open>strlen\<close> then reads.
\<close>

definition tool_text :: "int \<Rightarrow> string \<Rightarrow> string c_result" where
  "tool_text bIgnoreQuoting s = (if bIgnoreQuoting = 0 then dequote_string (Some s) else Some s)"

definition store_gdbm :: "'f gdbm \<Rightarrow> 'f option \<Rightarrow> int \<Rightarrow> int \<Rightarrow> string option \<Rightarrow> string option
    \<Rightarrow> (int \<times> 'f option) c_result" where
  "store_gdbm G qDbF bIgnoreQuoting bReplace sKey sContent = (case (qDbF, sKey, sContent) of
       (Some f, Some key, Some content) \<Rightarrow> do {
         k \<leftarrow> tool_text bIgnoreQuoting key;
         v \<leftarrow> tool_text bIgnoreQuoting content;
         let (r, f') = gdbm_store G f k v (if bReplace = 1 then GDBM_REPLACE else GDBM_INSERT);
         Some (r, Some f') }
     | _ \<Rightarrow> Some (1, qDbF))"

definition delete_gdbm :: "'f gdbm \<Rightarrow> 'f option \<Rightarrow> int \<Rightarrow> string option \<Rightarrow> (int \<times> 'f option) c_result" where
  "delete_gdbm G qDbF bIgnoreQuoting sKey = (case (qDbF, sKey) of
       (Some f, Some key) \<Rightarrow> do {
         k \<leftarrow> tool_text bIgnoreQuoting key;
         let (r, f') = gdbm_delete G f k;
         Some (r, Some f') }
     | _ \<Rightarrow> Some (1, qDbF))"

text \<open>\<open>fetch_gdbm\<close> leaves the variable of its caller alone when it finds nothing.\<close>

definition fetch_gdbm :: "'f gdbm \<Rightarrow> 'f option \<Rightarrow> int \<Rightarrow> string option \<Rightarrow> (int \<times> string option) c_result" where
  "fetch_gdbm G qDbF bIgnoreQuoting sKey = (case (qDbF, sKey) of
       (Some f, Some key) \<Rightarrow> do {
         k \<leftarrow> tool_text bIgnoreQuoting key;
         Some (case gdbm_fetch G f k of None \<Rightarrow> (1, None) | Some v \<Rightarrow> (0, Some v)) }
     | _ \<Rightarrow> Some (1, None))"

definition exists_gdbm :: "'f gdbm \<Rightarrow> 'f option \<Rightarrow> int \<Rightarrow> string option \<Rightarrow> int c_result" where
  "exists_gdbm G qDbF bIgnoreQuoting sKey = (case (qDbF, sKey) of
       (Some f, Some key) \<Rightarrow> do {
         k \<leftarrow> tool_text bIgnoreQuoting key;
         Some (if gdbm_exists G f k then 1 else 0) }
     | _ \<Rightarrow> Some 0)"

text \<open>
  One entry of a dump.  An empty key or value is a null pointer for \<open>fprintf\<close>, and without
  quoting the program prints blocks it has not filled.
\<close>

definition dump_entry :: "'f gdbm \<Rightarrow> 'f \<Rightarrow> int \<Rightarrow> string \<Rightarrow> string c_result" where
  "dump_entry G f bQuoteOutput key = (case gdbm_fetch G f key of
       None \<Rightarrow> Some []
     | Some content \<Rightarrow>
         if bQuoteOutput = 1 then do {
           k \<leftarrow> quote_string (Some key);
           v \<leftarrow> quote_string (Some content);
           k \<leftarrow> k;
           v \<leftarrow> v;
           Some (k @ SP # v @ [NL]) }
         else None)"

fun dump_entries :: "'f gdbm \<Rightarrow> 'f \<Rightarrow> int \<Rightarrow> string list \<Rightarrow> string c_result" where
  "dump_entries G f q [] = Some []"
| "dump_entries G f q (k # ks) = do {
     line \<leftarrow> dump_entry G f q k;
     rest \<leftarrow> dump_entries G f q ks;
     Some (line @ rest) }"

definition dump_gdbm :: "'f gdbm \<Rightarrow> 'f option \<Rightarrow> int \<Rightarrow> (int \<times> string) c_result" where
  "dump_gdbm G qDbF bQuoteOutput = (case qDbF of
       None \<Rightarrow> Some (1, [])
     | Some f \<Rightarrow> do {
         ks \<leftarrow> list_loop G f (gdbm_firstkey G f);
         out \<leftarrow> dump_entries G f bQuoteOutput ks;
         Some (0, out) })"

section \<open>The program\<close>

definition g_cmds :: "(string \<times> int) list" where
  "g_cmds = [(''dump'', 0), (''store'', 1), (''del'', 2), (''fetch'', 3), (''exists'', 4)]"

definition tool_command :: "string \<Rightarrow> int" where
  "tool_command s = (case map_of g_cmds (map tolower_c s) of None \<Rightarrow> - 1 | Some i \<Rightarrow> i)"

text \<open>
  The result of a command on the open file: the exit status, the file and what is printed to the
  standard output or the dump file.  \<open>fopen_ok\<close> says whether the output file can be created.  A
  fetch that fails frees a variable that was never set.
\<close>

definition tool_run :: "'f gdbm \<Rightarrow> (string \<Rightarrow> bool) \<Rightarrow> int \<Rightarrow> 'f \<Rightarrow> string list \<Rightarrow> (int \<times> 'f option \<times> string) c_result" where
  "tool_run G fopen_ok nType f argv =
     (if nType = 0 then
        (if length argv \<ge> 5 \<and> \<not> fopen_ok (argv ! 4) then Some (2, Some f, [])
         else do { (r, out) \<leftarrow> dump_gdbm G (Some f) 1; Some (if r \<noteq> 0 then 2 else r, Some f, out) })
      else if nType = 1 then
        (if length argv < 6 then Some (2, Some f, [])
         else do { (r, f') \<leftarrow> store_gdbm G (Some f) 0 1 (Some (argv ! 4)) (Some (argv ! 5));
                   Some (if r \<noteq> 0 then 2 else r, f', []) })
      else if nType = 2 then
        (if length argv < 5 then Some (2, Some f, [])
         else do { (r, f') \<leftarrow> delete_gdbm G (Some f) 0 (Some (argv ! 4));
                   Some (if r \<noteq> 0 then 2 else r, f', []) })
      else if nType = 3 then
        (if length argv < 5 then Some (2, Some f, [])
         else do { (r, v) \<leftarrow> fetch_gdbm G (Some f) 0 (Some (argv ! 4));
                   v \<leftarrow> v;
                   Some (r, Some f, v @ [NL]) })
      else
        (if length argv < 5 then Some (0, Some f, [])
         else do { r \<leftarrow> exists_gdbm G (Some f) 0 (Some (argv ! 4)); Some (r, Some f, []) }))"

definition tool_main :: "'f gdbm \<Rightarrow> (string \<Rightarrow> 'f option) \<Rightarrow> (string \<Rightarrow> bool) \<Rightarrow> string list
    \<Rightarrow> (int \<times> 'f option \<times> string) c_result" where
  "tool_main G gopen fopen_ok argv =
     (if length argv < 4 then Some (2, None, [])
      else let nType = tool_command (argv ! 3) in
        if nType = - 1 then Some (2, None, [])
        else (case gopen (argv ! 2) of None \<Rightarrow> Some (2, None, [])
          | Some f \<Rightarrow> tool_run G fopen_ok nType f argv))"

section \<open>Quoting and reading back\<close>

text \<open>
  What \<open>dequote_string\<close> makes of a quoted character: a control character that has an escape
  sequence comes back as the letter of the sequence.
\<close>

definition dequoted :: "char \<Rightarrow> char" where
  "dequoted c = (if c \<in> set sym_quotes then escape_letter c else c)"

lemma sym_not_str: "c \<in> set sym_quotes \<Longrightarrow> c \<notin> set str_quotes"
  by (auto simp: sym_quotes_def str_quotes_def)

lemma dequoted_id: "dequoted c = c \<longleftrightarrow> c \<notin> set sym_quotes"
  by (auto simp: dequoted_def sym_quotes_def escape_letter_def)

lemma dequote_plain:
  "c \<noteq> BSLASH \<Longrightarrow> cs \<noteq> [] \<Longrightarrow> dequote_loop (c # cs) (0, i, buf) = dequote_loop cs (0, i + 1, buf[i := c])"
  by (simp add: dequote_step_def)

lemma dequote_escape:
  "cs \<noteq> [] \<Longrightarrow> dequote_loop (BSLASH # c # cs) (0, i, buf) = dequote_loop cs (0, i + 1, buf[i := c])"
  by (simp add: dequote_step_def)

lemma dequote_quote_char:
  assumes "cs \<noteq> []"
  shows "dequote_loop (quote_char c @ cs) (0, i, buf) = dequote_loop cs (0, i + 1, buf[i := dequoted c])"
proof -
  consider "c \<in> set str_quotes" | "c \<in> set sym_quotes" | "c \<notin> set str_quotes" "c \<notin> set sym_quotes" by blast
  then show ?thesis
  proof cases
    case 1
    then show ?thesis
      using assms sym_not_str by (auto simp: quote_char_def dequoted_def dequote_escape simp del: dequote_loop.simps)
  next
    case 2
    then show ?thesis
      using assms sym_not_str by (auto simp: quote_char_def dequoted_def dequote_escape simp del: dequote_loop.simps)
  next
    case 3
    then have "c \<noteq> BSLASH" by (auto simp: str_quotes_def)
    with 3 assms show ?thesis
      by (auto simp: quote_char_def dequoted_def dequote_plain simp del: dequote_loop.simps)
  qed
qed

lemma dequote_quoted:
  "i + length s < length buf \<Longrightarrow>
     dequote_loop (concat (map quote_char s) @ [DQ]) (0, i, buf) = take i buf @ map dequoted s"
proof (induction s arbitrary: i buf)
  case Nil
  then show ?case by (simp add: dequote_step_def)
next
  case (Cons c s)
  then have "dequote_loop (concat (map quote_char s) @ [DQ]) (0, i + 1, buf[i := dequoted c])
      = take (i + 1) (buf[i := dequoted c]) @ map dequoted s" by simp
  moreover have "take (i + 1) (buf[i := dequoted c]) = take i buf @ [dequoted c]"
    using Cons.prems by (simp add: take_Suc_conv_app_nth)
  ultimately show ?case by (simp add: dequote_quote_char)
qed

lemma quote_char_length: "1 \<le> length (quote_char c) \<and> length (quote_char c) \<le> 2"
  by (simp add: quote_char_def)

lemma concat_quote_length:
  "length s \<le> length (concat (map quote_char s)) \<and> length (concat (map quote_char s)) \<le> 2 * length s"
proof (induction s)
  case (Cons c s)
  then show ?case using quote_char_length[of c] by simp
qed simp

lemma quote_string_buffer: "s \<noteq> [] \<Longrightarrow> quote_string (Some s) = Some (Some (quote_buffer s))"
  using concat_quote_length[of s] by (simp add: quote_string_def quote_buffer_def)

lemma dequote_quote_buffer: "dequote_string (Some (quote_buffer s)) = Some (map dequoted s)"
  using concat_quote_length[of s]
  by (simp add: quote_buffer_def dequote_string_def dequote_quoted del: replicate_Suc)

text \<open>Text of printable characters.\<close>

definition printable :: "string \<Rightarrow> bool" where
  "printable s \<longleftrightarrow> s \<noteq> [] \<and> set s \<inter> set sym_quotes = {}"

lemma map_dequoted: "map dequoted s = s \<longleftrightarrow> set s \<inter> set sym_quotes = {}"
  by (induction s) (auto simp: dequoted_id)

lemma printable_round_trip: "printable s \<Longrightarrow> dequote_string (Some (quote_buffer s)) = Some s"
  by (simp add: dequote_quote_buffer printable_def map_dequoted)

text \<open>Quoting is a text format: quoted texts of printable characters are different when the texts are.\<close>

interpretation quoted_text: text_format quote_buffer "\<lambda>q. dequote_string (Some q)" printable
  by unfold_locales (rule printable_round_trip)

section \<open>Properties\<close>

text \<open>C25: Quoting a text needs at most twice its length and the two quotation marks, which is what its
  buffer holds, and reading the quoted text back gives the text with every control character that
  has an escape sequence replaced by the letter of the sequence: the text itself comes back
  exactly when it has none of these.\<close>

theorem quote_round_trip:
  "s \<noteq> [] \<Longrightarrow> \<exists>q. quote_string (Some s) = Some (Some q) \<and> length q \<le> 2 * length s + 2
     \<and> dequote_string (Some q) = Some (map dequoted s)
     \<and> (dequote_string (Some q) = Some s \<longleftrightarrow> set s \<inter> set sym_quotes = {})"
  using concat_quote_length[of s]
  by (intro exI[of _ "quote_buffer s"])
     (simp add: quote_string_buffer dequote_quote_buffer map_dequoted, simp add: quote_buffer_def)

lemma quote_round_trip_witness:
  "\<exists>q. quote_string (Some ''a b'') = Some (Some q) \<and> length q \<le> 8 \<and> dequote_string (Some q) = Some ''a b''"
proof -
  have "set ''a b'' \<inter> set sym_quotes = {}" by (simp add: sym_quotes_def)
  with quote_round_trip[of "''a b''"] show ?thesis by auto
qed

text \<open>A dump prints every entry of the file once, as the quoted key and the quoted value on a line,
  if no key and no value is empty; an entry with an empty value makes the program print a null pointer.\<close>

lemma tool_dump_complete:
  assumes "gdbm_ok G" "gopen file = Some f"
  shows "\<exists>ks. distinct ks \<and> set ks = dom (gdbm_fetch G f)
     \<and> tool_main G gopen fopen_ok [prog, blocks, file, ''dump''] =
         (if \<forall>k v. gdbm_fetch G f k = Some v \<longrightarrow> k \<noteq> [] \<and> v \<noteq> []
          then Some (0, Some f, concat (map (\<lambda>k. quote_buffer k @ SP # quote_buffer (the (gdbm_fetch G f k)) @ [NL]) ks))
          else None)"
proof -
  obtain ks where ks: "list_db G (\<lambda>_. f) 0 = Some ks" "distinct ks" "set ks = dom (view G (\<lambda>_. f) 0)"
    using list_view[OF assms(1), of 0 "\<lambda>_. f"] by auto
  have entries: "dump_entries G f 1 ks' = (if \<forall>k \<in> set ks'. k \<noteq> [] \<and> the (gdbm_fetch G f k) \<noteq> []
      then Some (concat (map (\<lambda>k. quote_buffer k @ SP # quote_buffer (the (gdbm_fetch G f k)) @ [NL]) ks')) else None)"
    if "set ks' \<subseteq> dom (gdbm_fetch G f)" for ks'
    using that
  proof (induction ks')
    case (Cons k ks')
    then obtain v where v: "gdbm_fetch G f k = Some v" by auto
    have "dump_entry G f 1 k = (if k \<noteq> [] \<and> v \<noteq> [] then Some (quote_buffer k @ SP # quote_buffer v @ [NL]) else None)"
      using v quote_string_buffer[of k] quote_string_buffer[of v] by (auto simp: dump_entry_def quote_string_def)
    with Cons v show ?case by auto
  qed simp
  have cmd: "tool_command ''dump'' = 0" by code_simp
  have dom: "set ks = dom (gdbm_fetch G f)" and loop: "list_loop G f (gdbm_firstkey G f) = Some ks"
    using ks by (simp_all add: view_def get_dbf_def list_db_def)
  have all: "(\<forall>k v. gdbm_fetch G f k = Some v \<longrightarrow> k \<noteq> [] \<and> v \<noteq> []) \<longleftrightarrow> (\<forall>k \<in> set ks. k \<noteq> [] \<and> the (gdbm_fetch G f k) \<noteq> [])"
  proof (intro iffI ballI allI impI)
    fix k assume a: "\<forall>k v. gdbm_fetch G f k = Some v \<longrightarrow> k \<noteq> [] \<and> v \<noteq> []" and "k \<in> set ks"
    then obtain v where "gdbm_fetch G f k = Some v" using dom by auto
    with a show "k \<noteq> [] \<and> the (gdbm_fetch G f k) \<noteq> []" by simp
  next
    fix k v assume a: "\<forall>k \<in> set ks. k \<noteq> [] \<and> the (gdbm_fetch G f k) \<noteq> []" and v: "gdbm_fetch G f k = Some v"
    from v dom have "k \<in> set ks" by auto
    with a v show "k \<noteq> [] \<and> v \<noteq> []" by (metis option.sel)
  qed
  have "tool_main G gopen fopen_ok [prog, blocks, file, ''dump'']
      = do { out \<leftarrow> dump_entries G f 1 ks; Some (0, Some f, out) }"
    by (simp add: tool_main_def cmd assms(2) tool_run_def dump_gdbm_def loop)
  also have "\<dots> = (if \<forall>k \<in> set ks. k \<noteq> [] \<and> the (gdbm_fetch G f k) \<noteq> []
      then Some (0, Some f, concat (map (\<lambda>k. quote_buffer k @ SP # quote_buffer (the (gdbm_fetch G f k)) @ [NL]) ks)) else None)"
    by (subst entries) (simp_all add: dom del: concat_map_singleton)
  finally show ?thesis unfolding all using ks(2) dom by blast
qed

text \<open>C26: The tool and the bot agree on what a database holds.  Storing a quoted key and value of printable characters writes exactly
  the pair into the file, replacing an older value.  A dump of the file then prints, if no key and no
  value in it is empty, exactly one line for each key, the stored key among them, with the quoted key and the quoted
  value, from which the pair can be stored anew; a fetch prints the value.  And if the
  key is in lower case, the bot that opens the file as one of its databases finds the value under every spelling of the key.\<close>

theorem tool_store_seen_by_bot:
  assumes "gdbm_ok G" "printable k" "printable v" "gopen file = Some f"
  shows "\<exists>f'. tool_main G gopen fopen_ok [prog, blocks, file, ''STORE'', quote_buffer k, quote_buffer v] = Some (0, Some f', [])
     \<and> gdbm_fetch G f' = (gdbm_fetch G f)(k \<mapsto> v)
     \<and> dump_entry G f' 1 k = Some (quote_buffer k @ SP # quote_buffer v @ [NL])
     \<and> ((\<forall>key value. gdbm_fetch G f key = Some value \<longrightarrow> key \<noteq> [] \<and> value \<noteq> []) \<longrightarrow>
         (\<exists>ks. distinct ks \<and> set ks = insert k (dom (gdbm_fetch G f))
           \<and> tool_main G (\<lambda>_. Some f') fopen_ok [prog, blocks, file, ''dump''] = Some (0, Some f',
               concat (map (\<lambda>key. quote_buffer key @ SP # quote_buffer (the (gdbm_fetch G f' key)) @ [NL]) ks))))
     \<and> tool_run G fopen_ok 3 f' [prog, blocks, file, ''fetch'', quote_buffer k] = Some (0, Some f', v @ [NL])
     \<and> (lowercase k \<longrightarrow> valid_db db \<longrightarrow> StrToLower k' = k \<longrightarrow> get_db G (s(db := f')) db (Some k') = Some v)"
proof -
  obtain r f' where st: "gdbm_store G f k v GDBM_REPLACE = (r, f')" by (cases "gdbm_store G f k v GDBM_REPLACE")
  with assms(1) have f': "r = 0" "gdbm_fetch G f' = (gdbm_fetch G f)(k \<mapsto> v)"
    unfolding gdbm_ok_def by (metis fst_conv snd_conv)+
  have dq: "dequote_string (Some (quote_buffer k)) = Some k" "dequote_string (Some (quote_buffer v)) = Some v"
    using assms(2,3) by (simp_all add: quoted_text.dec_enc)
  have cmd: "tool_command ''STORE'' = 1" by code_simp
  have ne: "k \<noteq> []" "v \<noteq> []" using assms(2,3) by (auto simp: printable_def)
  then have "dump_entry G f' 1 k = Some (quote_buffer k @ SP # quote_buffer v @ [NL])"
    by (simp add: dump_entry_def f' quote_string_buffer)
  moreover have "tool_main G gopen fopen_ok [prog, blocks, file, ''STORE'', quote_buffer k, quote_buffer v] = Some (0, Some f', [])"
    by (simp add: tool_main_def cmd assms(4) tool_run_def store_gdbm_def tool_text_def dq st f' Let_def)
  moreover have "tool_run G fopen_ok 3 f' [prog, blocks, file, ''fetch'', quote_buffer k] = Some (0, Some f', v @ [NL])"
    by (simp add: tool_run_def fetch_gdbm_def tool_text_def dq f')
  moreover have "lowercase k \<longrightarrow> valid_db db \<longrightarrow> StrToLower k' = k \<longrightarrow> get_db G (s(db := f')) db (Some k') = Some v"
    by (auto simp: get_view view_def f')
  moreover have "\<exists>ks. distinct ks \<and> set ks = insert k (dom (gdbm_fetch G f))
      \<and> tool_main G (\<lambda>_. Some f') fopen_ok [prog, blocks, file, ''dump''] = Some (0, Some f',
          concat (map (\<lambda>key. quote_buffer key @ SP # quote_buffer (the (gdbm_fetch G f' key)) @ [NL]) ks))"
    if "\<forall>key value. gdbm_fetch G f key = Some value \<longrightarrow> key \<noteq> [] \<and> value \<noteq> []"
  proof -
    have "\<forall>k v. gdbm_fetch G f' k = Some v \<longrightarrow> k \<noteq> [] \<and> v \<noteq> []" using that ne by (auto simp: f'(2))
    note full = if_P[where P = "\<forall>k v. gdbm_fetch G f' k = Some v \<longrightarrow> k \<noteq> [] \<and> v \<noteq> []", OF this]
    have "\<exists>ks. distinct ks \<and> set ks = dom (gdbm_fetch G f')
       \<and> tool_main G (\<lambda>_. Some f') fopen_ok [prog, blocks, file, ''dump''] =
           (if \<forall>k v. gdbm_fetch G f' k = Some v \<longrightarrow> k \<noteq> [] \<and> v \<noteq> []
            then Some (0, Some f', concat (map (\<lambda>k. quote_buffer k @ SP # quote_buffer (the (gdbm_fetch G f' k)) @ [NL]) ks))
            else None)"
      by (rule tool_dump_complete[OF assms(1) refl])
    moreover have "dom (gdbm_fetch G f') = insert k (dom (gdbm_fetch G f))" by (simp add: f'(2))
    ultimately show ?thesis unfolding full by simp
  qed
  ultimately show ?thesis using f'(2) by blast
qed

lemma tool_store_seen_by_bot_witness:
  "\<exists>f'. tool_main alist_gdbm (\<lambda>_. Some []) (\<lambda>_. True)
       [''tool'', ''512'', ''access.dbf'', ''STORE'', quote_buffer ''bob'', quote_buffer ''+m''] = Some (0, Some f', [])
     \<and> (\<exists>ks. set ks = {''bob''} \<and> tool_main alist_gdbm (\<lambda>_. Some f') (\<lambda>_. True) [''tool'', ''512'', ''access.dbf'', ''dump'']
          = Some (0, Some f', concat (map (\<lambda>key. quote_buffer key @ SP # quote_buffer (the (gdbm_fetch alist_gdbm f' key)) @ [NL]) ks)))
     \<and> get_db alist_gdbm (empty_dbs(ACCESS_DB := f')) ACCESS_DB (Some ''Bob'') = Some ''+m''"
proof -
  have "printable ''bob''" "printable ''+m''" "lowercase ''bob''" "StrToLower ''Bob'' = ''bob''" by code_simp+
  moreover have "gdbm_fetch alist_gdbm [] = Map.empty" by (simp add: alist_gdbm_def fun_eq_iff)
  ultimately show ?thesis
    using tool_store_seen_by_bot[OF gdbm_ok_alist, of "''bob''" "''+m''" "\<lambda>_. Some []" "''access.dbf''" "[]" "\<lambda>_. True"
      "''tool''" "''512''" ACCESS_DB "''Bob''" empty_dbs] by fastforce
qed

end
