(* ===== verification/Queue.thy ===== *)
theory Queue
  imports Chains "HOL-Library.Word"
begin

text \<open>
  The message queue of \<open>queue.c\<close>: a doubly linked ring through a sentinel node, in which
  \<open>sentinel->next\<close> is the newest and \<open>sentinel->prev\<close> the oldest element.  Each operation
  runs under the queue's mutex, so it is one atomic step; waiting on the condition variable is
  the outcome \<open>Blocked\<close>.  The outcome of \<open>malloc\<close> is an argument: the fresh address with the
  garbage found there, or \<open>None\<close>.  The contents refine a first-in first-out list.
\<close>

section \<open>Data\<close>

datatype QueueExeStatus = QUEUE_SUCCESS | QUEUE_ERROR | QUEUE_MEMORY_ALLOC_ERROR
  | QUEUE_NO_ELEMENT_LEFT | QUEUE_NULL_POINTER_AS_IN_PARAMETER

datatype QueueType = QUEUENONE | QUEUESENTINEL

record QueueData =
  t_size :: int
  q_data :: "string option"

text \<open>The mutex and the condition are modelled by whether their pointers are set.\<close>

record Queue =
  q_next :: ptr
  q_prev :: ptr
  q_sentinel :: ptr
  q_iterator :: ptr
  queuetypeT :: QueueType
  queuedataData :: "QueueData option"
  longCount :: "64 word"
  queue_mutex :: bool
  StopThreadCond :: bool

type_synonym queue_heap = "Queue heap"

datatype 'r waiting = Blocked | Done 'r

section \<open>Operations\<close>

definition initQueue :: "queue_heap \<Rightarrow> (nat \<times> Queue) option \<Rightarrow> ptr \<times> queue_heap" where
  "initQueue h m = (case m of None \<Rightarrow> (None, h)
     | Some (a, junk) \<Rightarrow>
        (Some a, h(a \<mapsto> junk\<lparr>q_sentinel := Some a, queuetypeT := QUEUESENTINEL,
           q_iterator := Some a, q_next := Some a, q_prev := Some a, queuedataData := None,
           longCount := 0, queue_mutex := True, StopThreadCond := True\<rparr>)))"

text \<open>The guard of \<open>pushQueue\<close>, \<open>popQueue\<close> and \<open>deleteQueue\<close>.\<close>

definition bad_queue :: "queue_heap \<Rightarrow> ptr \<Rightarrow> bool c_result" where
  "bad_queue h p = (if p = None then Some True else do {
     q \<leftarrow> deref h p;
     if q_sentinel q = None then Some True
     else do { s \<leftarrow> deref h (q_sentinel q); Some (\<not> queue_mutex s \<or> \<not> StopThreadCond s) } })"

text \<open>\<open>memcpy\<close> from a buffer shorter than \<open>t_size\<close> is undefined.\<close>

definition copy_data :: "QueueData \<Rightarrow> QueueData c_result" where
  "copy_data e = (if t_size e > 0
     then (case q_data e of None \<Rightarrow> None
        | Some b \<Rightarrow> if nat (t_size e) \<le> length b
            then Some \<lparr>t_size = t_size e, q_data = Some (take (nat (t_size e)) b)\<rparr> else None)
     else Some \<lparr>t_size = t_size e, q_data = None\<rparr>)"

text \<open>The pointer updates of \<open>pushQueue\<close> for the new node \<open>a\<close>, in the order of the code.\<close>

definition link_new :: "queue_heap \<Rightarrow> ptr \<Rightarrow> nat \<Rightarrow> Queue \<Rightarrow> QueueData \<Rightarrow> queue_heap c_result" where
  "link_new h p a junk d = do {
     q \<leftarrow> deref h p;
     let sp = q_sentinel q;
     s \<leftarrow> deref h sp;
     let h = h(a \<mapsto> junk\<lparr>queuedataData := Some d, q_sentinel := sp, q_next := q_next s,
                       queue_mutex := False, StopThreadCond := False\<rparr>);
     h \<leftarrow> (if longCount s = 0 then assign h sp (\<lambda>n. n\<lparr>q_prev := Some a\<rparr>)
          else assign h (q_next s) (\<lambda>n. n\<lparr>q_prev := Some a\<rparr>));
     h \<leftarrow> assign h (Some a) (\<lambda>n. n\<lparr>q_prev := sp\<rparr>);
     h \<leftarrow> assign h sp (\<lambda>n. n\<lparr>q_next := Some a\<rparr>);
     h \<leftarrow> assign h (Some a) (\<lambda>n. n\<lparr>queuetypeT := QUEUENONE\<rparr>);
     assign h sp (\<lambda>n. n\<lparr>longCount := longCount n + 1\<rparr>) }"

text \<open>\<open>m1\<close>, \<open>m2\<close> and \<open>m3\<close> are the outcomes of the three allocations: node, container, data.\<close>

definition pushQueue ::
  "(nat \<times> Queue) option \<Rightarrow> bool \<Rightarrow> bool \<Rightarrow> queue_heap \<Rightarrow> ptr \<Rightarrow> QueueData
   \<Rightarrow> (QueueExeStatus \<times> queue_heap) c_result" where
  "pushQueue m1 m2 m3 h pqueueIn e = do {
     bad \<leftarrow> bad_queue h pqueueIn;
     if bad then Some (QUEUE_NULL_POINTER_AS_IN_PARAMETER, h)
     else if t_size e > 0 \<and> q_data e = None then Some (QUEUE_NULL_POINTER_AS_IN_PARAMETER, h)
     else (case m1 of None \<Rightarrow> Some (QUEUE_MEMORY_ALLOC_ERROR, h)
       | Some (a, junk) \<Rightarrow>
          if \<not> m2 then Some (QUEUE_MEMORY_ALLOC_ERROR, h)
          else if t_size e > 0 \<and> \<not> m3 then Some (QUEUE_MEMORY_ALLOC_ERROR, h)
          else do {
            d \<leftarrow> copy_data e;
            h \<leftarrow> link_new h pqueueIn a junk d;
            Some (QUEUE_SUCCESS, h) }) }"

text \<open>The body of \<open>popQueue\<close> once the count is positive.\<close>

definition unlink_oldest :: "queue_heap \<Rightarrow> ptr \<Rightarrow> (QueueData option \<times> queue_heap) c_result" where
  "unlink_oldest h p = do {
     q \<leftarrow> deref h p;
     let w = q_sentinel q;
     wn \<leftarrow> deref h w;
     s \<leftarrow> deref h (q_sentinel wn);
     if q_prev s \<noteq> q_sentinel wn then do {
       let old = q_prev wn;
       o_n \<leftarrow> deref h old;
       h \<leftarrow> assign h w (\<lambda>n. n\<lparr>q_prev := q_prev o_n\<rparr>);
       h \<leftarrow> assign h (q_prev o_n) (\<lambda>n. n\<lparr>q_next := q_sentinel wn\<rparr>);
       h \<leftarrow> assign h (q_sentinel wn) (\<lambda>n. n\<lparr>longCount := longCount n - 1\<rparr>);
       Some (queuedataData o_n, release h old) }
     else Some (None, h) }"

definition popQueue ::
  "queue_heap \<Rightarrow> ptr \<Rightarrow> (QueueData option \<times> queue_heap) waiting c_result" where
  "popQueue h pqueueIn = do {
     bad \<leftarrow> bad_queue h pqueueIn;
     if bad then Some (Done (None, h)) else do {
       q \<leftarrow> deref h pqueueIn;
       s \<leftarrow> deref h (q_sentinel q);
       if longCount s \<le> 0 then Some Blocked
       else do { r \<leftarrow> unlink_oldest h pqueueIn; Some (Done r) } } }"

definition isemptyQueue :: "queue_heap \<Rightarrow> ptr \<Rightarrow> bool c_result" where
  "isemptyQueue h pqueueIn = (if pqueueIn = None then Some True else do {
     q \<leftarrow> deref h pqueueIn;
     if q_sentinel q = None then Some True
     else do { s \<leftarrow> deref h (q_sentinel q);
       Some (if \<not> queue_mutex s then True else longCount s = 0) } })"

definition isfullQueue :: "queue_heap \<Rightarrow> ptr \<Rightarrow> bool c_result" where
  "isfullQueue h pqueueIn = map_option Not (isemptyQueue h pqueueIn)"

text \<open>The loop of \<open>flushQueue\<close>; it may block or spin, so it is partial.\<close>

partial_function (option) flush_loop :: "queue_heap \<Rightarrow> ptr \<Rightarrow> queue_heap c_result" where
  "flush_loop h p = do {
     full \<leftarrow> isfullQueue h p;
     if full then do {
       r \<leftarrow> popQueue h p;
       (case r of Blocked \<Rightarrow> None | Done x \<Rightarrow> flush_loop (snd x) p) }
     else Some h }"

definition flushQueue :: "queue_heap \<Rightarrow> ptr \<Rightarrow> (QueueExeStatus \<times> queue_heap) c_result" where
  "flushQueue h pqueueIn = (if pqueueIn \<noteq> None
     then do { h \<leftarrow> flush_loop h pqueueIn; q \<leftarrow> deref h pqueueIn; s \<leftarrow> deref h (q_sentinel q);
               Some (QUEUE_SUCCESS, h) }
     else Some (QUEUE_NULL_POINTER_AS_IN_PARAMETER, h))"

definition deleteQueue :: "queue_heap \<Rightarrow> ptr \<Rightarrow> (QueueExeStatus \<times> queue_heap) c_result" where
  "deleteQueue h pqueueIn = do {
     bad \<leftarrow> bad_queue h pqueueIn;
     if bad then Some (QUEUE_NULL_POINTER_AS_IN_PARAMETER, h) else do {
       (err, h) \<leftarrow> flushQueue h pqueueIn;
       if err \<noteq> QUEUE_SUCCESS then Some (err, h) else do {
         q \<leftarrow> deref h pqueueIn;
         h \<leftarrow> assign h (q_sentinel q) (\<lambda>n. n\<lparr>queue_mutex := False, StopThreadCond := False\<rparr>);
         Some (QUEUE_SUCCESS, release h pqueueIn) } } }"

definition getNextitrQueue :: "queue_heap \<Rightarrow> ptr \<Rightarrow> (QueueData option \<times> queue_heap) c_result" where
  "getNextitrQueue h pqueueIn = (if pqueueIn = None then Some (None, h) else do {
     q \<leftarrow> deref h pqueueIn;
     let sp = q_sentinel q;
     s \<leftarrow> deref h sp;
     if longCount s \<noteq> 0 then do {
       i \<leftarrow> deref h (q_iterator s);
       if sp \<noteq> q_next i then do {
         h \<leftarrow> assign h sp (\<lambda>n. n\<lparr>q_iterator := q_next i\<rparr>);
         n \<leftarrow> deref h (q_next i);
         Some (queuedataData n, h) }
       else Some (None, h) }
     else Some (None, h) })"

definition SetIterToFirstQueue :: "queue_heap \<Rightarrow> ptr \<Rightarrow> queue_heap c_result" where
  "SetIterToFirstQueue h p = do {
     q \<leftarrow> deref h p; assign h (q_sentinel q) (\<lambda>n. n\<lparr>q_iterator := q_sentinel q\<rparr>) }"

section \<open>The ring invariant\<close>

definition nx :: "queue_heap \<Rightarrow> ptr \<Rightarrow> ptr" where
  "nx h p = (case deref h p of None \<Rightarrow> None | Some n \<Rightarrow> q_next n)"

definition pv :: "queue_heap \<Rightarrow> ptr \<Rightarrow> ptr" where
  "pv h p = (case deref h p of None \<Rightarrow> None | Some n \<Rightarrow> q_prev n)"

definition sentinel_ok :: "queue_heap \<Rightarrow> nat \<Rightarrow> nat \<Rightarrow> bool" where
  "sentinel_ok h s k \<longleftrightarrow> k < 2 ^ 64 \<and> (case h s of None \<Rightarrow> False
     | Some n \<Rightarrow> q_sentinel n = Some s \<and> queue_mutex n \<and> StopThreadCond n \<and> longCount n = of_nat k)"

definition element_ok :: "queue_heap \<Rightarrow> nat \<Rightarrow> nat \<Rightarrow> QueueData \<Rightarrow> bool" where
  "element_ok h s a d \<longleftrightarrow> (case h a of None \<Rightarrow> False
     | Some n \<Rightarrow> q_sentinel n = Some s \<and> queuedataData n = Some d)"

text \<open>The nodes \<open>as\<close>, newest first, hold the data \<open>ds\<close>.\<close>

definition queue_ok :: "queue_heap \<Rightarrow> nat \<Rightarrow> nat list \<Rightarrow> QueueData list \<Rightarrow> bool" where
  "queue_ok h s as ds \<longleftrightarrow> ring (nx h) (pv h) (Some s) (map Some as)
     \<and> sentinel_ok h s (length as) \<and> list_all2 (element_ok h s) as ds"

lemma nx_upd: "h a = Some n \<Longrightarrow> nx (h(a \<mapsto> n')) = (nx h)(Some a := q_next n')"
  by (rule ext) (auto simp: nx_def deref_def split: option.splits)

lemma pv_upd: "h a = Some n \<Longrightarrow> pv (h(a \<mapsto> n')) = (pv h)(Some a := q_prev n')"
  by (rule ext) (auto simp: pv_def deref_def split: option.splits)

lemma nx_Some [simp]: "h a = Some n \<Longrightarrow> nx h (Some a) = q_next n"
  by (simp add: nx_def)

lemma pv_Some [simp]: "h a = Some n \<Longrightarrow> pv h (Some a) = q_prev n"
  by (simp add: pv_def)

lemma count_zero: "k < 2 ^ 64 \<Longrightarrow> (of_nat k :: 64 word) = 0 \<longleftrightarrow> k = 0"
  by (auto simp: word_of_nat_eq_0_iff dest: dvd_imp_le)

lemma queue_ok_sentinel:
  assumes "queue_ok h s as ds"
  obtains n where "h s = Some n" "q_sentinel n = Some s" "queue_mutex n" "StopThreadCond n"
    "longCount n = of_nat (length as)" "length as < 2 ^ 64"
  using assms by (auto simp: queue_ok_def sentinel_ok_def split: option.splits)

lemma queue_ok_lengths: "queue_ok h s as ds \<Longrightarrow> length ds = length as"
  by (auto simp: queue_ok_def dest: list_all2_lengthD)

lemma queue_ok_distinct: "queue_ok h s as ds \<Longrightarrow> distinct (s # as)"
  by (auto simp: queue_ok_def ring_def distinct_map)

lemma queue_ok_alloc:
  assumes "queue_ok h s as ds" shows "set (s # as) \<subseteq> dom h"
proof -
  have "\<forall>a \<in> set as. h a \<noteq> None"
    using assms by (fastforce simp: queue_ok_def element_ok_def list_all2_conv_all_nth in_set_conv_nth
      split: option.splits)
  then show ?thesis using queue_ok_sentinel[OF assms] by auto
qed

lemma queue_guard: "queue_ok h s as ds \<Longrightarrow> bad_queue h (Some s) = Some False"
  by (erule queue_ok_sentinel) (simp add: bad_queue_def)

lemma queue_empty:
  assumes "queue_ok h s as ds" shows "isemptyQueue h (Some s) = Some (ds = [])"
  using queue_ok_lengths[OF assms] count_zero[of "length as"] queue_ok_sentinel[OF assms]
  by (fastforce simp: isemptyQueue_def)

lemma elements_frame:
  "list_all2 (element_ok h s) as ds \<Longrightarrow>
   \<forall>a \<in> set as. \<forall>n. h a = Some n \<longrightarrow> (\<exists>n'. h' a = Some n' \<and> q_sentinel n' = q_sentinel n
      \<and> queuedataData n' = queuedataData n)
   \<Longrightarrow> list_all2 (element_ok h' s) as ds"
  by (erule list.rel_mono_strong) (fastforce simp: element_ok_def split: option.splits)

lemma init_queue_ok:
  assumes "initQueue h (Some (a, junk)) = (p, h')"
  shows "p = Some a \<and> queue_ok h' a [] []"
  using assms by (auto simp: initQueue_def queue_ok_def ring_Nil sentinel_ok_def)

section \<open>Push and pop keep the ring\<close>

lemma link_new_ok:
  assumes ok: "queue_ok h s as ds" and fresh: "a \<notin> dom h" and bound: "length as + 1 < 2 ^ 64"
  shows "\<exists>h'. link_new h (Some s) a junk d = Some h' \<and> queue_ok h' s (a # as) (d # ds)
    \<and> dom h' = insert a (dom h)"
proof -
  obtain n where n: "h s = Some n" "q_sentinel n = Some s" "queue_mutex n" "StopThreadCond n"
    "longCount n = of_nat (length as)" "length as < 2 ^ 64" using ok by (rule queue_ok_sentinel)
  have neq: "a \<noteq> s" "a \<notin> set as" using fresh queue_ok_alloc[OF ok] n(1) by auto
  have ring: "ring (nx h) (pv h) (Some s) ([] @ map Some as)" using ok by (simp add: queue_ok_def)
  have elems: "list_all2 (element_ok h s) as ds" using ok by (simp add: queue_ok_def)
  let ?new = "junk\<lparr>queuedataData := Some d, q_sentinel := Some s, q_next := q_next n,
     queue_mutex := False, StopThreadCond := False, q_prev := Some s, queuetypeT := QUEUENONE\<rparr>"
  show ?thesis
  proof (cases as)
    case Nil
    have first: "q_next n = Some s" using ring_first[OF ring] n(1) Nil by simp
    let ?h = "h(a \<mapsto> ?new, s \<mapsto> n\<lparr>q_prev := Some a, q_next := Some a, longCount := 1\<rparr>)"
    have "link_new h (Some s) a junk d = Some ?h"
      using n neq Nil by (simp add: link_new_def Let_def fun_upd_twist)
    moreover have "queue_ok ?h s [a] [d]"
      using neq n first by (auto simp: queue_ok_def ring_def sentinel_ok_def element_ok_def nx_def pv_def)
    moreover have "ds = []" using elems Nil by simp
    ultimately show ?thesis using Nil n(1) by (intro exI[of _ ?h]) auto
  next
    case (Cons b bs)
    have first: "q_next n = Some b" using ring_first[OF ring] n(1) Cons by simp
    obtain m where m: "h b = Some m" using queue_ok_alloc[OF ok] Cons by auto
    have bs: "b \<noteq> s" "b \<noteq> a" using queue_ok_distinct[OF ok] Cons neq by auto
    have count: "longCount n \<noteq> 0" using n(5,6) Cons count_zero[of "length as"] by simp
    let ?h = "h(a \<mapsto> ?new, b \<mapsto> m\<lparr>q_prev := Some a\<rparr>,
                s \<mapsto> n\<lparr>q_next := Some a, longCount := longCount n + 1\<rparr>)"
    have "link_new h (Some s) a junk d = Some ?h"
      using n(1,2) neq bs m first count by (simp add: link_new_def Let_def fun_upd_twist)
    moreover have "queue_ok ?h s (a # as) (d # ds)"
    proof -
      have "ring ((nx h)(Some s := Some a, Some a := Some b)) ((pv h)(Some a := Some s, Some b := Some a))
          (Some s) ([] @ Some a # map Some as)"
        using neq Cons by (intro ring_insert[OF ring]) auto
      moreover have "nx ?h = (nx h)(Some s := Some a, Some a := Some b)"
        using neq bs n(1) m first by (intro ext) (auto simp: nx_def deref_def split: option.splits)
      moreover have "pv ?h = (pv h)(Some a := Some s, Some b := Some a)"
        using neq bs n(1) m first by (intro ext) (auto simp: pv_def deref_def split: option.splits)
      ultimately have "ring (nx ?h) (pv ?h) (Some s) (map Some (a # as))" by simp
      moreover have "sentinel_ok ?h s (length (a # as))"
        using n bound by (simp add: sentinel_ok_def add.commute)
      moreover have "list_all2 (element_ok ?h s) (a # as) (d # ds)"
        using elements_frame[OF elems, of ?h] m n(1) neq bs
        by (auto simp: element_ok_def queue_ok_distinct[OF ok])
      ultimately show ?thesis by (simp add: queue_ok_def)
    qed
    ultimately show ?thesis using n(1) m by (intro exI[of _ ?h]) auto
  qed
qed

lemma unlink_oldest_ok:
  assumes ok: "queue_ok h s (as @ [a]) (ds @ [d])"
  shows "\<exists>h'. unlink_oldest h (Some s) = Some (Some d, h') \<and> queue_ok h' s as ds
    \<and> dom h' = dom h - {a}"
proof -
  obtain n where n: "h s = Some n" "q_sentinel n = Some s" "queue_mutex n" "StopThreadCond n"
    "longCount n = of_nat (length (as @ [a]))" "length (as @ [a]) < 2 ^ 64"
    using ok by (rule queue_ok_sentinel)
  have ring: "ring (nx h) (pv h) (Some s) (map Some as @ Some a # [])"
    and elems: "list_all2 (element_ok h s) as ds" and last: "element_ok h s a d"
    using ok queue_ok_lengths[OF ok] by (simp_all add: queue_ok_def list_all2_append)
  obtain m where m: "h a = Some m" "queuedataData m = Some d"
    using last by (auto simp: element_ok_def split: option.splits)
  have dist: "distinct (s # as @ [a])" using queue_ok_distinct[OF ok] .
  have prev: "q_prev n = Some a" using ring_last[OF ring] n(1) by simp
  have mprev: "q_prev m = last (Some s # map Some as)" using ring_split[OF ring] m(1) by simp
  define l where "l = last (s # as)"
  have l: "q_prev m = Some l" "last (Some s # map Some as) = Some l"
    using mprev by (auto simp: l_def last_map)
  have lin: "l \<in> set (s # as)" unfolding l_def by (rule last_in_set) simp
  have la: "l \<noteq> a" using lin dist by auto
  define h1 where "h1 = h(s \<mapsto> n\<lparr>q_prev := Some l\<rparr>)"
  obtain k where k: "h1 l = Some k"
    using queue_ok_alloc[OF ok] lin by (cases "l = s") (auto simp: h1_def)
  define h2 where "h2 = h1(l \<mapsto> k\<lparr>q_next := Some s\<rparr>)"
  obtain n2 where n2: "h2 s = Some n2" "q_sentinel n2 = Some s" "queue_mutex n2" "StopThreadCond n2"
    "longCount n2 = longCount n"
    using n(1-4) k by (cases "l = s") (auto simp: h2_def h1_def)
  define h3 where "h3 = h2(s \<mapsto> n2\<lparr>longCount := longCount n2 - 1\<rparr>)"
  have run: "unlink_oldest h (Some s) = Some (Some d, h3(a := None))"
    using n(1,2) m l prev dist k n2(1) by (auto simp: unlink_oldest_def Let_def h1_def h2_def h3_def)
  have nx3: "nx h3 = (nx h)(Some l := Some s)" and pv3: "pv h3 = (pv h)(Some s := Some l)"
    using n(1) k n2(1) unfolding h3_def h2_def h1_def
    by (auto intro!: ext simp: nx_def pv_def deref_def split: option.splits if_splits)
  have "ring ((nx h)(Some l := Some s)) ((pv h)(Some s := Some l)) (Some s) (map Some as @ [])"
    using l(2) by (intro ring_remove[OF ring]) auto
  then have "ring (nx h3) (pv h3) (Some s) (map Some as)" by (simp add: nx3 pv3)
  then have "ring (nx (h3(a := None))) (pv (h3(a := None))) (Some s) (map Some as)"
    using dist by (subst ring_cong[of _ _ _ "nx h3" _ "pv h3"]) (auto simp: nx_def pv_def deref_def)
  moreover have "sentinel_ok (h3(a := None)) s (length as)"
    using n(5,6) n2 dist by (auto simp: sentinel_ok_def h3_def)
  moreover have "list_all2 (element_ok (h3(a := None)) s) as ds"
    using dist k n(1) by (intro elements_frame[OF elems]) (auto simp: h3_def h2_def h1_def)
  moreover have "dom (h3(a := None)) = dom h - {a}"
    using n(1) k n2(1) by (auto simp: h3_def h2_def h1_def split: if_splits)
  ultimately show ?thesis using run by (auto simp: queue_ok_def)
qed

section \<open>The operations on a well-formed queue\<close>

text \<open>Addresses are 64 bit wide and not null, so the element counter cannot wrap.\<close>

definition addresses_ok :: "queue_heap \<Rightarrow> bool" where
  "addresses_ok h \<longleftrightarrow> dom h \<subseteq> {0<..<2 ^ 64}"

definition fresh :: "queue_heap \<Rightarrow> nat \<Rightarrow> bool" where
  "fresh h a \<longleftrightarrow> h a = None \<and> 0 < a \<and> a < 2 ^ 64"

lemma count_bound:
  assumes "queue_ok h s as ds" "addresses_ok h" "fresh h a"
  shows "length as + 1 < 2 ^ 64"
proof -
  have "set (a # s # as) \<subseteq> {0<..<2 ^ 64}"
    using queue_ok_alloc[OF assms(1)] assms(2,3) by (auto simp: addresses_ok_def fresh_def)
  moreover have "a \<notin> set (s # as)"
    using queue_ok_alloc[OF assms(1)] assms(3) by (auto simp: fresh_def)
  ultimately have "card (set (a # s # as)) \<le> card {0<..<2 ^ 64 :: nat}" "distinct (a # s # as)"
    using queue_ok_distinct[OF assms(1)] card_mono[of "{0<..<2 ^ 64 :: nat}" "set (a # s # as)"]
    by simp_all
  then have "length (a # s # as) \<le> 2 ^ 64 - 1"
    unfolding distinct_card[OF \<open>distinct (a # s # as)\<close>] by simp
  then show ?thesis by simp
qed

lemma push_ok:
  assumes "queue_ok h s as ds" "addresses_ok h" "fresh h a" "copy_data e = Some d"
  shows "\<exists>h'. pushQueue (Some (a, junk)) True True h (Some s) e = Some (QUEUE_SUCCESS, h')
    \<and> queue_ok h' s (a # as) (d # ds) \<and> addresses_ok h'"
proof -
  have "a \<notin> dom h" using assms(3) by (auto simp: fresh_def)
  from link_new_ok[OF assms(1) this count_bound[OF assms(1-3)]] obtain h' where
    "link_new h (Some s) a junk d = Some h'" "queue_ok h' s (a # as) (d # ds)" "dom h' = insert a (dom h)"
    by blast
  moreover have "\<not> (0 < t_size e \<and> q_data e = None)"
    using assms(4) by (auto simp: copy_data_def split: if_splits option.splits)
  ultimately show ?thesis using assms(2-4) queue_guard[OF assms(1)]
    by (auto simp: pushQueue_def addresses_ok_def fresh_def)
qed

lemma push_failed:
  assumes "queue_ok h s as ds" "pushQueue m1 m2 m3 h (Some s) e = Some (st, h')" "st \<noteq> QUEUE_SUCCESS"
  shows "h' = h"
  using assms(2,3) queue_guard[OF assms(1)]
  by (auto simp: pushQueue_def bind_eq_Some_conv split: if_splits option.splits)

lemma pop_ok:
  assumes "queue_ok h s as ds"
  shows "ds = [] \<Longrightarrow> popQueue h (Some s) = Some Blocked"
    and "ds \<noteq> [] \<Longrightarrow> \<exists>h' as'. popQueue h (Some s) = Some (Done (Some (last ds), h'))
      \<and> queue_ok h' s as' (butlast ds) \<and> dom h' \<subseteq> dom h"
proof -
  obtain n where n: "h s = Some n" "q_sentinel n = Some s" "longCount n = of_nat (length as)"
    "length as < 2 ^ 64" using assms by (rule queue_ok_sentinel)
  have len: "length ds = length as" using queue_ok_lengths[OF assms] .
  show "popQueue h (Some s) = Some Blocked" if "ds = []"
    using that len n queue_guard[OF assms] by (simp add: popQueue_def)
  show "\<exists>h' as'. popQueue h (Some s) = Some (Done (Some (last ds), h'))
      \<and> queue_ok h' s as' (butlast ds) \<and> dom h' \<subseteq> dom h" if "ds \<noteq> []"
  proof -
    have ne: "as \<noteq> []" using that len by auto
    then have pos: "longCount n \<noteq> 0" using n(3,4) count_zero[of "length as"] by simp
    have "queue_ok h s (butlast as @ [last as]) (butlast ds @ [last ds])" using assms ne that by simp
    from unlink_oldest_ok[OF this] obtain h' where
      "unlink_oldest h (Some s) = Some (Some (last ds), h')" "queue_ok h' s (butlast as) (butlast ds)"
      "dom h' = dom h - {last as}" by blast
    then show ?thesis using queue_guard[OF assms] n(1,2) pos by (auto simp: popQueue_def)
  qed
qed

lemma flush_loop_ok:
  "queue_ok h s as ds \<Longrightarrow> \<exists>h'. flush_loop h (Some s) = Some h' \<and> queue_ok h' s [] []"
proof (induction ds arbitrary: h as rule: rev_induct)
  case Nil
  then show ?case using queue_empty[OF Nil.prems] queue_ok_lengths[OF Nil.prems]
    by (subst flush_loop.simps) (simp add: isfullQueue_def)
next
  case (snoc d ds)
  from pop_ok(2)[OF snoc.prems] obtain h' as' where
    "popQueue h (Some s) = Some (Done (Some d, h'))" "queue_ok h' s as' ds" by auto
  with snoc.IH[OF this(2)] queue_empty[OF snoc.prems] show ?case
    by (subst flush_loop.simps) (simp add: isfullQueue_def)
qed

section \<open>The queue as a first-in first-out list\<close>

text \<open>The traces of a queue: what went in, what came out, in their orders.\<close>

inductive queue_trace :: "('q \<Rightarrow> 'a \<Rightarrow> 'q \<Rightarrow> bool) \<Rightarrow> ('q \<Rightarrow> 'a \<Rightarrow> 'q \<Rightarrow> bool)
    \<Rightarrow> 'q \<Rightarrow> 'a list \<Rightarrow> 'a list \<Rightarrow> 'q \<Rightarrow> bool"
  for put get q where
  start: "queue_trace put get q [] [] q"
| put: "queue_trace put get q ins outs q1 \<Longrightarrow> put q1 x q2 \<Longrightarrow> queue_trace put get q (ins @ [x]) outs q2"
| get: "queue_trace put get q ins outs q1 \<Longrightarrow> get q1 x q2 \<Longrightarrow> queue_trace put get q ins (outs @ [x]) q2"

locale fifo =
  fixes holds :: "'q \<Rightarrow> 'a list \<Rightarrow> bool"
    and put :: "'q \<Rightarrow> 'a \<Rightarrow> 'q \<Rightarrow> bool"
    and get :: "'q \<Rightarrow> 'a \<Rightarrow> 'q \<Rightarrow> bool"
  assumes put_holds: "holds q xs \<Longrightarrow> put q x q' \<Longrightarrow> holds q' (xs @ [x])"
    and get_holds: "holds q xs \<Longrightarrow> get q x q' \<Longrightarrow> \<exists>ys. xs = x # ys \<and> holds q' ys"
    and get_ready: "holds q (x # xs) \<Longrightarrow> \<exists>q'. get q x q'"
begin

lemma in_order:
  "queue_trace put get q ins outs q' \<Longrightarrow> holds q xs \<Longrightarrow> \<exists>ys. holds q' ys \<and> xs @ ins = outs @ ys"
proof (induction rule: queue_trace.induct)
  case (put ins outs q1 x q2)
  then show ?case using put_holds by fastforce
next
  case (get ins outs q1 x q2)
  then obtain ys where ys: "holds q1 ys" "xs @ ins = outs @ ys" by blast
  from get_holds[OF this(1) get.hyps(2)] ys(2) show ?case by auto
qed auto

lemma drains:
  assumes "holds q xs" shows "\<exists>q'. queue_trace put get q [] xs q' \<and> holds q' []"
proof -
  have "\<exists>q'. queue_trace put get q [] (take k xs) q' \<and> holds q' (drop k xs)" if "k \<le> length xs" for k
    using that
  proof (induction k)
    case 0
    then show ?case using assms queue_trace.start[of put get q] by (intro exI[of _ q]) simp
  next
    case (Suc k)
    then obtain q1 where q1: "queue_trace put get q [] (take k xs) q1" "holds q1 (drop k xs)" by auto
    have d: "drop k xs = xs ! k # drop (Suc k) xs" using Suc.prems by (simp add: Cons_nth_drop_Suc)
    have h1: "holds q1 (xs ! k # drop (Suc k) xs)" using q1(2) d by simp
    obtain q2 where q2: "get q1 (xs ! k) q2" using get_ready[OF h1] by blast
    have "holds q2 (drop (Suc k) xs)" using get_holds[OF h1 q2] by blast
    moreover have "queue_trace put get q [] (take (Suc k) xs) q2"
      using queue_trace.get[OF q1(1) q2] Suc.prems by (simp add: take_Suc_conv_app_nth)
    ultimately show ?case by blast
  qed
  from this[of "length xs"] show ?thesis by simp
qed

end

definition queue_holds :: "nat \<Rightarrow> queue_heap \<Rightarrow> QueueData list \<Rightarrow> bool" where
  "queue_holds s h xs \<longleftrightarrow> addresses_ok h \<and> (\<exists>as. queue_ok h s as (rev xs))"

text \<open>A successful \<open>pushQueue\<close> that stores the copy \<open>d\<close>, and a \<open>popQueue\<close> that returns \<open>d\<close>.\<close>

definition pushes :: "nat \<Rightarrow> queue_heap \<Rightarrow> QueueData \<Rightarrow> queue_heap \<Rightarrow> bool" where
  "pushes s h d h' \<longleftrightarrow> (\<exists>a junk e. fresh h a \<and> copy_data e = Some d
     \<and> pushQueue (Some (a, junk)) True True h (Some s) e = Some (QUEUE_SUCCESS, h'))"

definition pops :: "nat \<Rightarrow> queue_heap \<Rightarrow> QueueData \<Rightarrow> queue_heap \<Rightarrow> bool" where
  "pops s h d h' \<longleftrightarrow> popQueue h (Some s) = Some (Done (Some d, h'))"

lemma push_holds:
  assumes "queue_holds s h xs" "pushes s h d h'" shows "queue_holds s h' (xs @ [d])"
proof -
  obtain as where ok: "queue_ok h s as (rev xs)" "addresses_ok h"
    using assms(1) by (auto simp: queue_holds_def)
  obtain a junk e where p: "fresh h a" "copy_data e = Some d"
    "pushQueue (Some (a, junk)) True True h (Some s) e = Some (QUEUE_SUCCESS, h')"
    using assms(2) by (auto simp: pushes_def)
  from push_ok[OF ok p(1,2), of junk] p(3) have "queue_ok h' s (a # as) (d # rev xs)" "addresses_ok h'"
    by simp_all
  then show ?thesis by (auto simp: queue_holds_def)
qed

lemma pop_holds:
  assumes "queue_holds s h xs" "pops s h d h'"
  shows "\<exists>ys. xs = d # ys \<and> queue_holds s h' ys"
proof -
  obtain as where ok: "queue_ok h s as (rev xs)" "addresses_ok h"
    using assms(1) by (auto simp: queue_holds_def)
  have ne: "rev xs \<noteq> []" using pop_ok(1)[OF ok(1)] assms(2) by (auto simp: pops_def)
  from pop_ok(2)[OF ok(1) ne] obtain h1 as' where
    "popQueue h (Some s) = Some (Done (Some (last (rev xs)), h1))" "queue_ok h1 s as' (butlast (rev xs))"
    "dom h1 \<subseteq> dom h" by blast
  with assms(2) have "d = hd xs" "queue_ok h' s as' (rev (tl xs))" "dom h' \<subseteq> dom h"
    using ne by (auto simp: pops_def last_rev butlast_rev)
  then show ?thesis using ne ok(2)
    by (intro exI[of _ "tl xs"]) (auto simp: queue_holds_def addresses_ok_def)
qed

lemma pop_ready: "queue_holds s h (d # xs) \<Longrightarrow> \<exists>h'. pops s h d h'"
  using pop_ok(2)[of h s _ "rev (d # xs)"] by (fastforce simp: queue_holds_def pops_def)

interpretation message_queue: fifo "queue_holds s" "pushes s" "pops s" for s
  by unfold_locales (use push_holds pop_holds pop_ready in blast)+

section \<open>Iteration\<close>

text \<open>\<open>k\<close> calls of \<open>getNextitrQueue\<close>, the results in their order.\<close>

fun iterate_queue :: "nat \<Rightarrow> queue_heap \<Rightarrow> ptr \<Rightarrow> (QueueData option list \<times> queue_heap) c_result" where
  "iterate_queue 0 h p = Some ([], h)"
| "iterate_queue (Suc k) h p = do {
     (d, h) \<leftarrow> getNextitrQueue h p;
     (ds, h) \<leftarrow> iterate_queue k h p;
     Some (d # ds, h) }"

definition iterator_at :: "queue_heap \<Rightarrow> nat \<Rightarrow> nat list \<Rightarrow> nat \<Rightarrow> bool" where
  "iterator_at h s as i \<longleftrightarrow> (\<exists>n. h s = Some n \<and> q_iterator n = Some ((s # as) ! i))"

lemma queue_ok_iterator:
  assumes "queue_ok h s as ds" "h s = Some n"
  shows "queue_ok (h(s \<mapsto> n\<lparr>q_iterator := i\<rparr>)) s as ds"
proof -
  have "nx (h(s \<mapsto> n\<lparr>q_iterator := i\<rparr>)) = nx h" "pv (h(s \<mapsto> n\<lparr>q_iterator := i\<rparr>)) = pv h"
    using assms(2) by (auto intro!: ext simp: nx_def pv_def deref_def split: option.splits)
  moreover have "list_all2 (element_ok (h(s \<mapsto> n\<lparr>q_iterator := i\<rparr>)) s) as ds"
    by (rule elements_frame[of h s as ds]) (use assms in \<open>auto simp: queue_ok_def\<close>)
  ultimately show ?thesis using assms by (simp add: queue_ok_def sentinel_ok_def)
qed

lemma iterator_next:
  assumes "queue_ok h s as ds" "iterator_at h s as i"
  shows "i < length ds \<Longrightarrow> \<exists>h'. getNextitrQueue h (Some s) = Some (Some (ds ! i), h')
      \<and> queue_ok h' s as ds \<and> iterator_at h' s as (Suc i)"
    and "i = length ds \<Longrightarrow> getNextitrQueue h (Some s) = Some (None, h)"
proof -
  obtain n where n: "h s = Some n" "q_sentinel n = Some s" "longCount n = of_nat (length as)"
    "length as < 2 ^ 64" using assms(1) by (rule queue_ok_sentinel)
  have it: "q_iterator n = Some ((s # as) ! i)" using assms(2) n(1) by (simp add: iterator_at_def)
  have len: "length ds = length as" using queue_ok_lengths[OF assms(1)] .
  have ring: "ring (nx h) (pv h) (Some s) (map Some as)" using assms(1) by (simp add: queue_ok_def)
  have step: "nx h (Some ((s # as) ! i)) = (map Some as @ [Some s]) ! i" if "i \<le> length as"
  proof (cases i)
    case 0
    then show ?thesis using ring_first[OF ring] by (cases as) auto
  next
    case (Suc j)
    then show ?thesis using dseg_nth[of "nx h" "pv h" "Some s" "map Some as" "Some s" j] ring that
      by (auto simp: ring_def nth_append)
  qed
  have mem: "(s # as) ! i \<in> set (s # as)" if "i \<le> length as" using that by (intro nth_mem) simp
  show "\<exists>h'. getNextitrQueue h (Some s) = Some (Some (ds ! i), h')
      \<and> queue_ok h' s as ds \<and> iterator_at h' s as (Suc i)" if i: "i < length ds"
  proof -
    have i': "i < length as" using i len by simp
    obtain m where m: "h ((s # as) ! i) = Some m" using queue_ok_alloc[OF assms(1)] mem i' by fastforce
    have nxt: "q_next m = Some (as ! i)" using step m i' by (simp add: nth_append)
    have "element_ok h s (as ! i) (ds ! i)" using assms(1) i' by (auto simp: queue_ok_def list_all2_conv_all_nth)
    then obtain k where k: "h (as ! i) = Some k" "queuedataData k = Some (ds ! i)"
      by (auto simp: element_ok_def split: option.splits)
    have ne: "as ! i \<noteq> s" using queue_ok_distinct[OF assms(1)] i' by auto
    have "longCount n \<noteq> 0" using n(3,4) i' count_zero[of "length as"] by auto
    then show ?thesis
      using n(1,2) it m nxt k ne queue_ok_iterator[OF assms(1) n(1), of "Some (as ! i)"]
      by (simp add: getNextitrQueue_def Let_def iterator_at_def)
  qed
  show "getNextitrQueue h (Some s) = Some (None, h)" if i: "i = length ds"
  proof -
    obtain m where m: "h ((s # as) ! i) = Some m" using queue_ok_alloc[OF assms(1)] mem i len by fastforce
    have "q_next m = Some s" using step m i len by (simp add: nth_append)
    then show ?thesis using n(1,2) it m by (simp add: getNextitrQueue_def Let_def)
  qed
qed

lemma iterate_from:
  "queue_ok h s as ds \<Longrightarrow> iterator_at h s as i \<Longrightarrow> i + k \<le> length ds \<Longrightarrow>
   \<exists>h'. iterate_queue k h (Some s) = Some (map Some (take k (drop i ds)), h') \<and> queue_ok h' s as ds
      \<and> iterator_at h' s as (i + k)"
proof (induction k arbitrary: h i)
  case (Suc k)
  then obtain h1 where h1: "getNextitrQueue h (Some s) = Some (Some (ds ! i), h1)"
    "queue_ok h1 s as ds" "iterator_at h1 s as (Suc i)" using iterator_next(1)[OF Suc.prems(1,2)] by auto
  from Suc.IH[OF this(2,3)] Suc.prems(3) h1(1) show ?case
    by (auto simp: Cons_nth_drop_Suc[symmetric])
qed auto

lemma init_holds:
  assumes "addresses_ok h" "fresh h s"
  shows "queue_holds s (snd (initQueue h (Some (s, junk)))) []"
  using assms init_queue_ok[of h s junk]
  by (auto simp: initQueue_def queue_holds_def addresses_ok_def fresh_def dest: subsetD)

lemma nothing_allocated [simp]: "addresses_ok (\<lambda>_. None)" "fresh (\<lambda>_. None) (Suc 0)"
  by (simp_all add: addresses_ok_def fresh_def)

section \<open>Properties\<close>

text \<open>C1: Whatever the interleaving of the threads' pushes and pops on a queue made by
  \<open>initQueue\<close>, the elements come out in the order in which they went in, none is lost or
  duplicated: what went in is what came out followed by what the queue still holds.\<close>

theorem queue_in_order:
  assumes "initQueue h (Some (s, junk)) = (p, h0)" "addresses_ok h" "fresh h s"
    and "queue_trace (pushes s) (pops s) h0 ins outs h'"
  shows "p = Some s \<and> (\<exists>ys. queue_holds s h' ys \<and> ins = outs @ ys)"
proof -
  have "p = Some s" "h0 = snd (initQueue h (Some (s, junk)))"
    using init_queue_ok[OF assms(1)] assms(1) by simp_all
  with message_queue.in_order[OF assms(4), of "[]"] init_holds[OF assms(2,3), of junk] show ?thesis by simp
qed

definition blank_node :: Queue where
  "blank_node = \<lparr>q_next = None, q_prev = None, q_sentinel = None, q_iterator = None,
     queuetypeT = QUEUENONE, queuedataData = None, longCount = 0, queue_mutex = False,
     StopThreadCond = False\<rparr>"

lemma queue_in_order_witness:
  "\<exists>h'. queue_trace (pushes 1) (pops 1) (snd (initQueue (\<lambda>_. None) (Some (1, blank_node))))
     [\<lparr>t_size = 2, q_data = Some ''hi''\<rparr>] [\<lparr>t_size = 2, q_data = Some ''hi''\<rparr>] h'
   \<and> (\<exists>ys. queue_holds 1 h' ys
      \<and> [\<lparr>t_size = 2, q_data = Some ''hi''\<rparr>] = [\<lparr>t_size = 2, q_data = Some ''hi''\<rparr>] @ ys)"
proof -
  let ?d = "\<lparr>t_size = 2, q_data = Some ''hi''\<rparr>"
  let ?h0 = "snd (initQueue (\<lambda>_. None) (Some (1, blank_node)))"
  have init: "initQueue (\<lambda>_. None) (Some (1, blank_node)) = (Some 1, ?h0)" by (simp add: initQueue_def)
  have holds: "queue_holds 1 ?h0 []" by (rule init_holds) simp_all
  have ok: "queue_ok ?h0 1 [] []" "addresses_ok ?h0" "fresh ?h0 2"
    using init_queue_ok[OF init] holds by (simp_all add: initQueue_def queue_holds_def fresh_def)
  have copy: "copy_data ?d = Some ?d" by (simp add: copy_data_def)
  from push_ok[OF ok copy, of blank_node] obtain h1 where h1: "pushes 1 ?h0 ?d h1"
    using ok(3) copy unfolding pushes_def by blast
  then have "queue_holds 1 h1 [?d]" using push_holds[OF holds] by simp
  then obtain h2 where h2: "pops 1 h1 ?d h2" using pop_ready by blast
  with h1 have "queue_trace (pushes 1) (pops 1) ?h0 [?d] [?d] h2"
    using queue_trace.get[OF queue_trace.put[OF queue_trace.start], of "pushes 1" ?h0 ?d h1 "pops 1" ?d h2]
    by simp
  from this queue_in_order[OF init _ _ this] show ?thesis by auto
qed

text \<open>On a well-formed queue \<open>flushQueue\<close> returns, reports success, and leaves a well-formed
  empty queue; \<open>deleteQueue\<close> then succeeds too and releases the sentinel.\<close>

lemma flush_and_delete:
  assumes "queue_holds s h xs"
  shows "(\<exists>h'. flushQueue h (Some s) = Some (QUEUE_SUCCESS, h') \<and> isemptyQueue h' (Some s) = Some True)
    \<and> (\<exists>h'. deleteQueue h (Some s) = Some (QUEUE_SUCCESS, h') \<and> h' s = None)"
proof (rule all2; (intro impI)?)
  obtain as where ok: "queue_ok h s as (rev xs)" using assms by (auto simp: queue_holds_def)
  from flush_loop_ok[OF ok] obtain h' where h': "flush_loop h (Some s) = Some h'" "queue_ok h' s [] []" by blast
  obtain n where n: "h' s = Some n" "q_sentinel n = Some s" using h'(2) by (rule queue_ok_sentinel)
  have flush: "flushQueue h (Some s) = Some (QUEUE_SUCCESS, h')" using h'(1) n by (simp add: flushQueue_def)
  then show "\<exists>h'. flushQueue h (Some s) = Some (QUEUE_SUCCESS, h') \<and> isemptyQueue h' (Some s) = Some True"
    using queue_empty[OF h'(2)] by simp
  show "\<exists>h'. deleteQueue h (Some s) = Some (QUEUE_SUCCESS, h') \<and> h' s = None"
    using flush n queue_guard[OF ok] by (simp add: deleteQueue_def)
qed

text \<open>After \<open>SetIterToFirstQueue\<close>, calls of \<open>getNextitrQueue\<close> return the elements from the
  newest to the oldest, each once, then the null pointer, and do not change the contents.\<close>

lemma iteration_newest_first:
  assumes "queue_holds s h xs"
  shows "\<exists>h1 h2. SetIterToFirstQueue h (Some s) = Some h1
    \<and> iterate_queue (length xs) h1 (Some s) = Some (map Some (rev xs), h2)
    \<and> getNextitrQueue h2 (Some s) = Some (None, h2) \<and> (\<exists>as. queue_ok h2 s as (rev xs))"
proof -
  obtain as where ok: "queue_ok h s as (rev xs)" using assms by (auto simp: queue_holds_def)
  obtain n where n: "h s = Some n" "q_sentinel n = Some s" using ok by (rule queue_ok_sentinel)
  let ?h1 = "h(s \<mapsto> n\<lparr>q_iterator := Some s\<rparr>)"
  have "SetIterToFirstQueue h (Some s) = Some ?h1" using n by (simp add: SetIterToFirstQueue_def)
  moreover have ok1: "queue_ok ?h1 s as (rev xs)" using queue_ok_iterator[OF ok n(1)] .
  moreover have "iterator_at ?h1 s as 0" by (simp add: iterator_at_def)
  from iterate_from[OF ok1 this, of "length xs"] obtain h2 where
    "iterate_queue (length xs) ?h1 (Some s) = Some (map Some (rev xs), h2)"
    "queue_ok h2 s as (rev xs)" "iterator_at h2 s as (length (rev xs))" by auto
  moreover from this iterator_next(2) have "getNextitrQueue h2 (Some s) = Some (None, h2)" by blast
  ultimately show ?thesis by blast
qed

end
