(* ===== verification/Testsuit.thy ===== *)
theory Testsuit
  imports Parser Config Queue CallbackList
begin

text \<open>
  The expectations of the program's own tests (\<open>testsuit\<close>): the definitions give on their inputs the values that the tests
  ask the compiled functions for.  One lemma stands for the tests of one function.
\<close>

section \<open>utilities_test.c\<close>

lemma testTrim:
  "map trim [[], ''hallo'', '' hallo'', ''     hallo'', ''hallo'' @ [NL, CR], [NL, CR, NL], [SP, TAB, SP, NL, CR, SP, SP],
     trim ''  hallo  '', '' hallo mein Freund, wie  geht es dir?'' @ [NL, CR]]
   = [[], ''hallo'', ''hallo'', ''hallo'', ''hallo'', [], [], ''hallo'', ''hallo mein Freund, wie geht es dir?'']"
  by code_simp

lemma testStrToLower:
  "map StrToLower [[], ''HALLO'', ''hallo'', ''HALLO_abc-XYZ123'', ''A!B?C#1_2-3'',
     [CHR 0xC3, CHR 0x84, CHR 0xC3, CHR 0x96] @ ''_ABC-xyz123'']
   = [[], ''hallo'', ''hallo'', ''hallo_abc-xyz123'', ''a!b?c#1_2-3'', [CHR 0xC3, CHR 0x84, CHR 0xC3, CHR 0x96] @ ''_abc-xyz123'']"
  by code_simp

lemma testclearspace:
  "map clearspace [''Teststring'', ''      '', SP # DQ # ''  '' @ DQ # ''   '', '' Teststring '', ''Hallo Teststring'',
     ''  Hallo  Teststring  '', DQ # ''Hallo Teststring'' @ [DQ], DQ # ''Hallo Teststring '' @ DQ # '' more Teststring  and more'',
     DQ # ''hello world'']
   = [''Teststring'', [], ''  '', ''Teststring'', ''HalloTeststring'', ''HalloTeststring'', ''Hallo Teststring'',
     ''Hallo Teststring moreTeststringandmore'', ''hello world'']"
  by code_simp

lemma testStringCheck:
  "NickStringCheck (Some ''test_nick'')" "\<not> NickStringCheck (Some ''test_nick!'')"
  "ChannelStringCheck (Some ''#test_channel'')" "\<not> ChannelStringCheck (Some ''!test_channel'')"
  by code_simp+

definition test_channel :: ChannelData_t where
  "test_channel = \<lparr>sModes = \<lparr>pModeStr = ''+k tn       '', pKeyword = Some ''test'', pLimit = None\<rparr>,
     pTopic = Some ''Test Topic'', pGreeting = Some ''Welcome to the channel!''\<rparr>"

lemma testChannelData:
  "ChannelDataToStr test_channel = ''+ktn test'' @ TAB # ''Test Topic'' @ TAB # ''Welcome to the channel!''"
  "StrToChannelData (''+ntk test'' @ TAB # ''Test Topic'' @ TAB # ''Welcome to the channel!'') = Some test_channel"
  "StrToChannelData (ChannelDataToStr test_channel) = Some test_channel"
  by code_simp+

section \<open>extract_test.c\<close>

lemma test_netmask:
  "getNetmask (Some '':nick!user@host PRIVMSG #chan :hello'') = Some ''nick!user@host''"
  "getNetmask (Some ''PING :irc.example.org'') = None"
  "getNickname (Some '':nick!user@host PRIVMSG #chan :hello'') = Some ''nick''"
  "getBanmask (Some '':nick!user@sub.host.tld PRIVMSG #chan :hello'') = Some (Some ''*!user@*.host.tld'')"
  by code_simp+

lemma test_parts:
  "getCommand (Some '':server 332 #chan :Topic text'') = Some '':server 332 #chan ''"
  "getArgument (Some '':nick!user@host PRIVMSG :!say hallo welt'') = Some ''hallo welt''"
  "getArgument (Some '':nick!user@host PRIVMSG :!help'') = None"
  "getChannel (Some '':nick!user@host PRIVMSG #chan :!help'') = Some ''#chan''"
  "getChannel (Some '':server NOTICE nick :message'') = None"
  by code_simp+

lemma test_getAccessChannel:
  "map (\<lambda>l. getAccessChannel (Some l)) ['':nick!user@host PRIVMSG :!say #chan hello'', '':nick!user@host PRIVMSG :!say !chan hello'',
     '':nick!user@host PRIVMSG :#mychan hello''] = [Some ''#chan'', None, Some ''#mychan'']"
  by code_simp

lemma test_getTopic_getGreeting_getChannelMode:
  "let s = Some (''+nt key'' @ TAB # ''Topic text'' @ TAB # ''Greeting text'')
   in getChannelMode s = ''+nt key'' \<and> getTopic s = Some ''Topic text'' \<and> getGreeting s = Some ''Greeting text''"
  by code_simp

lemma test_getParameters:
  "map getParameters [Some '':nick!user@host PRIVMSG :!help foo bar'', Some '':nick!user@host PRIVMSG :!say #chan foo bar'',
     Some '':nick!user@host PRIVMSG :!say #chan'', None] = [Some ''foo bar'', Some ''foo bar'', None, None]"
  by code_simp

lemma test_getFirstPart:
  "getFirstPart (Some ''one two three'') = Some ''one''" "getRest (Some ''one two three'') None = Some ''two three''"
  "getFirstPart (Some ''singleword'') = Some ''singleword''" "getRest (Some ''singleword'') None = None"
  by code_simp+

lemma test_getAnswerMode:
  "getAnswerMode '':nick!user@host PRIVMSG #chan :!help'' = NoticeMode"
  "getAnswerMode '':nick!user@host PRIVMSG :!help'' = PrvMsgMode"
  by code_simp+

section \<open>parser_pipeline_test.c\<close>

lemma test_preParser:
  "map (\<lambda>l. map_option (\<lambda>(m, b). (identify m, pMsgLine m, sent b)) (preParser exact_env l empty_bot))
     [''PING :irc.example.org'', '':nick!user@host PRIVMSG #chan :!help'',
      '':nick!user@host PRIVMSG ebotula :'' @ [SOH] @ ''VERSION'' @ [SOH], '':server NOTICE user :plain notice without bot command'']
   = [Some (CMD_NONE, None, [''PONG :irc.example.org'' @ CRLF]),
      Some (CMD_HELP, Some '':nick!user@host PRIVMSG #chan :!help'', []),
      Some (CMD_CTCPVERSION, Some ('':nick!user@host PRIVMSG ebotula :'' @ [SOH] @ ''VERSION'' @ [SOH]), []),
      Some (CMD_NONE, None, [])]"
  by code_simp

section \<open>configparser_test.c\<close>

lemma test_checkers:
  "key_int_checker ''1'' 1 10 = Some 0" "key_int_checker ''0'' 1 10 = Some EDOM"
  "key_server_checker ''bad host'' 0 0 = Some EINVAL"
  "key_nick_checker ''MyBot_1'' 0 0 = Some 0" "key_nick_checker ''My Bot'' 0 0 = Some EINVAL"
  by code_simp+

lemma test_ConfigFileParser_valid_config:
  "map_option (map_sum id (\<lambda>(t, s). (cfg_pBotname s, cfg_sHostname s, sPort s, thread_limit s, pDatabasePath s, nLogLevel s)))
     (ConfigFileParser (Some (''# comment line'' @ NL # ''botname = UnitBot'' @ NL # ''hostname=irc.example.org'' @ NL # ''port=6667'' @ NL #
        ''threadlimit=4'' @ NL # ''databasepath=/tmp/ebotula-db'' @ NL # ''loglevel=4'' @ [NL])) vsInputConfig zero_setup)
   = Some (Inr (''UnitBot'', ''irc.example.org'', ''6667'', 4, ''/tmp/ebotula-db'', 4))"
  by code_simp

lemma test_ConfigFileParser_duplicate_key_uses_first_value:
  "map_option (map_sum id (\<lambda>(t, s). cfg_pBotname s))
     (ConfigFileParser (Some (''botname=FirstBot'' @ NL # ''botname=SecondBot'' @ [NL])) vsInputConfig zero_setup) = Some (Inr ''FirstBot'')"
  by code_simp

section \<open>queue_test.c\<close>

abbreviation text_data :: "string \<Rightarrow> QueueData" where
  "text_data s \<equiv> \<lparr>t_size = int (length s), q_data = Some s\<rparr>"

abbreviation one_queue :: queue_heap where
  "one_queue \<equiv> snd (initQueue (\<lambda>_. None) (Some (1, blank_node)))"

definition test_pushed :: "nat \<Rightarrow> string \<Rightarrow> queue_heap \<Rightarrow> queue_heap c_result" where
  "test_pushed a s h = do {
     (r, h) \<leftarrow> pushQueue (Some (a, blank_node)) True True h (Some 1) (text_data s);
     if r = QUEUE_SUCCESS then Some h else None }"

lemma test_isemptyQueue:
  "isemptyQueue one_queue (Some 1) = Some True"
  "(test_pushed 2 ''x'' one_queue \<bind> (\<lambda>h. isemptyQueue h (Some 1))) = Some False"
  "(test_pushed 2 ''x'' one_queue \<bind> (\<lambda>h. isfullQueue h (Some 1))) = Some True"
  by code_simp+

lemma test_fifo_order:
  "do { h \<leftarrow> test_pushed 2 ''A'' one_queue;
        h \<leftarrow> test_pushed 3 ''B'' h;
        r1 \<leftarrow> popQueue h (Some 1);
        (case r1 of Blocked \<Rightarrow> None
         | Done (d1, h) \<Rightarrow> do {
             r2 \<leftarrow> popQueue h (Some 1);
             (case r2 of Blocked \<Rightarrow> None
              | Done (d2, h) \<Rightarrow> do { e \<leftarrow> isemptyQueue h (Some 1); Some (d1, d2, e) }) }) }
   = Some (Some (text_data ''A''), Some (text_data ''B''), True)"
  by code_simp

lemma test_queue_errors:
  "map_option fst (flushQueue one_queue None) = Some QUEUE_NULL_POINTER_AS_IN_PARAMETER"
  "map_option fst (pushQueue (Some (2, blank_node)) True True one_queue None (text_data ''x'')) = Some QUEUE_NULL_POINTER_AS_IN_PARAMETER"
  "map_option fst (pushQueue (Some (2, blank_node)) True True one_queue (Some 1) \<lparr>t_size = 4, q_data = None\<rparr>)
     = Some QUEUE_NULL_POINTER_AS_IN_PARAMETER"
  "map_option fst (getNextitrQueue one_queue None) = Some None"
  "map_option fst (getNextitrQueue one_queue (Some 1)) = Some None"
  by code_simp+

text \<open>The iterator gives each element once and has to be set back explicitly.\<close>

lemma test_getNextitrQueue:
  "do { h \<leftarrow> test_pushed 2 ''A'' one_queue;
        (i1, h) \<leftarrow> getNextitrQueue h (Some 1);
        (i2, h) \<leftarrow> getNextitrQueue h (Some 1);
        (i3, h) \<leftarrow> getNextitrQueue h (Some 1);
        h \<leftarrow> SetIterToFirstQueue h (Some 1);
        (i4, h) \<leftarrow> getNextitrQueue h (Some 1);
        Some [i1, i2, i3, i4] }
   = Some [Some (text_data ''A''), None, None, Some (text_data ''A'')]"
  by code_simp

section \<open>callbacklist_test.c\<close>

abbreviation test_item :: "string \<Rightarrow> CallbackItem_t" where
  "test_item n \<equiv> \<lparr>nickname = n, CallbackFkt = KickCb_F, cb_data = []\<rparr>"

definition two_items :: "string \<Rightarrow> string \<Rightarrow> cb_state c_result" where
  "two_items m n = do {
     (_, st) \<leftarrow> insert_next_CallbackDList (Some 1) (\<lparr>cb_size = 0, cb_head = None, cb_tail = None\<rparr>, \<lambda>_. None) None (test_item m);
     (_, st) \<leftarrow> insert_next_CallbackDList (Some 2) st (cb_tail (fst st)) (test_item n);
     Some st }"

lemma two_items_ok: "two_items m n = Some
    (\<lparr>cb_size = 2, cb_head = Some 1, cb_tail = Some 2\<rparr>,
     [1 \<mapsto> \<lparr>i_data = test_item m, i_prev = None, i_next = Some 2\<rparr>, 2 \<mapsto> \<lparr>i_data = test_item n, i_prev = Some 1, i_next = None\<rparr>])"
  by (simp add: two_items_def insert_next_CallbackDList_def size_inc_def deref_def assign_def fun_eq_iff)

lemma test_callbacklist_search:
  assumes "two_items ''Alice'' ''Bob'' = Some st"
  shows "searchNicknameFromCallbackDList st (cb_head (fst st)) ''bob'' = Some (cb_tail (fst st))"
    "searchNicknameFromCallbackDList st (cb_head (fst st)) ''Charlie'' = Some None"
    "searchNicknameFromCallbackDList st (cb_tail (fst st)) ''alice'' = Some (cb_head (fst st))"
proof -
  have c: "\<not> strcasecmp_eq ''Alice'' ''bob''" "strcasecmp_eq ''Bob'' ''bob''" "\<not> strcasecmp_eq ''Alice'' ''Charlie''"
    "\<not> strcasecmp_eq ''Bob'' ''Charlie''" "\<not> strcasecmp_eq ''Bob'' ''alice''" "strcasecmp_eq ''Alice'' ''alice''"
    by code_simp+
  show "searchNicknameFromCallbackDList st (cb_head (fst st)) ''bob'' = Some (cb_tail (fst st))"
    "searchNicknameFromCallbackDList st (cb_head (fst st)) ''Charlie'' = Some None"
    "searchNicknameFromCallbackDList st (cb_tail (fst st)) ''alice'' = Some (cb_head (fst st))"
    using assms c by (auto simp: two_items_ok searchNicknameFromCallbackDList_def search_next.simps search_prev.simps deref_def)
qed

lemma test_callbacklist_insert_prev_before_tail:
  "do { st \<leftarrow> two_items ''Alpha'' ''Charlie'';
        (r, st) \<leftarrow> insert_prev_CallbackDList (Some 3) st (cb_tail (fst st)) (test_item ''Beta'');
        a \<leftarrow> deref (snd st) (cb_head (fst st));
        b \<leftarrow> deref (snd st) (i_next a);
        c \<leftarrow> deref (snd st) (cb_tail (fst st));
        Some (r, cb_size (fst st), map (nickname \<circ> i_data) [a, b, c]) }
   = Some (0, 3, [''Alpha'', ''Beta'', ''Charlie''])"
  by code_simp

lemma test_callbacklist_remove:
  "do { st \<leftarrow> two_items ''One'' ''Two'';
        (r, d, st) \<leftarrow> removeCallbackDList st (cb_tail (fst st));
        Some (r, d, cb_size (fst st), cb_head (fst st) = cb_tail (fst st)) }
   = Some (0, Some (test_item ''Two''), 1, True)"
  "do { st \<leftarrow> two_items ''First'' ''Second'';
        (r, d, st) \<leftarrow> removeCallbackDList st (cb_head (fst st));
        e \<leftarrow> deref (snd st) (cb_head (fst st));
        Some (r, d, cb_size (fst st), cb_head (fst st) = cb_tail (fst st), nickname (i_data e)) }
   = Some (0, Some (test_item ''First''), 1, True, ''Second'')"
  by code_simp+

end
