(* ===== verification/Races.thy ===== *)
theory Races
  imports Logins
begin

text \<open>
  Schedules in which the threads of commands come into each other's way: what the handlers test in one section of
  \<open>dbaccess.c\<close> no longer holds in the next one.
\<close>

section \<open>A removed channel comes back\<close>

definition topic_and_removal :: "MsgBuf_t list" where
  "topic_and_removal = [request_of CMD_SET_TOPIC '':bob!u@h PRIVMSG #c :!topic news'',
     request_of CMD_RMCHANNEL '':bob!u@h PRIVMSG #c :!rmchannel'']"

definition master_of_channel :: "(string \<times> string) list bot" where
  "master_of_channel = snd (db_del exact_env ACCESS_DB (Some ''bob#c'') (snd (db_add exact_env ACCESS_DB (Some ''bob'') (Some ''+m'') logged_bot)))"

text \<open>\<open>replace_db\<close> tests in one section that the key exists and stores in the next one.\<close>

lemma topic_and_removal_ready: "list_all (ready exact_env master_of_channel) topic_and_removal"
  by code_simp

lemma channel_resurrected:
  "map (\<lambda>s. map_option (\<lambda>(b, ts). db_get exact_env b CHANNEL_DB (Some ''#c''))
       (play s master_of_channel (map (command_of exact_env master_of_channel) topic_and_removal)))
     [replicate 2 0 @ replicate 5 1, replicate 2 0 @ replicate 5 1 @ replicate 3 0]
   = [Some None, Some (Some (TAB # ''news'' @ [TAB]))]"
  by code_simp

section \<open>The password of a removed account\<close>

definition ident_and_removal :: "MsgBuf_t list" where
  "ident_and_removal = [request_of CMD_IDENT '':x!u@h PRIVMSG bot :!ident ann aa'',
     request_of CMD_RMUSER '':bob!u@h PRIVMSG #d :!rmaccount ann'']"

definition master_and_ann :: "(string \<times> string) list bot" where
  "master_and_ann = snd (db_add exact_env USER_DB (Some ''ann'') (Some ''aa'') master_of_channel)"

text \<open>\<open>check_db\<close> tests in one section that the account exists, fetches its password in the next one and compares
  it without a test for the null pointer.\<close>

lemma ident_and_removal_ready: "list_all (ready exact_env master_and_ann) ident_and_removal"
  by code_simp

lemma removed_password_null:
  "map_option (\<lambda>(b, ts). case hd ts of Stop \<Rightarrow> None | Step f \<Rightarrow> Some (Option.is_none (f b)))
     (play (replicate 2 0 @ replicate 7 1 @ [0]) master_and_ann (map (command_of exact_env master_and_ann) ident_and_removal))
   = Some (Some True)"
  by code_simp

end
