(* ===== verification/Spec2Isabelle.thy ===== *)
theory Spec2Isabelle
  imports Program Tools Testsuit Races
begin

text \<open>
  A model of ebotula, an IRC bot written in C (\<open>src/src\<close>), and the properties that make it correct.

  The program.  The main thread (\<open>ircbot.c\<close>) reads lines from the server, the parser (\<open>parser.c\<close>)
  recognises events and bot commands in them and pushes them into a queue (\<open>queue.c\<close>).  Command threads
  take them from the queue, compute the level of the user from the account databases (\<open>account.c\<close>,
  \<open>dbaccess.c\<close>), check it against the level of the command and call the handler of the command table
  (\<open>cmdlist.c\<close>): an event handler (\<open>handles.c\<close>) or a command (\<open>command.c\<close>, \<open>ctcp.c\<close>).  Handlers change
  the databases and send lines (\<open>irc.c\<close>).  A handler that needs the netmask of a user registers a
  callback (\<open>callbacklist.c\<close>), asks the server, and the reply runs the callback (\<open>callback.c\<close>).  A
  timing thread removes old logins and accounts.

  The theories, in the order of the code.
  \<^item> Prelude: the functions of the C library on strings (a string is the text before the terminator, a
    pointer into it the suffix it points to), the result type \<open>c_result\<close>, whose \<open>None\<close> is undefined behaviour
    (a null dereference, an access outside of a buffer, a use of an uninitialised variable), and the
    locales for in-place loops, normal forms and text formats.
  \<^item> Utilities, Extract, ChannelMode: \<open>utilities.c\<close> and \<open>extract.c\<close>.  The in-place loops are written with
    their indices and proved equal to recursive functions; the records of channels are proved to be
    read back as they are written.
  \<^item> Chains, Queue, CallbackList: the two linked structures in a heap of nodes, with every pointer
    assignment of the code.  Both refine lists; the locales \<open>fifo\<close> and \<open>pending_calls\<close> state what
    their clients rely on and are interpreted on the heap operations.
  \<^item> Database: the operations of \<open>dbaccess.c\<close> over \<open>gdbm\<close>, a parameter with its documented laws
    (\<open>gdbm_ok\<close>).  \<open>view\<close> is the finite map a database stands for.
  \<^item> Irc: the state \<open>bot\<close> (databases, content of the callback list, lines sent, name and flags), the
    environment \<open>env\<close> (\<open>gdbm\<close>, \<open>crypt\<close>, the time, the size of the block that \<open>malloc\<close> returns, texts of
    the system) and the message builders with the sizes of their buffers.  \<open>SendLine\<close> is the effect of
    sending one line: it is appended to the trace, and the stop flag is set when the socket is closed.
  \<^item> Account, Callback, Handles, Cmdtypes, UserCommands, ChannelCommands, OwnerCommands, Parser: one
    definition per function of \<open>account.c\<close>, \<open>callback.c\<close>, \<open>handles.c\<close>, \<open>cmdlist.c\<close>, \<open>irchelp.c\<close>,
    \<open>ctcp.c\<close>, \<open>command.c\<close> and \<open>parser.c\<close>; the body of a loop over the keys of a database is a definition of its own.
  \<^item> Invariants: the locale \<open>bot_invariant\<close> states what a property of the bot needs to survive the
    elementary steps of the handlers and proves that then every handler, the parser and the timing
    thread keep it.  It is interpreted for the well-formedness of all stored records and for the
    inverse login tables.
  \<^item> Config, Options: \<open>configparser.c\<close>, \<open>baseconfig.c\<close>, \<open>parameter.c\<close>, \<open>messages.c\<close> and the setup in \<open>AppMain\<close>, with the two
    tables of settings as values: the written file is read back, and every setup the bot starts with
    is within its bounds.
  \<^item> Network: \<open>network.c\<close>.  \<open>SendLine_throttled\<close> adds the delay and the counters of the flood protection to the
    effect \<open>SendLine\<close> that the handlers use, and is proved to have that effect.
  \<^item> MainLoop, Timing: a turn of the main loop of \<open>ircbot.c\<close>, which cuts blocks into lines, and of the loop of
    \<open>timing.c\<close>.
  \<^item> System: \<open>run\<close> interleaves the threads; from step to step the environment, the time in particular, may
    change.  \<open>system_step\<close> adds what the threads exchange: the text left over, the queue, the timers.
  \<^item> Authority: which commands write which database (\<open>writers\<close>, \<open>removers\<close>), and the instances of
    \<open>bot_invariant\<close> that say a value not present before is only written by them; a value that appears in a run
    has a message that wrote it, with the state in which it was executed.
  \<^item> Threads: the commands that write databases once more, as sequences of steps: one section of \<open>dbaccess.c\<close> under the
    mutex of its database, one change of the login tables under \<open>mutexAccount\<close>, or one line sent.  A thread that
    is not interrupted has the effect of its handler.
  \<^item> Interleaving: \<open>weave\<close> lets these threads and the other threads of the program make their steps in any order; the locale
    \<open>thread_invariant\<close> extends \<open>bot_invariant\<close> to steps whose test was made in another state, and is interpreted for the
    stored records and for the entries that only their writers change; Logins adds a third one.
  \<^item> Logins: which part of the inverse login tables survives interruptions, whatever netmasks the server gives.
  \<^item> Races: schedules in which one command undoes or circumvents what another one has tested.
  \<^item> Pool: the threads of \<open>AppMain\<close> with the queue between them, and their end: the command threads wait in \<open>popQueue\<close>, work on a
    message section by section or have left their loop; the main thread reads, empties the queue and joins them.  Its runs are interleaved
    runs, so that what is proved for these holds in it.
  \<^item> Program: \<open>main\<close> and \<open>AppMain\<close> around the threads: opening the databases of a directory, the dialog for a master,
    the connection, the run of Pool, and, when all command threads have been joined, the closing of the databases and the next
    call.  A thread that waits for a message when the bot stops is never joined.
  \<^item> Tools: the program of \<open>src/tools\<close> that dumps and edits the databases, with its quoting.
  \<^item> Testsuit: the values that the tests of \<open>src/testsuit\<close> expect, computed from the definitions.
  \<^item> This theory: the properties of whole runs.

  Bounds and fuel.  There is no fuel: loops over lists are recursion on the list, the loops over the
  heap and over the keys of a database are partial functions whose results are proved to exist.  The
  counter of the queue is a 64 bit word and the size of the callback list an int with its limit.

  Concurrency.  An operation of the queue and of the callback list runs under its mutex, so it is one
  step.  In the runs of System, to which the properties of this theory about whole runs are restricted, a command is executed as a whole; the code does not lock the databases for a whole command, so
  Interleaving runs the commands that write databases section by section, the level of the user included.
  Simplifications that remain there: the changes of the two login tables under \<open>mutexAccount\<close> are one step although a reader without this
  mutex could look at them in between (the rest of \<open>rmAccount\<close> is in several steps, and another thread with the mutex may come
  in between, which is more than the code allows), a command that writes nothing is one step, and so is a turn of the timing thread.

  Not modelled.  The texts of log messages, translations of texts and the release of memory of strings are left out, except where
  the memory belongs to a linked structure.  The change of the user, the daemon and the registration of signal
  handlers are effects of the operating system (a signal is a step of the system); \<open>src/intl\<close> is the runtime of GNU gettext, a library that the program ships.
  Sockets, \<open>gdbm\<close>, \<open>crypt\<close>, the file system and the terminal are parameters: what they deliver is an
  argument of the definitions.
\<close>

section \<open>The threads together\<close>

text \<open>A short run: one block with a request arrives and the request is executed.\<close>

definition sample_request :: string where
  "sample_request = '':al!u@h PRIVMSG #c :!version''"

lemma sample_turn:
  "map_option (\<lambda>(ls, rest, q, b). (ls, rest, q, Option.is_none (execute_message exact_env (hd q) b)))
     (main_turn exact_env (Received (sample_request @ CRLF)) [] [] logged_bot)
   = Some ([sample_request], [], [\<lparr>identify = CMD_VERSION, pMsgLine = Some sample_request\<rparr>], False)"
  by code_simp

lemma one_request_run:
  assumes "main_turn exact_env (Received block) [] [] b0 = Some (ls, rest, [m], b)"
    and "RecvLine RECV_BUFFER_SIZE (Received block) = Some (f, block)" "\<not> stop b0" "execute_message exact_env m b = Some b'" "ok m b"
  obtains S where "system_run exact_env cfg ok (system_start b0) S" "received S = [block]"
    "command_queue S = []" "executed S = [m]" "main_runs S" "the_bot S = b'"
proof -
  let ?S = "system_start b0"
  let ?S1 = "?S\<lparr>the_bot := b, unparsed := rest, command_queue := [m], received := [block], parsed := ls\<rparr>"
  have 1: "system_step exact_env cfg ok ?S ?S1"
    using system_step.read_block[of ?S exact_env exact_env, OF _ _ like_refl assms(2)] assms(1,3)
    by (simp add: system_start_def)
  have 2: "system_step exact_env cfg ok ?S1 (?S1\<lparr>the_bot := b', command_queue := [], executed := [m]\<rparr>)"
    using system_step.take_message[of ?S1 m "[]" ok exact_env exact_env b', OF _ _ like_refl] assms(4,5)
    by (simp add: system_start_def)
  show thesis
    by (rule that[OF converse_rtranclp_into_rtranclp[OF 1 r_into_rtranclp[where r = "system_step _ _ _", OF 2]]])
      (simp_all add: system_start_def)
qed

lemma sample_run:
  obtains S where "system_run exact_env cfg (names_free exact_env) (system_start logged_bot) S"
    "received S = [sample_request @ CRLF]" "length (executed S) = 1" "main_runs S"
proof -
  let ?m = "\<lparr>identify = CMD_VERSION, pMsgLine = Some sample_request\<rparr>"
  obtain b b' where b: "main_turn exact_env (Received (sample_request @ CRLF)) [] [] logged_bot
      = Some ([sample_request], [], [?m], b)" "execute_message exact_env ?m b = Some b'"
    using sample_turn by (auto simp: Option.is_none_def)
  have "RecvLine RECV_BUFFER_SIZE (Received (sample_request @ CRLF)) = Some (False, sample_request @ CRLF)"
    "\<not> stop logged_bot" "names_free exact_env ?m b" by (code_simp, code_simp, simp add: names_free_def)
  from one_request_run[OF b(1) this(1,2) b(2), of "names_free exact_env" cfg] this(3) that show thesis by fastforce
qed

text \<open>A run of the system that executes each command as a whole is a run of the bot alone.  If in addition no message logs a user on from a
  netmask that is in use, the login tables stay inverse; \<open>Logins.two_logins\<close> shows that this needs
  both conditions.\<close>

lemma system_refines_runs:
  assumes "env_ok E" "stored_ok E b0" "logins_ok E b0" "system_run E cfg (names_free E) (system_start b0) S"
  shows "run E (names_free E) b0 (the_bot S) \<and> stored_ok E (the_bot S) \<and> logins_ok E (the_bot S)"
proof -
  have r: "run E (names_free E) b0 (the_bot S)"
    using system_run_bot[OF assms(4)] by (simp add: system_start_def)
  show ?thesis using r stored_run[OF r assms(2)] logins_run[OF r assms(3)] by blast
qed

text \<open>C16: In runs of the system that execute each command as a whole, however the network cuts the stream, provided that no block ends
  inside of a line end: while the main loop runs, the commands that the command
  threads have taken, followed by those that wait in the queue, are exactly the commands in the lines of
  the stream, each once and in the order of the stream; after the main loop has ended the commands taken are a beginning of them,
  and the rest has been dropped.  A block that ends between the two characters of a line end makes this
  false, as \<open>MainLoop.split_line_end\<close> shows.\<close>

theorem commands_in_order:
  assumes "system_run E cfg ok (system_start b0) S"
    and "concat (received S) = concat (map (\<lambda>l. l @ CRLF) ls) @ rest"
    and "\<forall>l \<in> set ls. CR \<notin> set l" "CR \<notin> set rest" "\<forall>t \<in> set (received S). t = [] \<or> last t \<noteq> CR"
  shows "unparsed S = rest \<and> (\<exists>late. commands E b0 ls = executed S @ late
    \<and> (if main_runs S then late = command_queue S else command_queue S = []))"
proof -
  have "feed (received S) [] = (ls, rest)"
    using feed_cut[of "received S" "[]"] cut_lines_whole[of ls rest] assms(2-5) by (simp add: list_all_iff)
  with exchange_run[OF assms(1)] show ?thesis by (auto simp: exchange_ok_def)
qed

lemma commands_in_order_witness:
  "\<exists>S :: (string \<times> string) list system. received S = [sample_request @ CRLF] \<and> length (executed S) = 1
    \<and> commands exact_env logged_bot [sample_request] = executed S @ command_queue S"
proof -
  obtain S where S: "system_run exact_env sample_setup (names_free exact_env) (system_start logged_bot) S"
    "received S = [sample_request @ CRLF]" "length (executed S) = 1" "main_runs S" by (rule sample_run)
  have "concat (received S) = concat (map (\<lambda>l. l @ CRLF) [sample_request]) @ []" using S(2) by simp
  from commands_in_order[OF S(1) this] S(2,4)
  have "commands exact_env logged_bot [sample_request] = executed S @ command_queue S"
    by (auto simp: sample_request_def)
  then show ?thesis using S(2,3) by blast
qed

text \<open>C17: A turn of the timing thread always comes to an end with the databases in order.  It sends the ping and the
  identification exactly when they are due.  When an hour has passed it logs off exactly the accounts whose last login is before
  the limit of \<open>AutoLoggoff\<close>, and removes exactly those whose last login is before the limit of
  \<open>AccountLiveTime\<close>, with their logins and their rights; every other account, login and right, and all channel records
  and bans, stay as they were.\<close>

theorem timing_turn_keeps_up:
  assumes "env_ok E" "stored_ok E b" "logins_ok E b"
    and "old = (\<lambda>k. t - lastRemoveDeadLogins tm \<ge> 3600 \<and> db_get E b USER_DB (Some k) \<noteq> None
          \<and> stale E b (t - seconds (AutoLoggoff cfg)) (StrToLower k))"
    and "dead = (\<lambda>k. t - lastRemoveDeadAccounts tm \<ge> 3600 \<and> stale E b (t - seconds (AccountLiveTime cfg)) k)"
  shows "\<exists>tm' b'. timing_turn E cfg t tm b = Some (tm', b') \<and> stored_ok E b' \<and> logins_ok E b'
    \<and> sent b' = sent b @ (if t - lastPing tm \<ge> iTimeout cfg div 2 then [''PING '' @ sHostname b @ CRLF] else [])
        @ (if ident_due cfg t tm then [''PRIVMSG nickserv :identify '' @ the (sNickServIdent cfg) @ CRLF] else [])
    \<and> (\<forall>k. db_get E b' USERTONICK_DB (Some k) =
        (if old k \<or> dead (StrToLower k) then None else db_get E b USERTONICK_DB (Some k)))
    \<and> (\<forall>k. db_get E b' USER_DB (Some k) = (if dead (StrToLower k) then None else db_get E b USER_DB (Some k)))
    \<and> (\<forall>k. db_get E b' ACCESS_DB (Some k) =
        (if \<exists>l. dead l \<and> StrToLower k \<in> right_keys E b l then None else db_get E b ACCESS_DB (Some k)))
    \<and> (\<forall>k. db_get E b' CHANNEL_DB (Some k) = db_get E b CHANNEL_DB (Some k)
         \<and> db_get E b' BANLIST_DB (Some k) = db_get E b BANLIST_DB (Some k))
    \<and> t - lastRemoveDeadLogins tm' < 3600 \<and> t - lastRemoveDeadAccounts tm' < 3600"
proof -
  define b1 where "b1 = (if t - lastPing tm \<ge> iTimeout cfg div 2 then ping E (Some (sHostname b)) b else b)"
  have d: "dbs b1 = dbs b" by (simp add: b1_def SendLine_def)
  have b1: "stored_ok E b1" "logins_ok E b1" "stale E b1 = stale E b" "V E b1 = V E b" "right_keys E b1 = right_keys E b"
    using assms(2,3) by (simp_all only: stored_cong[OF d]) (simp_all add: d logins_ok_def stale_def right_keys_def fun_eq_iff)
  have s1: "sent b1 = sent b @ (if t - lastPing tm \<ge> iTimeout cfg div 2 then [''PING '' @ sHostname b @ CRLF] else [])"
    by (simp add: b1_def SendLine_def)
  obtain b2 b3 b4 where b4: "rmDeadLogins E (t - seconds (AutoLoggoff cfg)) b1 = Some b2"
    "rmDeadAccounts E (t - seconds (AccountLiveTime cfg)) (if t - lastRemoveDeadLogins tm \<ge> 3600 then b2 else b1) = Some b3"
    "b4 = (if t - lastRemoveDeadAccounts tm \<ge> 3600 then b3 else if t - lastRemoveDeadLogins tm \<ge> 3600 then b2 else b1)"
    "stored_ok E b4" "logins_ok E b4" "sent b4 = sent b1"
    and v: "V E b4 USER_DB = (\<lambda>k. if dead k then None else V E b USER_DB k)"
    "V E b4 USERTONICK_DB = (\<lambda>k. if dead k \<or> t - lastRemoveDeadLogins tm \<ge> 3600 \<and> V E b USER_DB k \<noteq> None
        \<and> stale E b (t - seconds (AutoLoggoff cfg)) k then None else V E b USERTONICK_DB k)"
    "V E b4 ACCESS_DB = (\<lambda>k. if \<exists>l. dead l \<and> k \<in> right_keys E b l then None else V E b ACCESS_DB k)"
    "V E b4 CHANNEL_DB = V E b CHANNEL_DB" "V E b4 BANLIST_DB = V E b BANLIST_DB"
    using due_removals[OF assms(1) b1(1,2), where t = "t - seconds (AutoLoggoff cfg)" and u = "t - seconds (AccountLiveTime cfg)"
        and d = "t - lastRemoveDeadLogins tm \<ge> 3600" and e = "t - lastRemoveDeadAccounts tm \<ge> 3600"]
    unfolding b1(3-5) assms(5) conj_assoc by blast
  define b' where "b' = (if ident_due cfg t tm
    then privmsg E (Some ''nickserv'') (map_option (\<lambda>p. ''identify '' @ p) (sNickServIdent cfg)) b4 else b4)"
  have b': "dbs b' = dbs b4" "sent b' = sent b4 @
      (if ident_due cfg t tm then [''PRIVMSG nickserv :identify '' @ the (sNickServIdent cfg) @ CRLF] else [])"
    by (auto simp: b'_def ident_due_def SendLine_def)
  obtain tm' where tm': "timing_turn E cfg t tm b = Some (tm', b')"
      "t - lastRemoveDeadLogins tm' < 3600" "t - lastRemoveDeadAccounts tm' < 3600"
    using timing_turn_steps[OF b4(1,2)[unfolded b1_def]]
    by (auto simp: b'_def b4(3) b1_def Let_def simp del: ping_sent privmsg_sent)
  have "stored_ok E b'" "logins_ok E b'" using b4(4,5) by (simp_all add: stored_cong[OF b'(1)]) (simp add: logins_ok_def b'(1))
  moreover have V': "V E b' = V E b4" by (simp add: b'(1))
  have "db_get E b' USERTONICK_DB (Some k) = (if old k \<or> dead (StrToLower k) then None else db_get E b USERTONICK_DB (Some k))"
    "db_get E b' USER_DB (Some k) = (if dead (StrToLower k) then None else db_get E b USER_DB (Some k))"
    "db_get E b' ACCESS_DB (Some k) = (if \<exists>l. dead l \<and> StrToLower k \<in> right_keys E b l then None else db_get E b ACCESS_DB (Some k))"
    "db_get E b' CHANNEL_DB (Some k) = db_get E b CHANNEL_DB (Some k)" "db_get E b' BANLIST_DB (Some k) = db_get E b BANLIST_DB (Some k)" for k
    unfolding V_get V' v assms(4) by auto
  ultimately show ?thesis
    using tm' b'(2) b4(6) s1 by (intro exI[of _ tm'] exI[of _ b']) (simp del: V_get)
qed

lemma timing_turn_keeps_up_witness:
  "\<exists>tm' b'. timing_turn exact_env sample_setup (200 * 86400) timer_init logged_bot = Some (tm', b')
    \<and> logins_ok exact_env b' \<and> db_get exact_env b' USER_DB (Some ''Bob'') = None"
proof -
  have "stale exact_env logged_bot (200 * 86400 - seconds (AccountLiveTime sample_setup)) (StrToLower ''Bob'')"
    "(200 * 86400) - lastRemoveDeadAccounts timer_init \<ge> 3600" by code_simp+
  with timing_turn_keeps_up[OF exact_env_ok logged_bot_stored logged_bot_ok(1) refl refl, where t = "200 * 86400" and cfg = sample_setup and tm = timer_init]
  show ?thesis by (auto simp del: V_get)
qed

section \<open>Authority\<close>

text \<open>C8: No privilege escalation when commands run one at a time: in every run of the system that executes each command as a
  whole, if the databases hold an account, a password, a right, a channel record or a ban that was not there at the start, then
  some message was executed in a step that changed this entry to what it is now, and in the state in which
  this step began its sender had the level that the command requires: its command writes this database, a password was changed by the
  account's owner, \<open>!hello\<close> took a free name and gave a right only when there was no account at all.\<close>

theorem entries_written_lawfully:
  assumes "env_ok E" "db \<in> {USER_DB, ACCESS_DB, CHANNEL_DB, BANLIST_DB}" "system_run E cfg ok (system_start b0) S"
    and "db_get E (the_bot S) db (Some key) = Some v" "db_get E b0 db (Some key) \<noteq> Some v"
  shows "\<exists>S1 S2 m E'. system_run E cfg ok (system_start b0) S1 \<and> system_step E cfg ok S1 S2 \<and> system_run E cfg ok S2 S
    \<and> like E E' \<and> executed S2 = executed S1 @ [m] \<and> execute_message E' m (the_bot S1) = Some (the_bot S2)
    \<and> db_get E (the_bot S1) db (Some key) \<noteq> Some v \<and> db_get E (the_bot S2) db (Some key) = Some v
    \<and> lawful E' db (StrToLower key) (the_bot S1) m"
proof -
  let ?P = "lacks E db (StrToLower key) v"
  have "\<not> ?P (the_bot S)" "?P (the_bot (system_start b0))"
    using assms(1,4,5) by (simp_all add: lacks_def system_start_def)
  then have "culprit E cfg ok ?P (system_start b0) S"
    using run_culprit[OF lacks_outside[OF assms(2)] assms(3)] by blast
  then obtain S1 S2 m E' where c: "system_run E cfg ok (system_start b0) S1" "system_step E cfg ok S1 S2" "system_run E cfg ok S2 S"
    "like E E'" "executed S2 = executed S1 @ [m]" "execute_message E' m (the_bot S1) = Some (the_bot S2)" "?P (the_bot S1)" "\<not> ?P (the_bot S2)"
    unfolding culprit_def by blast
  have l: "lawful E' db (StrToLower key) (the_bot S1) m"
    by (rule written_lawful[of E' db "StrToLower key" v "the_bot S1" m "the_bot S2"])
      (use c(4,6-8) assms(2) like_lacks[OF c(4)] in \<open>auto simp: like_def\<close>)
  have "db_get E (the_bot S1) db (Some key) \<noteq> Some v" "db_get E (the_bot S2) db (Some key) = Some v"
    using c(7,8) assms(1) by (simp_all add: lacks_def)
  with c(1-6) l show ?thesis by blast
qed

definition pass_request :: string where
  "pass_request = '':bob!u@h PRIVMSG #c :!pass secret''"

lemma pass_turn:
  "map_option (\<lambda>(ls, rest, q, b). (ls, rest, map identify q,
      map_option (\<lambda>b. db_get exact_env b USER_DB (Some ''bob'')) (execute_message exact_env (hd q) b)))
     (main_turn exact_env (Received (pass_request @ CRLF)) [] [] logged_bot)
   = Some ([pass_request], [], [CMD_PASS], Some (Some ''terces''))"
  by code_simp

lemma entries_written_lawfully_witness:
  "\<exists>(S1 :: (string \<times> string) list system) (S2 :: (string \<times> string) list system) m E'.
    execute_message E' m (the_bot S1) = Some (the_bot S2) \<and> lawful E' USER_DB ''bob'' (the_bot S1) m
    \<and> db_get exact_env (the_bot S2) USER_DB (Some ''bob'') = Some ''terces''"
proof -
  obtain m b b' where b: "main_turn exact_env (Received (pass_request @ CRLF)) [] [] logged_bot = Some ([pass_request], [], [m], b)"
    "execute_message exact_env m b = Some b'" "db_get exact_env b' USER_DB (Some ''bob'') = Some ''terces''"
    using pass_turn by auto
  have c: "RecvLine RECV_BUFFER_SIZE (Received (pass_request @ CRLF)) = Some (False, pass_request @ CRLF)" "\<not> stop logged_bot"
    by code_simp+
  obtain S where S: "system_run exact_env sample_setup (\<lambda>_ _. True) (system_start logged_bot) S" "the_bot S = b'"
    by (rule one_request_run[OF b(1) c b(2), of "\<lambda>_ _. True" sample_setup]) auto
  have "db_get exact_env logged_bot USER_DB (Some ''bob'') = Some ''wp''" "StrToLower ''bob'' = ''bob''" by code_simp+
  then have n: "db_get exact_env logged_bot USER_DB (Some ''bob'') \<noteq> Some ''terces''" "StrToLower ''bob'' = ''bob''" by simp_all
  have "db_get exact_env (the_bot S) USER_DB (Some ''bob'') = Some ''terces''" using b(3) S(2) by simp
  from entries_written_lawfully[OF exact_env_ok _ S(1) this n(1), unfolded n(2)] show ?thesis by blast
qed

text \<open>C13: In runs that execute each command as a whole, the bot starts itself again only when a master has asked for it: if the flag is set after a run in which it was not
  set at the start, then a \<open>!restart\<close> was executed whose sender had the level of a master at that time.\<close>

theorem restart_needs_master:
  assumes "\<not> again b0" "system_run E cfg ok (system_start b0) S" "again (the_bot S)"
  shows "\<exists>S1 m E' line. system_run E cfg ok (system_start b0) S1 \<and> system_run E cfg ok S1 S \<and> m \<in> set (executed S) \<and> like E E'
    \<and> identify m = CMD_RESTART \<and> pMsgLine m = Some line
    \<and> getUserLevel E' (the_bot S1) (getAccessChannel (Some line)) (getNetmask (Some line)) = MasterLevel"
proof -
  have "culprit E cfg ok (\<lambda>b. \<not> again b) (system_start b0) S"
    using run_culprit[OF unrestarted_outside assms(2)] assms(1,3) by (auto simp: system_start_def)
  then obtain S1 S2 m E' where d: "system_run E cfg ok (system_start b0) S1" "system_step E cfg ok S1 S2" "system_run E cfg ok S2 S"
    "like E E'" "executed S2 = executed S1 @ [m]" "execute_message E' m (the_bot S1) = Some (the_bot S2)"
    "\<not> again (the_bot S1)" "again (the_bot S2)"
    unfolding culprit_def by blast
  have "system_run E cfg ok S1 S" using d(2,3) by (rule converse_rtranclp_into_rtranclp)
  moreover have "m \<in> set (executed S)" using d(5) executed_grow[OF d(3)] by auto
  ultimately have c: "system_run E cfg ok (system_start b0) S1" "system_run E cfg ok S1 S" "like E E'" "\<not> again (the_bot S1)"
    "execute_message E' m (the_bot S1) = Some (the_bot S2)" "again (the_bot S2)" "m \<in> set (executed S)"
    using d by blast+
  from restarted_by[OF c(4-6)] obtain line where "identify m = CMD_RESTART" "pMsgLine m = Some line"
    "MasterLevel \<le> getUserLevel E' (the_bot S1) (getAccessChannel (Some line)) (getNetmask (Some line))"
    by (auto simp: authorised_def required_def)
  moreover have "MasterLevel \<le> lv \<Longrightarrow> lv = MasterLevel" for lv
    by (cases lv) (auto simp: less_eq_UserLevel_t_def)
  ultimately show ?thesis using c(1-3,7) by blast
qed

definition master_bot :: "(string \<times> string) list bot" where
  "master_bot = snd (db_add exact_env ACCESS_DB (Some ''bob'') (Some ''+m'') logged_bot)"

definition restart_request :: string where
  "restart_request = '':bob!u@h PRIVMSG #d :!restart''"

lemma restart_turn:
  "map_option (\<lambda>(ls, rest, q, b). (ls, rest, map identify q, map_option again (execute_message exact_env (hd q) b)))
     (main_turn exact_env (Received (restart_request @ CRLF)) [] [] master_bot)
   = Some ([restart_request], [], [CMD_RESTART], Some True)"
  by code_simp

lemma restart_needs_master_witness:
  "\<exists>(S1 :: (string \<times> string) list system) m (E' :: (string \<times> string) list env) line. identify (m :: MsgBuf_t) = CMD_RESTART
     \<and> getUserLevel E' (the_bot S1) (getAccessChannel (Some line)) (getNetmask (Some line)) = MasterLevel"
proof -
  obtain m b b' where b: "main_turn exact_env (Received (restart_request @ CRLF)) [] [] master_bot = Some ([restart_request], [], [m], b)"
    "execute_message exact_env m b = Some b'" "again b'"
    using restart_turn by auto
  have c: "RecvLine RECV_BUFFER_SIZE (Received (restart_request @ CRLF)) = Some (False, restart_request @ CRLF)" "\<not> stop master_bot"
    "\<not> again master_bot" by code_simp+
  obtain S where S: "system_run exact_env sample_setup (\<lambda>_ _. True) (system_start master_bot) S" "the_bot S = b'"
    by (rule one_request_run[OF b(1) c(1,2) b(2), of "\<lambda>_ _. True" sample_setup]) auto
  from restart_needs_master[OF c(3) S(1)] b(3) S(2) show ?thesis by auto
qed

end
